(* ===== verification/Prelude.thy ===== *)
theory Prelude
  imports Main "HOL-Library.AList" "HOL-Library.Char_ord" "HOL-Library.List_Lexorder"
begin

text \<open>
  What every component shares: Go values that have no counterpart of their own in HOL
  (errors, results, byte strings, the unspecified iteration order of Go maps), decimal
  numerals, association lists as Go maps, and the hint collections of the development.
\<close>

section \<open>Hint collections\<close>

named_theorems go_consts "defining equations of the program's string constants"
named_theorems go_eval "defining equations that evaluate the model on closed input"

section \<open>Strings, errors and results\<close>

text \<open>
  A Go \<open>string\<close> and a Go \<open>[]byte\<close> are both sequences of bytes: here a list of
  \<open>char\<close>, the 8-bit characters of HOL. Where the code tells a nil slice from an empty
  one, the model uses an option.
\<close>

type_synonym bytes = string

text \<open>A structured finding of the Class 1 verifier (fields of \<open>verify.Finding\<close> that the
  program reads).\<close>

record finding =
  Finding_Check :: "int option"
  Finding_Severity :: string
  Finding_Code :: string
  Finding_Detail :: string

text \<open>The sentinel errors of the artifact package, and the one of \<open>database/sql\<close> it tests for.\<close>

datatype sentinel =
    ErrInvalid | ErrConflict | ErrNotFound | ErrPurged | ErrDigestMismatch
  | ErrUntrustedSigner | ErrCorrupt | ErrTxDone

text \<open>
  A Go error value. \<open>Errorf f as\<close> is \<open>fmt.Errorf\<close> of the format string \<open>f\<close> and its
  arguments when none is wrapped, \<open>Wrapf f as e\<close> when the verb \<open>%w\<close> wraps \<open>e\<close>.
  \<open>External\<close> is an error made by the standard library or by a dependency, \<open>DriverError\<close>
  one that a database driver made, with its number, and \<open>Joined\<close> the value of
  \<open>errors.Join\<close>.
\<close>

datatype go_error =
    Errorf string "string list"
  | Wrapf string "string list" go_error
  | Sentinel sentinel
  | Class1Error "finding list"
  | External string
  | DriverError nat string
  | Joined go_error go_error

type_synonym 'a res = "go_error + 'a"

text \<open>\<open>errors.Is\<close> against a sentinel: follow the tree of wrapped errors.\<close>

fun errors_is :: "go_error \<Rightarrow> sentinel \<Rightarrow> bool" where
  "errors_is (Sentinel s) t = (s = t)"
| "errors_is (Wrapf f as e) t = errors_is e t"
| "errors_is (Joined d e) t = (errors_is d t \<or> errors_is e t)"
| "errors_is _ t = False"

text \<open>The result of a call, or the error put in its place.\<close>

definition is_ok :: "'a res \<Rightarrow> bool" where
  "is_ok r = (case r of Inl _ \<Rightarrow> False | Inr _ \<Rightarrow> True)"

lemma is_ok_simps [simp]: "is_ok (Inr x)" "\<not> is_ok (Inl e)"
  by (simp_all add: is_ok_def)

section \<open>Loops that stop at the first error\<close>

fun first_err :: "('a \<Rightarrow> 'e option) \<Rightarrow> 'a list \<Rightarrow> 'e option" where
  "first_err f [] = None"
| "first_err f (x # xs) = (case f x of Some e \<Rightarrow> Some e | None \<Rightarrow> first_err f xs)"

lemma first_err_cong [fundef_cong]:
  "xs = ys \<Longrightarrow> (\<And>x. x \<in> set ys \<Longrightarrow> f x = g x) \<Longrightarrow> first_err f xs = first_err g ys"
  by (induction ys arbitrary: xs) (auto split: option.splits)

lemma first_err_None_iff: "first_err f xs = None \<longleftrightarrow> (\<forall>x \<in> set xs. f x = None)"
  by (induction xs) (auto split: option.splits)

lemma first_err_SomeE:
  assumes "first_err f xs = Some e"
  obtains x where "x \<in> set xs" "f x = Some e"
  using assms by (induction xs) (auto split: option.splits)

text \<open>The error of a conditional check: \<open>if b { return err }\<close>.\<close>

abbreviation (input) err_if :: "bool \<Rightarrow> 'e \<Rightarrow> 'e option" where
  "err_if b e \<equiv> (if b then Some e else None)"

text \<open>\<open>if err := a; err != nil { return err }; b\<close>.\<close>

fun or_else :: "'e option \<Rightarrow> 'e option \<Rightarrow> 'e option" where
  "or_else (Some e) b = Some e"
| "or_else None b = b"

lemma or_else_None_iff [simp]: "or_else a b = None \<longleftrightarrow> a = None \<and> b = None"
  by (cases a) auto

lemma or_else_Some_iff: "or_else a b = Some e \<longleftrightarrow> a = Some e \<or> (a = None \<and> b = Some e)"
  by (cases a) auto

section \<open>Go maps\<close>

text \<open>
  A Go map is an association list with distinct keys; \<open>AList.update\<close> is the assignment
  \<open>m[k] = v\<close> and \<open>map_of\<close> the lookup. Go iterates over a map in an order the language
  leaves open. A function that ranges over a map takes that order as an argument: at
  each program point (named by a path) a rearrangement of the keys.
\<close>

type_synonym range_order = "string \<Rightarrow> string list \<Rightarrow> string list"

definition range_ok :: "range_order \<Rightarrow> bool" where
  "range_ok rng \<longleftrightarrow> (\<forall>p ks. set (rng p ks) = set ks \<and> length (rng p ks) = length ks)"

definition in_order :: range_order where
  "in_order p ks = ks"

definition reversed :: range_order where
  "reversed p ks = rev ks"

lemma range_ok_in_order [simp]: "range_ok in_order"
  by (simp add: range_ok_def in_order_def)

lemma range_ok_reversed [simp]: "range_ok reversed"
  by (simp add: range_ok_def reversed_def)

lemma set_range [simp]: "range_ok rng \<Longrightarrow> set (rng p ks) = set ks"
  by (simp add: range_ok_def)

text \<open>Assignment keeps keys distinct, and reads back.\<close>

abbreviation keys :: "('k \<times> 'v) list \<Rightarrow> 'k list" where
  "keys m \<equiv> map fst m"

lemma distinct_keys_update [intro]: "distinct (keys m) \<Longrightarrow> distinct (keys (AList.update k v m))"
  by (rule distinct_update)

lemma set_keys_update [simp]: "set (keys (AList.update k v m)) = insert k (set (keys m))"
  by (induction m) auto

lemma map_of_update_same [simp]: "map_of (AList.update k v m) k = Some v"
  by (simp add: update_conv)

lemma map_of_update_other [simp]: "j \<noteq> k \<Longrightarrow> map_of (AList.update k v m) j = map_of m j"
  by (simp add: update_conv)

lemma update_values: "(j, w) \<in> set (AList.update k v m) \<Longrightarrow> (j = k \<and> w = v) \<or> (j, w) \<in> set m"
  by (induction m) (auto split: if_splits)

lemma update_fresh: "k \<notin> set (keys m) \<Longrightarrow> AList.update k v m = m @ [(k, v)]"
  by (induction m) auto

text \<open>\<open>_, exists := m[k]\<close>.\<close>

definition has_key :: "('k \<times> 'v) list \<Rightarrow> 'k \<Rightarrow> bool" where
  "has_key m k = (map_of m k \<noteq> None)"

lemma has_key_iff [simp]: "has_key m k \<longleftrightarrow> k \<in> set (keys m)"
  by (simp add: has_key_def map_of_eq_None_iff)

section \<open>Decimal numerals\<close>

definition digit_char :: "nat \<Rightarrow> char" where
  "digit_char n = char_of (48 + n)"

fun show_nat :: "nat \<Rightarrow> string" where
  "show_nat n = (if n < 10 then [digit_char n] else show_nat (n div 10) @ [digit_char (n mod 10)])"

declare show_nat.simps [simp del]

lemma show_nat_nonempty: "show_nat n \<noteq> []"
  by (subst show_nat.simps) simp

end
