(* ===== verification/Constants.thy ===== *)
theory Constants
  imports Prelude
begin

text \<open>
  The constants of \<open>constants.go\<close>. Each Go value type there is a defined string type whose
  constants are the seeded values: any string can occur at run time, so the types are
  synonyms of \<open>string\<close> and the constants are definitions, collected in \<open>go_consts\<close>.
\<close>

section \<open>Value types\<close>

type_synonym ActionType = string
type_synonym Decision = string
type_synonym Approver = string
type_synonym VerdictClass = string
type_synonym EffectStatus = string
type_synonym IrreversibilityClass = string
type_synonym EffectAttestation = string
type_synonym ChainRelation = string
type_synonym EffectMode = string
type_synonym AttestationMode = string
type_synonym LedgerMode = string
type_synonym Domain = string
type_synonym Provenance = string
type_synonym ProvenanceModeValue = string
type_synonym TimeRung = string

section \<open>Constants\<close>

definition SpecVersion :: string where "SpecVersion = ''draft-mih-scitt-agent-action-capsule-05''"
definition FormatVersion :: string where "FormatVersion = ''4''"
definition CanonicalizationID :: string where "CanonicalizationID = ''jcs''"
definition ContentType :: string where "ContentType = ''application/agent-action-capsule-id''"

text \<open>Verifiers accept the drafts that define format 4; the code never branches on the list.\<close>

definition AcceptedSpecVersions :: "string list" where
  "AcceptedSpecVersions = [''draft-mih-scitt-agent-action-capsule-04'', SpecVersion]"

definition ActionTypeFYI :: ActionType where "ActionTypeFYI = ''fyi''"
definition ActionTypeDecide :: ActionType where "ActionTypeDecide = ''decide''"
definition DecisionAccept :: Decision where "DecisionAccept = ''accept''"
definition DecisionReject :: Decision where "DecisionReject = ''reject''"
definition DecisionNeedsInput :: Decision where "DecisionNeedsInput = ''needs_input''"
definition DecisionDeferred :: Decision where "DecisionDeferred = ''deferred''"
definition ApproverHuman :: Approver where "ApproverHuman = ''human''"
definition ApproverPolicy :: Approver where "ApproverPolicy = ''policy''"
definition ApproverCounterparty :: Approver where "ApproverCounterparty = ''counterparty''"
definition VerdictExecuted :: VerdictClass where "VerdictExecuted = ''executed''"
definition VerdictBlocked :: VerdictClass where "VerdictBlocked = ''blocked''"
definition VerdictHITLDispatched :: VerdictClass where "VerdictHITLDispatched = ''hitl_dispatched''"
definition VerdictDenied :: VerdictClass where "VerdictDenied = ''denied''"
definition VerdictTimeout :: VerdictClass where "VerdictTimeout = ''timeout''"
definition VerdictErrored :: VerdictClass where "VerdictErrored = ''errored''"
definition VerdictEngineFailure :: VerdictClass where "VerdictEngineFailure = ''engine_failure''"
definition VerdictDeferred :: VerdictClass where "VerdictDeferred = ''deferred''"
definition VerdictNeedsDecision :: VerdictClass where "VerdictNeedsDecision = ''needs_decision''"
definition VerdictExpired :: VerdictClass where "VerdictExpired = ''expired''"
definition VerdictEscalated :: VerdictClass where "VerdictEscalated = ''escalated''"
definition VerdictResolved :: VerdictClass where "VerdictResolved = ''resolved''"
definition VerdictEpochBoundary :: VerdictClass where "VerdictEpochBoundary = ''epoch_boundary''"
definition EffectPlanned :: EffectStatus where "EffectPlanned = ''planned''"
definition EffectDispatched :: EffectStatus where "EffectDispatched = ''dispatched''"
definition EffectConfirmed :: EffectStatus where "EffectConfirmed = ''confirmed''"
definition EffectFailed :: EffectStatus where "EffectFailed = ''failed''"
definition EffectReverted :: EffectStatus where "EffectReverted = ''reverted''"
definition IrreversibilityTwoWay :: IrreversibilityClass where "IrreversibilityTwoWay = ''two_way''"
definition IrreversibilityOneWayRecoverable :: IrreversibilityClass where "IrreversibilityOneWayRecoverable = ''one_way_recoverable''"
definition IrreversibilityOneWayConsequential :: IrreversibilityClass where "IrreversibilityOneWayConsequential = ''one_way_consequential''"
definition IrreversibilityOneWayTerminal :: IrreversibilityClass where "IrreversibilityOneWayTerminal = ''one_way_terminal''"
definition AttestationGateExecuted :: EffectAttestation where "AttestationGateExecuted = ''gate_executed''"
definition AttestationRuntimeClaimed :: EffectAttestation where "AttestationRuntimeClaimed = ''runtime_claimed''"
definition ChainConfirms :: ChainRelation where "ChainConfirms = ''confirms''"
definition ChainSupersedes :: ChainRelation where "ChainSupersedes = ''supersedes''"
definition ChainEpochOpens :: ChainRelation where "ChainEpochOpens = ''epoch_opens''"
definition ChainDuplicates :: ChainRelation where "ChainDuplicates = ''duplicates''"
definition EffectModeNotApplicable :: EffectMode where "EffectModeNotApplicable = ''not_applicable''"
definition EffectModeDispatchedUnconfirmed :: EffectMode where "EffectModeDispatchedUnconfirmed = ''dispatched_unconfirmed''"
definition EffectModeConfirmed :: EffectMode where "EffectModeConfirmed = ''confirmed''"
definition AttestationModeSelfAttested :: AttestationMode where "AttestationModeSelfAttested = ''self_attested''"
definition AttestationModeAnchored :: AttestationMode where "AttestationModeAnchored = ''anchored''"
definition LedgerModeStandalone :: LedgerMode where "LedgerModeStandalone = ''standalone''"
definition LedgerModeChained :: LedgerMode where "LedgerModeChained = ''chained''"
definition LedgerModeAnchored :: LedgerMode where "LedgerModeAnchored = ''anchored''"
definition DomainAction :: Domain where "DomainAction = ''action''"
definition DomainMemory :: Domain where "DomainMemory = ''memory''"
definition DomainReasoning :: Domain where "DomainReasoning = ''reasoning''"
definition ProvenanceGate :: Provenance where "ProvenanceGate = ''gate''"
definition ProvenanceRuntime :: Provenance where "ProvenanceRuntime = ''runtime''"
definition ProvenanceCollector :: Provenance where "ProvenanceCollector = ''collector''"
definition ProvenanceModeContemporaneous :: ProvenanceModeValue where "ProvenanceModeContemporaneous = ''contemporaneous''"
definition ProvenanceModeBackfilled :: ProvenanceModeValue where "ProvenanceModeBackfilled = ''backfilled''"
definition TimeRungSelfAttested :: TimeRung where "TimeRungSelfAttested = ''self_attested''"
definition TimeRungWitnessed :: TimeRung where "TimeRungWitnessed = ''witnessed''"

lemmas [go_consts] =
  SpecVersion_def FormatVersion_def CanonicalizationID_def ContentType_def
  ActionTypeFYI_def ActionTypeDecide_def DecisionAccept_def DecisionReject_def
  DecisionNeedsInput_def DecisionDeferred_def ApproverHuman_def ApproverPolicy_def
  ApproverCounterparty_def VerdictExecuted_def VerdictBlocked_def VerdictHITLDispatched_def
  VerdictDenied_def VerdictTimeout_def VerdictErrored_def VerdictEngineFailure_def
  VerdictDeferred_def VerdictNeedsDecision_def VerdictExpired_def VerdictEscalated_def
  VerdictResolved_def VerdictEpochBoundary_def EffectPlanned_def EffectDispatched_def
  EffectConfirmed_def EffectFailed_def EffectReverted_def IrreversibilityTwoWay_def
  IrreversibilityOneWayRecoverable_def IrreversibilityOneWayConsequential_def IrreversibilityOneWayTerminal_def AttestationGateExecuted_def
  AttestationRuntimeClaimed_def ChainConfirms_def ChainSupersedes_def ChainEpochOpens_def
  ChainDuplicates_def EffectModeNotApplicable_def EffectModeDispatchedUnconfirmed_def EffectModeConfirmed_def
  AttestationModeSelfAttested_def AttestationModeAnchored_def LedgerModeStandalone_def LedgerModeChained_def
  LedgerModeAnchored_def DomainAction_def DomainMemory_def DomainReasoning_def
  ProvenanceGate_def ProvenanceRuntime_def ProvenanceCollector_def ProvenanceModeContemporaneous_def
  ProvenanceModeBackfilled_def TimeRungSelfAttested_def TimeRungWitnessed_def

end
