(* ===== verification/GoText.thy ===== *)
theory GoText
  imports Prelude
begin

text \<open>
  What the program uses of the Go standard library on text: UTF-8 validity
  (\<open>unicode/utf8\<close>), the test \<open>strings.TrimSpace(s) == ""\<close>, and the three anchored
  regular expressions of the sources. Go's \<open>$\<close> without the flag \<open>m\<close> matches at the end
  of the text only, so each expression is a predicate on the whole byte string.
\<close>

section \<open>Bytes\<close>

abbreviation byte :: "char \<Rightarrow> nat" where
  "byte c \<equiv> of_char c"

definition between :: "nat \<Rightarrow> char \<Rightarrow> nat \<Rightarrow> bool" where
  "between a c b \<longleftrightarrow> a \<le> byte c \<and> byte c \<le> b"

lemmas [go_eval] = between_def

section \<open>utf8.ValidString\<close>

text \<open>
  \<open>accept_range a\<close>: the range of the second byte after the leading byte \<open>a\<close> and the
  number of continuation bytes after it. Overlong forms, surrogates and code points above
  U+10FFFF are refused through the range of the second byte.
\<close>

definition accept_range :: "char \<Rightarrow> (nat \<times> nat \<times> nat) option" where
  "accept_range a =
     (if between 0xC2 a 0xDF then Some (0x80, 0xBF, 0)
      else if byte a = 0xE0 then Some (0xA0, 0xBF, 1)
      else if byte a = 0xED then Some (0x80, 0x9F, 1)
      else if between 0xE1 a 0xEF then Some (0x80, 0xBF, 1)
      else if byte a = 0xF0 then Some (0x90, 0xBF, 2)
      else if between 0xF1 a 0xF3 then Some (0x80, 0xBF, 2)
      else if byte a = 0xF4 then Some (0x80, 0x8F, 2)
      else None)"

text \<open>\<open>utf8_seq s\<close>: the input after its first character, when that is well-formed.\<close>

fun utf8_seq :: "string \<Rightarrow> string option" where
  "utf8_seq [] = None"
| "utf8_seq (a # s) =
     (if byte a < 0x80 then Some s
      else (case accept_range a of
          None \<Rightarrow> None
        | Some (lo, hi, n) \<Rightarrow>
            (case s of
               [] \<Rightarrow> None
             | b # t \<Rightarrow>
                 if between lo b hi \<and> n \<le> length t \<and> (\<forall>c \<in> set (take n t). between 0x80 c 0xBF)
                 then Some (drop n t) else None)))"

lemma accept_range_bounds: "accept_range a = Some (lo, hi, n) \<Longrightarrow> 128 \<le> lo"
  by (auto simp: accept_range_def split: if_splits)

lemma utf8_seq_shrinks: "utf8_seq s = Some t \<Longrightarrow> length t < length s"
  by (cases s) (auto split: if_splits list.splits option.splits)

lemma utf8_seq_append: "utf8_seq s = Some t \<Longrightarrow> utf8_seq (s @ u) = Some (t @ u)"
  by (cases s) (auto split: if_splits list.splits option.splits)

function utf8_valid :: "string \<Rightarrow> bool" where
  "utf8_valid s = (s = [] \<or> (case utf8_seq s of None \<Rightarrow> False | Some t \<Rightarrow> utf8_valid t))"
  by pat_completeness auto
termination
  by (relation "measure length") (auto dest: utf8_seq_shrinks)

declare utf8_valid.simps [simp del]

lemma utf8_valid_Nil [simp]: "utf8_valid []"
  by (simp add: utf8_valid.simps)

lemma utf8_valid_Cons:
  "utf8_valid (a # s) = (case utf8_seq (a # s) of None \<Rightarrow> False | Some t \<Rightarrow> utf8_valid t)"
  by (subst utf8_valid.simps) simp

lemma utf8_valid_ascii [simp]: "byte a < 128 \<Longrightarrow> utf8_valid (a # s) = utf8_valid s"
  by (simp add: utf8_valid_Cons)

lemma utf8_valid_all_ascii: "(\<forall>c \<in> set s. byte c < 128) \<Longrightarrow> utf8_valid s"
  by (induction s) auto

lemma utf8_valid_step: "utf8_seq s = Some t \<Longrightarrow> utf8_valid s = utf8_valid t"
  by (cases s) (auto simp: utf8_valid_Cons simp del: utf8_seq.simps(2))

lemma utf8_validE:
  assumes "utf8_valid s" and "s \<noteq> []"
  obtains t where "utf8_seq s = Some t" "utf8_valid t"
  using assms by (auto simp: utf8_valid.simps [of s] split: option.splits)

lemma utf8_valid_append: "utf8_valid s \<Longrightarrow> utf8_valid t \<Longrightarrow> utf8_valid (s @ t)"
proof (induction s rule: utf8_valid.induct)
  case (1 s)
  show ?case
  proof (cases "s = []")
    case True
    with "1.prems" show ?thesis by simp
  next
    case False
    with "1.prems"(1) obtain u where u: "utf8_seq s = Some u" "utf8_valid u"
      by (rule utf8_validE)
    with "1.IH" "1.prems"(2) False have "utf8_valid (u @ t)" by simp
    with utf8_valid_step [OF utf8_seq_append [OF u(1)]] show ?thesis by simp
  qed
qed

text \<open>Splitting at an ASCII character.\<close>

lemma utf8_seq_append_ascii:
  assumes "s \<noteq> []" and a: "byte a < 128" and v: "utf8_seq (s @ a # u) = Some v"
  shows "\<exists>t. utf8_seq s = Some t \<and> v = t @ a # u"
proof -
  obtain b r where s: "s = b # r" using assms(1) by (cases s) auto
  show ?thesis
  proof (cases "byte b < 128")
    case True
    with v s show ?thesis by simp
  next
    case False
    with v s obtain lo hi n where acc: "accept_range b = Some (lo, hi, n)"
      by (auto split: option.splits)
    show ?thesis
    proof (cases r)
      case Nil
      with v s acc False a accept_range_bounds [OF acc] show ?thesis
        by (auto simp: between_def split: if_splits)
    next
      case (Cons c t)
      have "n \<le> length t"
      proof (rule ccontr)
        assume "\<not> n \<le> length t"
        then have "a \<in> set (take n (t @ a # u))"
          by (cases "n - length t") auto
        moreover from v s acc False Cons have "\<forall>d \<in> set (take n (t @ a # u)). between 128 d 191"
          by (auto split: if_splits)
        ultimately have "between 128 a 191" by blast
        with a show False by (simp add: between_def)
      qed
      with v s acc False Cons show ?thesis by (auto split: if_splits)
    qed
  qed
qed

lemma utf8_valid_split_ascii:
  assumes "byte a < 128"
  shows "utf8_valid (s @ a # t) \<longleftrightarrow> utf8_valid s \<and> utf8_valid t"
proof
  show "utf8_valid (s @ a # t) \<Longrightarrow> utf8_valid s \<and> utf8_valid t"
  proof (induction s rule: utf8_valid.induct)
    case (1 s)
    show ?case
    proof (cases "s = []")
      case True
      with "1.prems" assms show ?thesis by simp
    next
      case False
      from "1.prems" obtain v where v: "utf8_seq (s @ a # t) = Some v" "utf8_valid v"
        by (rule utf8_validE) simp
      with False assms obtain w where w: "utf8_seq s = Some w" "v = w @ a # t"
        using utf8_seq_append_ascii [of s a t v] by auto
      with "1.IH" v False have "utf8_valid w \<and> utf8_valid t" by simp
      with utf8_valid_step [OF w(1)] show ?thesis by simp
    qed
  qed
next
  show "utf8_valid s \<and> utf8_valid t \<Longrightarrow> utf8_valid (s @ a # t)"
    using assms by (simp add: utf8_valid_append)
qed

section \<open>strings.TrimSpace\<close>

text \<open>
  The program only ever compares \<open>strings.TrimSpace(s)\<close> with the empty string.
  Dropping white space from the left decides that. The white space characters are those
  of \<open>unicode.IsSpace\<close>, in their UTF-8 form.
\<close>

fun space_rune :: "string \<Rightarrow> string option" where
  \<comment> \<open>the input after a leading white space character, if there is one\<close>
  "space_rune [] = None"
| "space_rune (a # s) =
     (if between 9 a 13 \<or> byte a = 32 then Some s
      else (case s of
          b # t \<Rightarrow>
            if byte a = 0xC2 \<and> (byte b = 0x85 \<or> byte b = 0xA0) then Some t
            else (case t of
                c # u \<Rightarrow>
                  if (byte a = 0xE1 \<and> byte b = 0x9A \<and> byte c = 0x80) \<or>
                     (byte a = 0xE2 \<and> byte b = 0x80 \<and>
                        (between 0x80 c 0x8A \<or> byte c = 0xA8 \<or> byte c = 0xA9 \<or> byte c = 0xAF)) \<or>
                     (byte a = 0xE2 \<and> byte b = 0x81 \<and> byte c = 0x9F) \<or>
                     (byte a = 0xE3 \<and> byte b = 0x80 \<and> byte c = 0x80)
                  then Some u else None
              | [] \<Rightarrow> None)
        | [] \<Rightarrow> None))"

lemma space_rune_shrinks: "space_rune s = Some t \<Longrightarrow> length t < length s"
  by (cases s) (auto split: if_splits list.splits)

function blank :: "string \<Rightarrow> bool" where
  \<comment> \<open>\<open>strings.TrimSpace(s) == ""\<close>\<close>
  "blank s = (s = [] \<or> (case space_rune s of None \<Rightarrow> False | Some t \<Rightarrow> blank t))"
  by pat_completeness auto
termination
  by (relation "measure length") (auto dest: space_rune_shrinks)

declare blank.simps [simp del]

lemma blank_Nil [simp]: "blank []"
  by (simp add: blank.simps)

lemma not_blank_nonempty: "\<not> blank s \<Longrightarrow> s \<noteq> []"
  by auto

lemma blank_Cons [go_eval]:
  "blank (a # s) = (case space_rune (a # s) of None \<Rightarrow> False | Some t \<Rightarrow> blank t)"
  by (subst blank.simps) simp

section \<open>The regular expressions\<close>

definition lower_hex :: "char \<Rightarrow> bool" where
  "lower_hex c \<longleftrightarrow> between 48 c 57 \<or> between 97 c 102"

text \<open>\<open>hexDigestPattern\<close> and \<open>idPattern\<close>: \<open>^[0-9a-f]{64}$\<close>.\<close>

definition hexDigestPattern :: "string \<Rightarrow> bool" where
  "hexDigestPattern s \<longleftrightarrow> length s = 64 \<and> (\<forall>c \<in> set s. lower_hex c)"

text \<open>\<open>extensionNamePattern\<close>: \<open>^[a-z][a-z0-9_]*$\<close>.\<close>

definition extensionNamePattern :: "string \<Rightarrow> bool" where
  "extensionNamePattern s \<longleftrightarrow>
     (case s of [] \<Rightarrow> False
      | c # cs \<Rightarrow> between 97 c 122 \<and> (\<forall>d \<in> set cs. between 97 d 122 \<or> between 48 d 57 \<or> byte d = 95))"

text \<open>\<open>namePattern\<close>: \<open>^[A-Za-z0-9][A-Za-z0-9._-]{0,63}$\<close>.\<close>

definition alnum :: "char \<Rightarrow> bool" where
  "alnum c \<longleftrightarrow> between 65 c 90 \<or> between 97 c 122 \<or> between 48 c 57"

definition namePattern :: "string \<Rightarrow> bool" where
  "namePattern s \<longleftrightarrow>
     (case s of [] \<Rightarrow> False
      | c # cs \<Rightarrow> alnum c \<and> length cs \<le> 63 \<and>
          (\<forall>d \<in> set cs. alnum d \<or> byte d = 46 \<or> byte d = 95 \<or> byte d = 45))"

lemmas [go_eval] = lower_hex_def hexDigestPattern_def extensionNamePattern_def
  alnum_def namePattern_def

lemma lower_hex_ascii: "lower_hex c \<Longrightarrow> byte c < 128"
  by (auto simp: lower_hex_def between_def)

lemma hexDigestPattern_utf8: "hexDigestPattern s \<Longrightarrow> utf8_valid s"
  by (auto simp: hexDigestPattern_def intro!: utf8_valid_all_ascii lower_hex_ascii)

lemma hexDigestPattern_length: "hexDigestPattern s \<Longrightarrow> length s = 64"
  by (simp add: hexDigestPattern_def)

lemma hexDigestPattern_nonempty [simp]: "\<not> hexDigestPattern []"
  by (simp add: hexDigestPattern_def)

lemma namePattern_length: "namePattern s \<Longrightarrow> s \<noteq> [] \<and> length s \<le> 64"
  by (auto simp: namePattern_def split: list.splits)

lemma namePattern_ascii: "namePattern s \<Longrightarrow> c \<in> set s \<Longrightarrow> byte c < 128"
  by (auto simp: namePattern_def alnum_def between_def split: list.splits)

lemma extensionNamePattern_ascii: "extensionNamePattern s \<Longrightarrow> c \<in> set s \<Longrightarrow> byte c < 128"
  by (auto simp: extensionNamePattern_def between_def split: list.splits)

lemma extensionNamePattern_utf8: "extensionNamePattern s \<Longrightarrow> utf8_valid s"
  by (blast intro: utf8_valid_all_ascii extensionNamePattern_ascii)

end
