(* ===== verification/JsonLex.thy ===== *)
theory JsonLex
  imports GoText
begin

text \<open>
  The scanner of \<open>encoding/json\<close> on one scalar: numbers, string literals with their
  escapes, and the three literal names. A scanner takes the input at the first byte of
  the scalar and returns the scanned value with the rest of the input, or \<open>None\<close> where
  the library reports a syntax error or the end of the input.
\<close>

type_synonym 'a scanner = "string \<Rightarrow> ('a \<times> string) option"

definition json_space :: "char \<Rightarrow> bool" where
  "json_space c \<longleftrightarrow> byte c = 32 \<or> byte c = 9 \<or> byte c = 10 \<or> byte c = 13"

definition skip_space :: "string \<Rightarrow> string" where
  "skip_space s = dropWhile json_space s"

lemma skip_space_length: "length (skip_space s) \<le> length s"
  by (simp add: skip_space_def length_dropWhile_le)

lemma skip_space_stop [simp]: "\<not> json_space c \<Longrightarrow> skip_space (c # s) = c # s"
  by (simp add: skip_space_def)

lemma skip_space_Nil [simp]: "skip_space [] = []"
  by (simp add: skip_space_def)

lemma skip_space_utf8: "utf8_valid s \<Longrightarrow> utf8_valid (skip_space s)"
  by (induction s) (auto simp: skip_space_def json_space_def)

section \<open>Numbers\<close>

definition digit :: "char \<Rightarrow> bool" where
  "digit c \<longleftrightarrow> between 48 c 57"

definition lex_int :: "string scanner" where
  "lex_int s = (case s of
       [] \<Rightarrow> None
     | c # cs \<Rightarrow>
         if byte c = 48 then Some ([c], cs)
         else if digit c then Some (takeWhile digit s, dropWhile digit s)
         else None)"

definition lex_frac :: "string scanner" where
  "lex_frac s = (case s of
       [] \<Rightarrow> Some ([], [])
     | c # cs \<Rightarrow>
         if byte c = 46 then
           (if takeWhile digit cs = [] then None
            else Some (c # takeWhile digit cs, dropWhile digit cs))
         else Some ([], s))"

definition lex_sign :: "string \<Rightarrow> string \<times> string" where
  "lex_sign s = (case s of
       [] \<Rightarrow> ([], [])
     | c # cs \<Rightarrow> if byte c = 43 \<or> byte c = 45 then ([c], cs) else ([], s))"

definition lex_exp :: "string scanner" where
  "lex_exp s = (case s of
       [] \<Rightarrow> Some ([], [])
     | c # cs \<Rightarrow>
         if byte c = 101 \<or> byte c = 69 then
           (case lex_sign cs of (g, ds) \<Rightarrow>
              if takeWhile digit ds = [] then None
              else Some (c # g @ takeWhile digit ds, dropWhile digit ds))
         else Some ([], s))"

definition lex_minus :: "string \<Rightarrow> string \<times> string" where
  "lex_minus s = (case s of
       [] \<Rightarrow> ([], [])
     | c # cs \<Rightarrow> if byte c = 45 then ([c], cs) else ([], s))"

definition lex_number :: "string scanner" where
  "lex_number s =
     (case lex_minus s of (m, s1) \<Rightarrow>
        (case lex_int s1 of
           None \<Rightarrow> None
         | Some (i, s2) \<Rightarrow>
             (case lex_frac s2 of
                None \<Rightarrow> None
              | Some (f, s3) \<Rightarrow>
                  (case lex_exp s3 of
                     None \<Rightarrow> None
                   | Some (e, s4) \<Rightarrow> Some (m @ i @ f @ e, s4)))))"

lemmas lex_number_defs = lex_number_def lex_minus_def lex_int_def lex_frac_def lex_exp_def lex_sign_def
lemmas [go_eval] = lex_number_defs digit_def json_space_def skip_space_def

text \<open>A number text is one the scanner accepts as a whole.\<close>

definition number_text :: "string \<Rightarrow> bool" where
  "number_text n \<longleftrightarrow> lex_number n = Some (n, [])"

text \<open>A byte that cannot continue a number.\<close>

definition number_stop :: "string \<Rightarrow> bool" where
  "number_stop r \<longleftrightarrow>
     (case r of [] \<Rightarrow> True
      | c # _ \<Rightarrow> \<not> digit c \<and> byte c \<noteq> 46 \<and> byte c \<noteq> 101 \<and> byte c \<noteq> 69)"

lemma digit_ascii: "digit c \<Longrightarrow> byte c < 128"
  by (simp add: digit_def between_def)

lemma takeWhile_stop:
  "number_stop r \<Longrightarrow> takeWhile digit (takeWhile digit ds @ r) = takeWhile digit ds"
  "number_stop r \<Longrightarrow> dropWhile digit (takeWhile digit ds @ r) = r"
  by (induction ds) (auto simp: number_stop_def split: list.splits)

lemma takeWhile_then_other:
  "c = [] \<or> \<not> digit (hd c) \<Longrightarrow> takeWhile digit (takeWhile digit ds @ c) = takeWhile digit ds"
  "c = [] \<or> \<not> digit (hd c) \<Longrightarrow> dropWhile digit (takeWhile digit ds @ c) = c"
  by (induction ds) (cases c; auto)+

lemma lex_int_sound: "lex_int s = Some (i, r) \<Longrightarrow> s = i @ r \<and> i \<noteq> []"
  by (auto simp: lex_int_def split: list.splits if_splits)

lemma lex_frac_sound: "lex_frac s = Some (f, r) \<Longrightarrow> s = f @ r \<and> (f = [] \<or> byte (hd f) = 46)"
  by (auto simp: lex_frac_def split: list.splits if_splits)

lemma lex_sign_sound: "lex_sign s = (g, r) \<Longrightarrow> s = g @ r"
  by (auto simp: lex_sign_def split: list.splits if_splits)

lemma lex_exp_sound:
  "lex_exp s = Some (e, r) \<Longrightarrow> s = e @ r \<and> (e = [] \<or> byte (hd e) = 101 \<or> byte (hd e) = 69)"
  by (auto simp: lex_exp_def dest!: lex_sign_sound split: list.splits if_splits prod.splits)

lemma lex_minus_sound: "lex_minus s = (m, r) \<Longrightarrow> s = m @ r"
  by (auto simp: lex_minus_def split: list.splits if_splits)

lemma lex_number_sound: "lex_number s = Some (n, r) \<Longrightarrow> s = n @ r \<and> n \<noteq> []"
  by (auto simp: lex_number_def dest!: lex_minus_sound lex_int_sound lex_frac_sound lex_exp_sound
      split: option.splits prod.splits)

lemma lex_int_again:
  "lex_int s = Some (i, r) \<Longrightarrow> u = [] \<or> \<not> digit (hd u) \<Longrightarrow> lex_int (i @ u) = Some (i, u)"
  by (auto simp: lex_int_def takeWhile_then_other dest: set_takeWhileD split: list.splits if_splits)

lemma lex_frac_again:
  "lex_frac s = Some (f, r) \<Longrightarrow> u = [] \<or> (\<not> digit (hd u) \<and> byte (hd u) \<noteq> 46) \<Longrightarrow>
   lex_frac (f @ u) = Some (f, u)"
  by (auto simp: lex_frac_def takeWhile_then_other dest: set_takeWhileD split: list.splits if_splits)

lemma lex_sign_again:
  "lex_sign s = (g, r) \<Longrightarrow> takeWhile digit r \<noteq> [] \<Longrightarrow>
   lex_sign (g @ takeWhile digit r @ u) = (g, takeWhile digit r @ u)"
  by (cases r) (auto simp: lex_sign_def digit_def between_def split: list.splits if_splits)

lemma lex_exp_again:
  assumes "lex_exp s = Some (e, r)" and "number_stop u"
  shows "lex_exp (e @ u) = Some (e, u)"
proof (cases e)
  case Nil
  with assms show ?thesis
    by (auto simp: lex_exp_def number_stop_def split: list.splits)
next
  case (Cons c t)
  with assms(1) obtain g ds where
    c: "byte c = 101 \<or> byte c = 69" and g: "lex_sign (tl s) = (g, ds)" "takeWhile digit ds \<noteq> []"
      "t = g @ takeWhile digit ds"
    by (auto simp: lex_exp_def split: list.splits if_splits prod.splits)
  have "lex_sign (t @ u) = (g, takeWhile digit ds @ u)"
    using lex_sign_again [OF g(1,2), of u] g(3) by simp
  with c g(2,3) Cons takeWhile_stop [OF assms(2), of ds] show ?thesis
    by (auto simp: lex_exp_def)
qed

lemma lex_minus_again:
  "lex_minus s = (m, r) \<Longrightarrow> lex_int r = Some (i, r2) \<Longrightarrow> lex_minus (m @ i @ u) = (m, i @ u)"
  by (auto simp: lex_minus_def lex_int_def split: list.splits if_splits)

lemma lex_number_again:
  assumes "lex_number s = Some (n, r)" and stop: "number_stop u"
  shows "lex_number (n @ u) = Some (n, u)"
proof -
  from assms obtain m s1 i s2 f s3 e where
    m: "lex_minus s = (m, s1)" and i: "lex_int s1 = Some (i, s2)"
    and f: "lex_frac s2 = Some (f, s3)" and e: "lex_exp s3 = Some (e, r)"
    and n: "n = m @ i @ f @ e"
    by (auto simp: lex_number_def split: option.splits prod.splits)
  have ee: "lex_exp (e @ u) = Some (e, u)"
    using e stop by (rule lex_exp_again)
  have "e @ u = [] \<or> (\<not> digit (hd (e @ u)) \<and> byte (hd (e @ u)) \<noteq> 46)"
    using lex_exp_sound [OF e] stop
    by (cases e) (auto simp: number_stop_def digit_def between_def split: list.splits)
  with f have ff: "lex_frac (f @ e @ u) = Some (f, e @ u)" by (rule lex_frac_again)
  have "f @ e @ u = [] \<or> \<not> digit (hd (f @ e @ u))"
    using lex_frac_sound [OF f] lex_exp_sound [OF e] stop
    by (cases f; cases e) (auto simp: number_stop_def digit_def between_def split: list.splits)
  with i have ii: "lex_int (i @ f @ e @ u) = Some (i, f @ e @ u)" by (rule lex_int_again)
  have mm: "lex_minus (m @ i @ f @ e @ u) = (m, i @ f @ e @ u)"
    using m i by (rule lex_minus_again)
  show ?thesis using mm ii ff ee n by (simp add: lex_number_def)
qed

lemma lex_number_text: "lex_number s = Some (n, r) \<Longrightarrow> number_text n"
  using lex_number_again [of s n r "[]"] by (simp add: number_text_def number_stop_def)

lemma number_text_append: "number_text n \<Longrightarrow> number_stop r \<Longrightarrow> lex_number (n @ r) = Some (n, r)"
  unfolding number_text_def by (rule lex_number_again)

lemma number_text_head:
  assumes "number_text n"
  obtains c t where "n = c # t" "digit c \<or> byte c = 45"
  using assms
  by (auto simp: number_text_def lex_number_def lex_minus_def lex_int_def digit_def between_def
      split: list.splits option.splits prod.splits if_splits)

lemma takeWhile_digit_ascii: "c \<in> set (takeWhile digit ds) \<Longrightarrow> byte c < 128"
  by (auto dest: set_takeWhileD intro: digit_ascii)

lemma lex_int_ascii: "lex_int s = Some (i, r) \<Longrightarrow> c \<in> set i \<Longrightarrow> byte c < 128"
  by (auto simp: lex_int_def dest: digit_ascii takeWhile_digit_ascii split: list.splits if_splits)

lemma lex_frac_ascii: "lex_frac s = Some (f, r) \<Longrightarrow> c \<in> set f \<Longrightarrow> byte c < 128"
  by (auto simp: lex_frac_def dest: takeWhile_digit_ascii split: list.splits if_splits)

lemma lex_exp_ascii: "lex_exp s = Some (e, r) \<Longrightarrow> c \<in> set e \<Longrightarrow> byte c < 128"
  by (auto simp: lex_exp_def lex_sign_def dest: digit_ascii takeWhile_digit_ascii split: list.splits if_splits)

lemma lex_minus_ascii: "lex_minus s = (m, r) \<Longrightarrow> c \<in> set m \<Longrightarrow> byte c < 128"
  by (auto simp: lex_minus_def split: list.splits if_splits)

lemma lex_number_ascii: "lex_number s = Some (n, r) \<Longrightarrow> c \<in> set n \<Longrightarrow> byte c < 128"
  by (auto simp: lex_number_def split: option.splits prod.splits
      dest: lex_minus_ascii lex_int_ascii lex_frac_ascii lex_exp_ascii)

lemma number_text_utf8: "number_text n \<Longrightarrow> utf8_valid n"
  by (auto simp: number_text_def intro!: utf8_valid_all_ascii dest: lex_number_ascii)

section \<open>String literals\<close>

text \<open>\<open>utf8.EncodeRune\<close>, for a code point that is not a surrogate.\<close>

definition encode_rune :: "nat \<Rightarrow> string" where
  "encode_rune n =
     (if n < 0x80 then [char_of n]
      else if n < 0x800 then [char_of (0xC0 + n div 64), char_of (0x80 + n mod 64)]
      else if n < 0x10000 then
        [char_of (0xE0 + n div 4096), char_of (0x80 + n div 64 mod 64), char_of (0x80 + n mod 64)]
      else
        [char_of (0xF0 + n div 262144), char_of (0x80 + n div 4096 mod 64),
         char_of (0x80 + n div 64 mod 64), char_of (0x80 + n mod 64)])"

definition surrogate :: "nat \<Rightarrow> bool" where
  "surrogate n \<longleftrightarrow> 0xD800 \<le> n \<and> n \<le> 0xDFFF"

definition hex_digit :: "char \<Rightarrow> nat option" where
  "hex_digit c =
     (if between 48 c 57 then Some (byte c - 48)
      else if between 97 c 102 then Some (byte c - 87)
      else if between 65 c 70 then Some (byte c - 55)
      else None)"

text \<open>Four hexadecimal digits: a UTF-16 code unit.\<close>

definition hex4 :: "nat scanner" where
  "hex4 s = (case s of
       a # b # c # d # r \<Rightarrow>
         (case (hex_digit a, hex_digit b, hex_digit c, hex_digit d) of
            (Some w, Some x, Some y, Some z) \<Rightarrow> Some (4096 * w + 256 * x + 16 * y + z, r)
          | _ \<Rightarrow> None)
     | _ \<Rightarrow> None)"

text \<open>
  \<open>\uXXXX\<close>: a code unit outside the surrogate range stands for itself; a high surrogate
  followed by an escaped low one stands for their pair; any other surrogate is replaced by
  U+FFFD and what follows is read on its own.
\<close>

definition lex_u :: "nat scanner" where
  "lex_u s = (case hex4 s of
       None \<Rightarrow> None
     | Some (n, r) \<Rightarrow>
         if \<not> surrogate n then Some (n, r)
         else (case r of
             a # b # t \<Rightarrow>
               if byte a = 92 \<and> byte b = 117 then
                 (case hex4 t of
                    Some (m, r') \<Rightarrow>
                      if n < 0xDC00 \<and> 0xDC00 \<le> m \<and> m \<le> 0xDFFF
                      then Some (0x10000 + (n - 0xD800) * 1024 + (m - 0xDC00), r')
                      else Some (0xFFFD, r)
                  | None \<Rightarrow> Some (0xFFFD, r))
               else Some (0xFFFD, r)
           | _ \<Rightarrow> Some (0xFFFD, r)))"

definition simple_escape :: "char \<Rightarrow> char option" where
  "simple_escape c =
     (if byte c = 34 \<or> byte c = 92 \<or> byte c = 47 then Some c
      else if byte c = 98 then Some (char_of (8 :: nat))
      else if byte c = 102 then Some (char_of (12 :: nat))
      else if byte c = 110 then Some (char_of (10 :: nat))
      else if byte c = 114 then Some (char_of (13 :: nat))
      else if byte c = 116 then Some (char_of (9 :: nat))
      else None)"

lemma hex4_shrinks: "hex4 s = Some (n, r) \<Longrightarrow> length r < length s"
  by (auto simp: hex4_def split: list.splits option.splits)

lemma lex_u_shrinks: "lex_u s = Some (n, r) \<Longrightarrow> length r < length s"
  by (auto simp: lex_u_def dest!: hex4_shrinks split: option.splits prod.splits if_splits list.splits)

text \<open>The input starts after the opening quote.\<close>

function lex_string :: "string scanner" where
  "lex_string [] = None"
| "lex_string (c # s) =
     (if byte c = 34 then Some ([], s)
      else if byte c = 92 then
        (case s of
           [] \<Rightarrow> None
         | e # t \<Rightarrow>
             if byte e = 117 then
               (case lex_u t of
                  None \<Rightarrow> None
                | Some (n, r) \<Rightarrow>
                    (case lex_string r of None \<Rightarrow> None | Some (x, r') \<Rightarrow> Some (encode_rune n @ x, r')))
             else
               (case simple_escape e of
                  None \<Rightarrow> None
                | Some a \<Rightarrow>
                    (case lex_string t of None \<Rightarrow> None | Some (x, r') \<Rightarrow> Some (a # x, r'))))
      else if byte c < 32 then None
      else (case lex_string s of None \<Rightarrow> None | Some (x, r') \<Rightarrow> Some (c # x, r')))"
  by pat_completeness auto
termination
  by (relation "measure length") (auto dest: lex_u_shrinks)

lemmas [go_eval] = encode_rune_def surrogate_def hex_digit_def hex4_def lex_u_def simple_escape_def

lemma lex_string_shrinks: "lex_string s = Some (x, r) \<Longrightarrow> length r < length s"
proof (induction s arbitrary: x r rule: lex_string.induct)
  case 1
  then show ?case by simp
next
  case (2 c s)
  show ?case
  proof (cases "byte c = 92")
    case False
    with "2.prems" "2.IH"(3) show ?thesis
      by (fastforce split: if_splits option.splits)
  next
    case True
    with "2.prems" obtain e t where s: "s = e # t" by (auto split: list.splits)
    show ?thesis
    proof (cases "byte e = 117")
      case u: True
      with True s "2.prems" obtain n q y where q: "lex_u t = Some (n, q)" "lex_string q = Some (y, r)"
        by (auto split: option.splits)
      with "2.IH"(1) True s u have "length r < length q" by simp
      with lex_u_shrinks [OF q(1)] s show ?thesis by simp
    next
      case False
      with True s "2.prems" obtain a y where q: "simple_escape e = Some a" "lex_string t = Some (y, r)"
        by (auto split: option.splits)
      with "2.IH"(2) True s False have "length r < length t" by simp
      with s show ?thesis by simp
    qed
  qed
qed

text \<open>A scanned string literal is well-formed UTF-8 when the input is.\<close>

lemma hex_digit_bounds: "hex_digit c = Some n \<Longrightarrow> n < 16 \<and> byte c < 128"
  by (auto simp: hex_digit_def between_def split: if_splits)

lemma hex4E:
  assumes "hex4 s = Some (n, r)"
  obtains a b c d where "s = a # b # c # d # r"
    "byte a < 128" "byte b < 128" "byte c < 128" "byte d < 128" "n < 65536"
proof -
  from assms obtain a b c d w x y z where
    s: "s = a # b # c # d # r" "hex_digit a = Some w" "hex_digit b = Some x"
    "hex_digit c = Some y" "hex_digit d = Some z" "n = 4096 * w + 256 * x + 16 * y + z"
    by (auto simp: hex4_def split: list.splits option.splits)
  show ?thesis
    using s s(2-5) [THEN hex_digit_bounds] by (intro that [of a b c d]) auto
qed

lemma hex4_utf8: "hex4 s = Some (n, r) \<Longrightarrow> utf8_valid s \<Longrightarrow> utf8_valid r"
  by (auto elim!: hex4E)

lemma lex_u_scalar: "lex_u s = Some (n, r) \<Longrightarrow> \<not> surrogate n \<and> n < 0x110000"
  by (auto simp: lex_u_def surrogate_def elim!: hex4E split: option.splits prod.splits if_splits list.splits)

lemma lex_u_utf8: "lex_u s = Some (n, r) \<Longrightarrow> utf8_valid s \<Longrightarrow> utf8_valid r"
  by (auto simp: lex_u_def dest!: hex4_utf8 split: option.splits prod.splits if_splits list.splits)

lemma byte_char_of: "(n :: nat) < 256 \<Longrightarrow> byte (char_of n) = n"
  by simp

lemma utf8_three:
  assumes "accept_range a = Some (lo, hi, 1)" "between lo b hi" "between 0x80 c 0xBF"
  shows "utf8_valid [a, b, c]"
proof -
  have "utf8_seq [a, b, c] = Some []" using assms
    by (auto simp: accept_range_def between_def split: if_splits)
  then show ?thesis by (simp add: utf8_valid.simps [of "[a, b, c]"])
qed

lemma utf8_four:
  assumes "accept_range a = Some (lo, hi, 2)" "between lo b hi" "between 0x80 c 0xBF" "between 0x80 d 0xBF"
  shows "utf8_valid [a, b, c, d]"
proof -
  have "utf8_seq [a, b, c, d] = Some []" using assms
    by (auto simp: accept_range_def between_def numeral_2_eq_2 split: if_splits)
  then show ?thesis by (simp add: utf8_valid.simps [of "[a, b, c, d]"])
qed

lemma cont_byte: "(m :: nat) < 64 \<Longrightarrow> between 0x80 (char_of (0x80 + m)) 0xBF"
  by (simp add: between_def)

lemma accept_three:
  fixes a b :: nat
  assumes "a < 16" and "a = 0 \<Longrightarrow> 32 \<le> b" and "a = 13 \<Longrightarrow> b < 32" and "b < 64"
  shows "\<exists>lo hi. accept_range (char_of (0xE0 + a)) = Some (lo, hi, 1) \<and>
    between lo (char_of (0x80 + b)) hi"
  using assms by (auto simp: accept_range_def between_def byte_char_of)

lemma accept_four:
  fixes a b :: nat
  assumes "a < 5" and "a = 0 \<Longrightarrow> 16 \<le> b" and "a = 4 \<Longrightarrow> b < 16" and "b < 64"
  shows "\<exists>lo hi. accept_range (char_of (0xF0 + a)) = Some (lo, hi, 2) \<and>
    between lo (char_of (0x80 + b)) hi"
  using assms by (auto simp: accept_range_def between_def byte_char_of)

lemma div_mod_64: "(n :: nat) div k mod 64 = n div k - 64 * (n div (k * 64))"
  by (simp add: div_mult2_eq minus_mult_div_eq_mod)

lemma encode_rune_utf8:
  assumes "\<not> surrogate n" and "n < 0x110000"
  shows "utf8_valid (encode_rune n)"
proof -
  consider "n < 0x80" | "0x80 \<le> n" "n < 0x800" | "0x800 \<le> n" "n < 0x10000" | "0x10000 \<le> n"
    by linarith
  then show ?thesis
  proof cases
    case 1
    then show ?thesis by (simp add: encode_rune_def)
  next
    case 2
    moreover from 2 have "n div 64 < 32" "2 \<le> n div 64" by auto
    ultimately show ?thesis
      by (simp add: encode_rune_def utf8_valid_Cons accept_range_def between_def)
  next
    case 3
    have m: "n div 64 mod 64 = n div 64 - 64 * (n div 4096)"
      using div_mod_64 [of n 64] by simp
    have "n div 4096 < 16" using 3 by simp
    moreover have "n div 4096 = 0 \<Longrightarrow> 32 \<le> n div 64 mod 64" using 3 m by simp
    moreover have "n div 64 mod 64 < 32" if t: "n div 4096 = 13"
    proof -
      from t have "n < 57344" by simp
      with assms(1) have "n < 55296" by (simp add: surrogate_def)
      then have "n div 64 < 864" by simp
      with m t show ?thesis by simp
    qed
    ultimately obtain lo hi where
      "accept_range (char_of (0xE0 + n div 4096)) = Some (lo, hi, 1)"
      "between lo (char_of (0x80 + n div 64 mod 64)) hi"
      using accept_three [of "n div 4096" "n div 64 mod 64"] by auto
    then show ?thesis using 3 utf8_three cont_byte [of "n mod 64"]
      by (simp add: encode_rune_def)
  next
    case 4
    have m: "n div 4096 mod 64 = n div 4096 - 64 * (n div 262144)"
      using div_mod_64 [of n 4096] by simp
    have "n div 262144 < 5" using assms(2) by simp
    moreover have "n div 262144 = 0 \<Longrightarrow> 16 \<le> n div 4096 mod 64" using 4 m by simp
    moreover have "n div 4096 mod 64 < 16" if t: "n div 262144 = 4"
    proof -
      from assms(2) have "n div 4096 < 272" by simp
      with m t show ?thesis by simp
    qed
    ultimately obtain lo hi where
      "accept_range (char_of (0xF0 + n div 262144)) = Some (lo, hi, 2)"
      "between lo (char_of (0x80 + n div 4096 mod 64)) hi"
      using accept_four [of "n div 262144" "n div 4096 mod 64"] by auto
    then show ?thesis
      using 4 utf8_four cont_byte [of "n mod 64"] cont_byte [of "n div 64 mod 64"]
      by (simp add: encode_rune_def)
  qed
qed

lemma utf8_seq_prefix:
  assumes "utf8_seq s = Some t" and "byte (hd s) \<ge> 128"
  shows "\<exists>p. s = p @ t \<and> utf8_valid p \<and> p \<noteq> [] \<and> (\<forall>c \<in> set p. byte c \<ge> 128)"
proof -
  from assms obtain a b u lo hi n where s: "s = a # b # u" and acc: "accept_range a = Some (lo, hi, n)"
    and b: "between lo b hi" and n: "n \<le> length u" and c: "\<forall>c \<in> set (take n u). between 0x80 c 0xBF"
    and t: "t = drop n u"
    by (cases s) (auto split: if_splits option.splits list.splits)
  let ?p = "a # b # take n u"
  have a: "byte a \<ge> 128" using assms(2) s by simp
  have "utf8_seq ?p = Some []" using acc b n c a by simp
  then have "utf8_valid ?p" by (simp add: utf8_valid.simps [of ?p])
  moreover have "\<forall>d \<in> set ?p. byte d \<ge> 128"
    using a b c accept_range_bounds [OF acc] by (auto simp: between_def)
  moreover have "s = ?p @ t" using s t by simp
  ultimately show ?thesis by blast
qed

lemma lex_string_pass:
  "\<forall>c \<in> set p. byte c \<ge> 128 \<Longrightarrow>
   lex_string (p @ t) = (case lex_string t of None \<Rightarrow> None | Some (x, r) \<Rightarrow> Some (p @ x, r))"
  by (induction p) (auto split: option.splits)

declare lex_string.simps(2) [simp del]

lemma lex_string_utf8:
  "lex_string s = Some (x, r) \<Longrightarrow> utf8_valid s \<Longrightarrow> utf8_valid x \<and> utf8_valid r"
proof (induction s arbitrary: x r rule: length_induct)
  case (1 s)
  then obtain c t where s: "s = c # t" by (cases s) auto
  note IH = "1.IH" [rule_format]
  note lex = "1.prems"(1) [unfolded s lex_string.simps(2)]
  show ?case
  proof (cases "byte c \<ge> 128")
    case True
    obtain u where u: "utf8_seq s = Some u" "utf8_valid u"
      using "1.prems"(2) s by (auto elim: utf8_validE)
    obtain p where p: "s = p @ u" "utf8_valid p" "p \<noteq> []" "\<forall>c \<in> set p. byte c \<ge> 128"
      using utf8_seq_prefix [OF u(1)] True s by auto
    with "1.prems"(1) lex_string_pass [OF p(4), of u] obtain y where
      y: "lex_string u = Some (y, r)" "x = p @ y"
      by (auto split: option.splits)
    with IH [OF _ y(1) u(2)] p show ?thesis by (auto intro: utf8_valid_append)
  next
    case asc: False
    with "1.prems"(2) s have t: "utf8_valid t" by simp
    consider "byte c = 34" | "byte c = 92" | "byte c \<noteq> 34" "byte c \<noteq> 92" by blast
    then show ?thesis
    proof cases
      case 1
      with lex t show ?thesis by simp
    next
      case 3
      with lex obtain y where "lex_string t = Some (y, r)" "x = c # y"
        by (auto split: if_splits option.splits)
      with IH [of t] s t asc show ?thesis by auto
    next
      case 2
      with lex obtain e w where w: "t = e # w" by (auto split: list.splits)
      show ?thesis
      proof (cases "byte e = 117")
        case True
        with 2 lex w obtain n q y where q: "lex_u w = Some (n, q)" "lex_string q = Some (y, r)"
          "x = encode_rune n @ y" by (auto split: option.splits)
        have "utf8_valid w" using t w True by simp
        with q(1) have "utf8_valid q" by (rule lex_u_utf8)
        moreover have "length q < length s" using lex_u_shrinks [OF q(1)] s w by simp
        ultimately show ?thesis
          using IH [OF _ q(2)] lex_u_scalar [OF q(1)] q(3)
          by (auto intro!: utf8_valid_append encode_rune_utf8)
      next
        case False
        with 2 lex w obtain a y where q: "simple_escape e = Some a" "lex_string w = Some (y, r)"
          "x = a # y" by (auto split: option.splits)
        then have "byte a < 128" "byte e < 128"
          by (auto simp: simple_escape_def split: if_splits)
        with q w t s IH [OF _ q(2)] show ?thesis by auto
      qed
    qed
  qed
qed

section \<open>Printing a string literal\<close>

text \<open>
  The text of a string literal as the canonical encoders write it: the quote, the reverse
  solidus and control characters are escaped, every other byte stands for itself.
\<close>

definition hex_char :: "nat \<Rightarrow> char" where
  "hex_char n = char_of (if n < 10 then 48 + n else 87 + n)"

definition print_char :: "char \<Rightarrow> string" where
  "print_char c =
     (if byte c = 34 \<or> byte c = 92 then [CHR 0x5C, c]
      else if byte c < 32 then CHR 0x5C # ''u00'' @ [hex_char (byte c div 16), hex_char (byte c mod 16)]
      else [c])"

definition print_string :: "string \<Rightarrow> string" where
  "print_string s = CHR 0x22 # concat (map print_char s) @ [CHR 0x22]"

lemma hex_digit_hex_char: "n < 16 \<Longrightarrow> hex_digit (hex_char n) = Some n"
  by (auto simp: hex_digit_def hex_char_def between_def)

lemma lex_string_print_char:
  "lex_string (print_char c @ t) =
     (case lex_string t of None \<Rightarrow> None | Some (x, r) \<Rightarrow> Some (c # x, r))"
proof -
  consider "byte c = 34 \<or> byte c = 92" | "byte c < 32" | "byte c \<ge> 32" "byte c \<noteq> 34" "byte c \<noteq> 92"
    by linarith
  then show ?thesis
  proof cases
    case 1
    then show ?thesis
      by (auto simp: print_char_def lex_string.simps(2) simple_escape_def split: option.splits)
  next
    case 2
    then have "byte c div 16 < 16" "byte c mod 16 < 16" by simp_all
    moreover have "hex_digit CHR ''0'' = Some 0" by (simp add: hex_digit_def between_def)
    ultimately have
      "lex_u (''00'' @ [hex_char (byte c div 16), hex_char (byte c mod 16)] @ t) = Some (byte c, t)"
      using 2 by (simp add: lex_u_def hex4_def hex_digit_hex_char surrogate_def mult.commute)
    with 2 show ?thesis
      by (auto simp: print_char_def lex_string.simps(2) encode_rune_def split: option.splits)
  next
    case 3
    then show ?thesis
      by (auto simp: print_char_def lex_string.simps(2) split: option.splits)
  qed
qed

lemma lex_string_print: "lex_string (concat (map print_char s) @ CHR 0x22 # t) = Some (s, t)"
  by (induction s) (auto simp: lex_string.simps(2) lex_string_print_char)

end
