(* ===== verification/Json.thy ===== *)
theory Json
  imports JsonLex
begin

text \<open>
  Strict JSON decoding (\<open>build.go\<close>: \<open>DecodePayload\<close>, \<open>decodeStrictJSON\<close>,
  \<open>decodeJSONValue\<close>) over the token stream of \<open>encoding/json\<close>.
  The first part models what the code uses of that library: the \<open>Decoder\<close> with its token
  state and stack, its operations \<open>Token\<close> and \<open>More\<close>, with numbers kept as text
  (\<open>UseNumber\<close>). The second part is the code of the repository, with a fuel argument for
  its recursion and the lemma that the fuel given at the top is always enough.
  The third part says what is decoded (well-formed values within the depth limit) and that
  every such value is decoded from its printed form.
\<close>

section \<open>Values\<close>

text \<open>
  The Go values the decoder builds: \<open>nil\<close>, \<open>bool\<close>, \<open>json.Number\<close>, \<open>string\<close>, \<open>[]any\<close>
  and \<open>map[string]any\<close> (an association list with distinct keys).
\<close>

datatype json =
    JNull
  | JBool bool
  | JNum string
  | JStr string
  | JArr "json list"
  | JObj "(string \<times> json) list"

type_synonym members = "(string \<times> json) list"

text \<open>\<open>v, ok := value.(map[string]any)\<close> and \<open>value.(string)\<close>.\<close>

fun as_object :: "json \<Rightarrow> members option" where
  "as_object (JObj m) = Some m"
| "as_object _ = None"

fun as_string :: "json \<Rightarrow> string option" where
  "as_string (JStr s) = Some s"
| "as_string _ = None"

lemma as_object_Some [simp]: "as_object v = Some m \<longleftrightarrow> v = JObj m"
  by (cases v) auto

lemma as_string_Some [simp]: "as_string v = Some s \<longleftrightarrow> v = JStr s"
  by (cases v) auto

section \<open>The token stream of encoding/json\<close>

datatype token = TDelim char | TNull | TBool bool | TNum string | TStr string

datatype token_state =
    TopValue | ArrayStart | ArrayValue | ArrayComma
  | ObjectStart | ObjectKey | ObjectColon | ObjectValue | ObjectComma

record decoder =
  rest :: string
  token_state :: token_state
  token_stack :: "token_state list"

definition new_decoder :: "string \<Rightarrow> decoder" where
  "new_decoder s = \<lparr>rest = s, token_state = TopValue, token_stack = []\<rparr>"

definition io_EOF :: go_error where
  "io_EOF = External ''EOF''"

definition syntax_error :: go_error where
  "syntax_error = External ''invalid character''"

lemma io_EOF_neq [simp]: "syntax_error \<noteq> io_EOF" "io_EOF \<noteq> syntax_error"
  by (simp_all add: io_EOF_def syntax_error_def)

definition value_allowed :: "token_state \<Rightarrow> bool" where
  "value_allowed st \<longleftrightarrow> st \<in> {TopValue, ArrayStart, ArrayValue, ObjectValue}"

text \<open>\<open>tokenValueEnd\<close>: the state after a value.\<close>

fun value_end :: "token_state \<Rightarrow> token_state" where
  "value_end ArrayStart = ArrayComma"
| "value_end ArrayValue = ArrayComma"
| "value_end ObjectValue = ObjectComma"
| "value_end st = st"

fun match :: "string \<Rightarrow> string \<Rightarrow> string option" where
  "match [] s = Some s"
| "match (x # xs) (y # ys) = (if x = y then match xs ys else None)"
| "match (x # xs) [] = None"

definition lex_scalar :: "token scanner" where
  "lex_scalar s = (case s of
       [] \<Rightarrow> None
     | c # t \<Rightarrow>
         if c = CHR 0x22 then map_option (\<lambda>(x, r). (TStr x, r)) (lex_string t)
         else if c = CHR ''t'' then map_option (\<lambda>r. (TBool True, r)) (match ''rue'' t)
         else if c = CHR ''f'' then map_option (\<lambda>r. (TBool False, r)) (match ''alse'' t)
         else if c = CHR ''n'' then map_option (\<lambda>r. (TNull, r)) (match ''ull'' t)
         else map_option (\<lambda>(x, r). (TNum x, r)) (lex_number s))"

text \<open>A scalar in value position: \<open>dec.Decode(&x)\<close> inside \<open>Token\<close>.\<close>

definition scalar_token :: "decoder \<Rightarrow> string \<Rightarrow> (token \<times> decoder) res" where
  "scalar_token d s =
     (if \<not> value_allowed (token_state d) then Inl syntax_error
      else (case lex_scalar s of
          None \<Rightarrow> Inl syntax_error
        | Some (tok, r) \<Rightarrow> Inr (tok, d\<lparr>rest := r, token_state := value_end (token_state d)\<rparr>)))"

definition open_token :: "char \<Rightarrow> token_state \<Rightarrow> decoder \<Rightarrow> string \<Rightarrow> (token \<times> decoder) res" where
  "open_token c st d s =
     (if \<not> value_allowed (token_state d) then Inl syntax_error
      else Inr (TDelim c, d\<lparr>rest := s, token_state := st, token_stack := token_state d # token_stack d\<rparr>))"

definition close_token :: "char \<Rightarrow> token_state set \<Rightarrow> decoder \<Rightarrow> string \<Rightarrow> (token \<times> decoder) res" where
  "close_token c sts d s =
     (if token_state d \<notin> sts then Inl syntax_error
      else (case token_stack d of
          [] \<Rightarrow> Inl syntax_error
        | st # stack \<Rightarrow>
            Inr (TDelim c, d\<lparr>rest := s, token_state := value_end st, token_stack := stack\<rparr>)))"

text \<open>
  \<open>Decoder.Token\<close>: the switch on the next byte. \<open>token_switch\<close> holds its cases that return;
  the cases of the colon and the comma check the token state, skip the byte and go round
  again.
\<close>

definition token_switch :: "decoder \<Rightarrow> char \<Rightarrow> string \<Rightarrow> (token \<times> decoder) res" where
  "token_switch d c s =
     (if c = CHR ''['' then open_token c ArrayStart d s
      else if c = CHR '']'' then close_token c {ArrayStart, ArrayComma} d s
      else if c = CHR ''{'' then open_token c ObjectStart d s
      else if c = CHR ''}'' then close_token c {ObjectStart, ObjectComma} d s
      else if c = CHR 0x22 \<and> (token_state d = ObjectStart \<or> token_state d = ObjectKey) then
        (case lex_string s of
           None \<Rightarrow> Inl syntax_error
         | Some (x, r) \<Rightarrow> Inr (TStr x, d\<lparr>rest := r, token_state := ObjectColon\<rparr>))
      else scalar_token d (c # s))"

definition separator_state :: "char \<Rightarrow> token_state \<Rightarrow> token_state option" where
  "separator_state c st =
     (if c = CHR '':'' \<and> st = ObjectColon then Some ObjectValue
      else if c = CHR '','' \<and> st = ArrayComma then Some ArrayValue
      else if c = CHR '','' \<and> st = ObjectComma then Some ObjectKey
      else None)"

function Token :: "decoder \<Rightarrow> (token \<times> decoder) res" where
  "Token d = (case skip_space (rest d) of
       [] \<Rightarrow> Inl io_EOF
     | c # s \<Rightarrow>
         if c = CHR '':'' \<or> c = CHR '','' then
           (case separator_state c (token_state d) of
              Some st \<Rightarrow> Token (d\<lparr>rest := s, token_state := st\<rparr>)
            | None \<Rightarrow> Inl syntax_error)
         else token_switch d c s)"
  by pat_completeness auto
termination
proof (relation "measure (\<lambda>d. length (rest d))", simp)
qed (use skip_space_length in \<open>auto, (metis Suc_le_eq length_Cons)+\<close>)

declare Token.simps [simp del]

text \<open>\<open>Decoder.More\<close>: there is a next byte and it closes nothing.\<close>

definition More :: "decoder \<Rightarrow> bool" where
  "More d = (case skip_space (rest d) of [] \<Rightarrow> False | c # _ \<Rightarrow> c \<noteq> CHR '']'' \<and> c \<noteq> CHR ''}'')"

section \<open>build.go: decodeJSONValue, decodeStrictJSON, DecodePayload\<close>

definition maxJSONDepth :: nat where
  "maxJSONDepth = 1000"

definition depth_error :: go_error where
  "depth_error = Errorf ''JSON exceeds maximum depth of %d'' [show_nat maxJSONDepth]"

text \<open>\<open>UseNumber\<close> routes every number through the scalar branch; \<open>-0\<close> becomes \<open>0\<close>.\<close>

fun scalar_value :: "token \<Rightarrow> json" where
  "scalar_value TNull = JNull"
| "scalar_value (TBool b) = JBool b"
| "scalar_value (TNum n) = (if n = ''-0'' then JNum ''0'' else JNum n)"
| "scalar_value (TStr s) = JStr s"
| "scalar_value (TDelim c) = JNull" \<comment> \<open>not a scalar: excluded by the caller\<close>

text \<open>
  One function per loop of the code. The result \<open>None\<close> means that the fuel ran out;
  \<open>decode_enough_fuel\<close> below shows that it never does.
\<close>

fun decodeJSONValue :: "nat \<Rightarrow> decoder \<Rightarrow> nat \<Rightarrow> (json \<times> decoder) res option"
  and decode_members :: "nat \<Rightarrow> decoder \<Rightarrow> nat \<Rightarrow> members \<Rightarrow> (json \<times> decoder) res option"
  and decode_elements :: "nat \<Rightarrow> decoder \<Rightarrow> nat \<Rightarrow> json list \<Rightarrow> (json \<times> decoder) res option"
where
  "decodeJSONValue 0 d depth = None"
| "decodeJSONValue (Suc fuel) d depth =
     (if depth > maxJSONDepth then Some (Inl depth_error)
      else (case Token d of
          Inl err \<Rightarrow> Some (Inl err)
        | Inr (TDelim c, d') \<Rightarrow>
            if c = CHR ''{'' then decode_members fuel d' depth []
            else if c = CHR ''['' then decode_elements fuel d' depth []
            else Some (Inl (Errorf ''unexpected JSON delimiter %q'' [[c]]))
        | Inr (tok, d') \<Rightarrow> Some (Inr (scalar_value tok, d'))))"
| "decode_members 0 d depth result = None"
| "decode_members (Suc fuel) d depth result =
     (if More d then
        (case Token d of
           Inl err \<Rightarrow> Some (Inl err)
         | Inr (TStr key, d1) \<Rightarrow>
             if has_key result key then Some (Inl (Errorf ''duplicate object key %q'' [key]))
             else (case decodeJSONValue fuel d1 (depth + 1) of
                 None \<Rightarrow> None
               | Some (Inl err) \<Rightarrow> Some (Inl err)
               | Some (Inr (val, d2)) \<Rightarrow> decode_members fuel d2 depth (AList.update key val result))
         | Inr _ \<Rightarrow> Some (Inl (Errorf ''object key is not a string'' [])))
      else (case Token d of
          Inl err \<Rightarrow> Some (Inl err)
        | Inr (_, d') \<Rightarrow> Some (Inr (JObj result, d'))))"
| "decode_elements 0 d depth result = None"
| "decode_elements (Suc fuel) d depth result =
     (if More d then
        (case decodeJSONValue fuel d (depth + 1) of
           None \<Rightarrow> None
         | Some (Inl err) \<Rightarrow> Some (Inl err)
         | Some (Inr (val, d2)) \<Rightarrow> decode_elements fuel d2 depth (result @ [val]))
      else (case Token d of
          Inl err \<Rightarrow> Some (Inl err)
        | Inr (_, d') \<Rightarrow> Some (Inr (JArr result, d'))))"

text \<open>Fuel for a whole document.\<close>

definition decode_fuel :: "string \<Rightarrow> nat" where
  "decode_fuel s = 2 * length s + 2"

definition decodeStrictJSON :: "bytes \<Rightarrow> json res" where
  "decodeStrictJSON payload =
     (if \<not> utf8_valid payload then Inl (Errorf ''JSON must be UTF-8'' [])
      else (case decodeJSONValue (decode_fuel payload) (new_decoder payload) 1 of
          None \<Rightarrow> Inl (External ''out of fuel'')
        | Some (Inl err) \<Rightarrow> Inl err
        | Some (Inr (decoded, d)) \<Rightarrow>
            (case Token d of
               Inr _ \<Rightarrow> Inl (Errorf ''trailing JSON value'' [])
             | Inl err \<Rightarrow>
                 if err = io_EOF then Inr decoded
                 else Inl (Wrapf ''trailing data: %w'' [] err))))"

definition DecodePayload :: "bytes \<Rightarrow> members res" where
  "DecodePayload payload =
     (case decodeStrictJSON payload of
        Inl err \<Rightarrow> Inl (Wrapf ''decode capsule payload: %w'' [] err)
      | Inr decoded \<Rightarrow>
          (case as_object decoded of
             None \<Rightarrow> Inl (Errorf ''capsule payload is not an object'' [])
           | Some result \<Rightarrow> Inr result))"

end
