(* ===== verification/EmitModel.thy ===== *)
theory EmitModel
  imports Constants Json
begin

text \<open>
  The data of \<open>model.go\<close> (one record per struct, a nil pointer or slice is \<open>None\<close>), time
  values, caller-owned JSON values, and the record of functions the program imports from
  the Agent Action Capsule module, which is not part of the repository.
\<close>

section \<open>Values the program receives\<close>

text \<open>
  \<open>time.Time\<close>: nanoseconds since the zero time (January 1 of year 1, UTC). The program
  only reads the instant, never the location.
\<close>

type_synonym time = int

text \<open>
  A caller-owned value of static type \<open>any\<close>, as far as the program looks at it: whether
  it is the nil interface, its reflect kind and whether a value of a nillable kind is nil,
  and what \<open>jsonv2.Marshal\<close> makes of it (bytes or an error). A value of a type with its own
  \<open>MarshalJSON\<close> can marshal to anything, so the outcome is part of the value.
\<close>

datatype reflect_kind = MapKind | PointerKind | SliceKind | OtherKind

datatype go_any =
    NilInterface
  | GoValue reflect_kind bool "bytes res" \<comment> \<open>kind, \<open>IsNil()\<close>, \<open>jsonv2.Marshal\<close>\<close>

fun jsonv2_Marshal :: "go_any \<Rightarrow> bytes res" where
  "jsonv2_Marshal NilInterface = Inr ''null''"
| "jsonv2_Marshal (GoValue k n out) = out"

section \<open>model.go\<close>

record Reference =
  Reference_Type :: string
  Reference_DigestAlg :: string
  Reference_Digest :: string
  Reference_CitationPurpose :: string
  Reference_LogCoordinates :: "go_any option" \<comment> \<open>\<open>None\<close>: the nil map\<close>

record Extension =
  Extension_Name :: string
  Extension_Value :: bytes

record ProvenanceMode =
  ProvenanceMode_Mode :: ProvenanceModeValue
  ProvenanceMode_SourceRef :: "Reference option"
  ProvenanceMode_SourceAssertedAt :: string
  ProvenanceMode_ImportBatch :: string
  ProvenanceMode_ImportedAt :: string
  ProvenanceMode_TimeRung :: TimeRung

record Model =
  Model_Provider :: string
  Model_ModelID :: string

record ComputeAttestation =
  Compute_AgentInputDigest :: string
  Compute_AgentOutputDigest :: string
  Compute_Runtime :: string

record digestReference =
  digestReference_Type :: string
  digestReference_DigestAlg :: string
  digestReference_Digest :: string
  digestReference_Slot :: string

record computeAttestation =
  CarriedArtifact :: "digestReference option"
  CarriedInputDigest :: string
  ComposedMembers :: "digestReference list"

record Disposition =
  Disposition_Decision :: Decision
  Disposition_Approver :: Approver
  Disposition_HumanDisposed :: bool
  Disposition_VerdictClass :: VerdictClass
  Disposition_ReasonDigest :: string

record Effect =
  Effect_Type :: string
  Effect_Status :: EffectStatus
  Effect_IrreversibilityClass :: IrreversibilityClass
  Effect_EffectAttestation :: EffectAttestation
  Effect_RequestDigest :: string
  Effect_ResponseDigest :: string
  Effect_ExternalRef :: string

record Chain =
  Chain_ParentCapsuleID :: string
  Chain_Relation :: ChainRelation

text \<open>
  \<open>Input\<close>. The Go struct has two fields that differ in case only: \<open>Compute\<close>, set by
  callers, and \<open>compute\<close>, set by the construction functions; the latter is \<open>Input_binding\<close>.
\<close>

record Input =
  Input_ActionID :: string
  Input_ActionType :: ActionType
  Input_Operator :: string
  Input_Developer :: string
  Input_Timestamp :: time
  Input_EpochID :: string
  Input_Domain :: Domain
  Input_Provenance :: Provenance
  Input_Disposition :: "Disposition option"
  Input_Effect :: "Effect option"
  Input_Chain :: "Chain option"
  Input_References :: "Reference list option"
  Input_Model :: "Model option"
  Input_Compute :: "ComputeAttestation option"
  Input_binding :: "computeAttestation option"
  Input_ProvenanceMode :: "ProvenanceMode option"
  Input_Extensions :: "Extension list"
  Input_specVersion :: string

record BuiltPayload =
  Built_CapsuleID :: string
  Built_Value :: members
  Built_JSON :: bytes

record Result =
  Result_CapsuleID :: string
  Result_Payload :: bytes
  Result_Envelope :: bytes

section \<open>The imported AAC module\<close>

text \<open>Registries: for each registry name its known values.\<close>

type_synonym registries = "(string \<times> string list) list"

record verification =
  Verification_OK :: bool
  Verification_CapsuleID :: "string option"
  Verification_Findings :: "finding list"

record envelope_verification =
  Envelope_OK :: bool
  Envelope_PublicKey :: bytes
  Envelope_Findings :: "finding list"

text \<open>
  The functions of \<open>agent-action-capsule/go\<close> the program calls: \<open>canonical.ComputeCapsuleID\<close>,
  \<open>canonical.JCS\<close>, \<open>canonical.JSONDigest\<close>, \<open>canonical.IsFloat\<close>, \<open>canonical.IsUnsafeInt\<close>,
  \<open>verify.Verify\<close> (without receipts) and \<open>envelope.Verify\<close>.
\<close>

record aac =
  ComputeCapsuleID :: "members \<Rightarrow> string res"
  JCS :: "json \<Rightarrow> bytes res"
  JSONDigest :: "json \<Rightarrow> string res"
  IsFloat :: "string \<Rightarrow> bool"
  IsUnsafeInt :: "string \<Rightarrow> bool"
  verify_Verify :: "members \<Rightarrow> registries \<Rightarrow> verification"
  envelope_Verify :: "string \<Rightarrow> bytes \<Rightarrow> envelope_verification"

end
