(* ===== verification/Validate.thy ===== *)
theory Validate
  imports EmitModel
begin

text \<open>
  Input validation (\<open>build.go\<close>: \<open>validateInput\<close> and the functions it calls). A validator
  returns \<open>None\<close> for the nil error. Two of them range over a Go map: they take the
  iteration order as an argument, and what they accept does not depend on it.
  The contracts are stated as tables (which evidence an effect of each status must,
  may or must not carry; which companions each provenance mode has) and as predicates.
\<close>

section \<open>Disposition\<close>

definition validateDisposition :: "Disposition \<Rightarrow> go_error option" where
  "validateDisposition d =
     (if Disposition_Decision d = '''' then Some (Errorf ''disposition decision is required'' [])
      else if Disposition_Approver d \<noteq> ApproverHuman \<and> Disposition_Approver d \<noteq> ApproverPolicy \<and>
              Disposition_Approver d \<noteq> ApproverCounterparty
      then Some (Errorf ''disposition approver must be %q, %q, or %q''
                   [ApproverHuman, ApproverPolicy, ApproverCounterparty])
      else if Disposition_HumanDisposed d \<and> Disposition_Approver d \<noteq> ApproverHuman
      then Some (Errorf ''human-disposed decision requires human approver'' [])
      else if Disposition_ReasonDigest d \<noteq> '''' \<and> \<not> hexDigestPattern (Disposition_ReasonDigest d)
      then Some (Errorf ''disposition reason digest must be 64 lowercase hex characters'' [])
      else None)"

section \<open>Effect\<close>

definition effect_digests :: "Effect \<Rightarrow> (string \<times> string) list" where
  "effect_digests e = [(''request'', Effect_RequestDigest e), (''response'', Effect_ResponseDigest e)]"

definition validateEffect :: "range_order \<Rightarrow> Effect \<Rightarrow> go_error option" where
  "validateEffect rng e =
     (if blank (Effect_Type e) then Some (Errorf ''effect type is required'' [])
      else if Effect_Status e \<notin> {EffectPlanned, EffectDispatched, EffectConfirmed, EffectFailed, EffectReverted}
      then Some (Errorf ''unsupported effect status %q'' [Effect_Status e])
      else if Effect_IrreversibilityClass e = ''''
      then Some (Errorf ''effect irreversibility class is required'' [])
      else or_else
        (first_err
           (\<lambda>name. case map_of (effect_digests e) name of
                None \<Rightarrow> None
              | Some digest \<Rightarrow>
                  err_if (digest \<noteq> '''' \<and> \<not> hexDigestPattern digest)
                    (Errorf ''effect %s digest must be 64 lowercase hex characters'' [name]))
           (rng ''validateEffect'' (keys (effect_digests e))))
        (if Effect_Status e = EffectPlanned then
           (if Effect_RequestDigest e \<noteq> '''' \<or> Effect_ResponseDigest e \<noteq> ''''
            then Some (Errorf ''planned effect must not carry request or response digests'' [])
            else if Effect_EffectAttestation e \<noteq> ''''
            then Some (Errorf ''planned effect must not carry effect attestation'' [])
            else None)
         else if Effect_Status e = EffectDispatched then
           (if Effect_ResponseDigest e \<noteq> ''''
            then Some (Errorf ''dispatched effect must not carry a response digest'' [])
            else if Effect_EffectAttestation e = ''''
            then Some (Errorf ''dispatched effect requires effect attestation'' [])
            else None)
         else if Effect_Status e = EffectConfirmed then
           (if Effect_ResponseDigest e = ''''
            then Some (Errorf ''confirmed effect requires a response digest'' [])
            else if Effect_EffectAttestation e = ''''
            then Some (Errorf ''confirmed effect requires effect attestation'' [])
            else None)
         else
           (if Effect_EffectAttestation e = ''''
            then Some (Errorf ''%s effect requires effect attestation'' [Effect_Status e])
            else None)))"

section \<open>Model and compute attestation\<close>

definition hasComputeAttestation :: "ComputeAttestation option \<Rightarrow> bool" where
  "hasComputeAttestation compute = (case compute of
       None \<Rightarrow> False
     | Some c \<Rightarrow> Compute_AgentInputDigest c \<noteq> '''' \<or> Compute_AgentOutputDigest c \<noteq> '''' \<or>
         Compute_Runtime c \<noteq> '''')"

definition hasAuthoredDigests :: "ComputeAttestation option \<Rightarrow> bool" where
  "hasAuthoredDigests compute = (case compute of
       None \<Rightarrow> False
     | Some c \<Rightarrow> Compute_AgentInputDigest c \<noteq> '''' \<or> Compute_AgentOutputDigest c \<noteq> '''')"

definition validateAttestation :: "Model option \<Rightarrow> ComputeAttestation option \<Rightarrow> go_error option" where
  "validateAttestation model compute =
     or_else
       (case model of
          None \<Rightarrow> None
        | Some m \<Rightarrow>
            if blank (Model_Provider m) \<and> blank (Model_ModelID m)
            then Some (Errorf ''model must include provider or model id'' [])
            else if Model_Provider m \<noteq> '''' \<and> blank (Model_Provider m)
            then Some (Errorf ''model provider must be non-empty when present'' [])
            else if Model_ModelID m \<noteq> '''' \<and> blank (Model_ModelID m)
            then Some (Errorf ''model id must be non-empty when present'' [])
            else None)
       (case compute of
          None \<Rightarrow> None
        | Some c \<Rightarrow>
            if Compute_Runtime c \<noteq> '''' \<and> blank (Compute_Runtime c)
            then Some (Errorf ''compute attestation runtime must be non-empty when present'' [])
            else if \<not> hasComputeAttestation (Some c)
            then Some (Errorf ''compute attestation must include a digest or runtime'' [])
            else first_err
              (\<lambda>(name, digest).
                 err_if (digest \<noteq> '''' \<and> \<not> hexDigestPattern digest)
                   (Errorf ''compute attestation %s digest must be 64 lowercase hex characters'' [name]))
              [(''agent input'', Compute_AgentInputDigest c), (''agent output'', Compute_AgentOutputDigest c)])"

section \<open>Provenance mode\<close>

definition missing_companions :: "ProvenanceMode \<Rightarrow> string list" where
  "missing_companions mode =
     (if ProvenanceMode_SourceRef mode = None then [''source ref''] else []) @
     (if blank (ProvenanceMode_SourceAssertedAt mode) then [''source asserted at''] else []) @
     (if blank (ProvenanceMode_ImportBatch mode) then [''import batch''] else []) @
     (if blank (ProvenanceMode_ImportedAt mode) then [''imported at''] else [])"

fun join_sep :: "string \<Rightarrow> string list \<Rightarrow> string" where
  "join_sep sep [] = []"
| "join_sep sep [x] = x"
| "join_sep sep (x # xs) = x @ sep @ join_sep sep xs"

definition validateProvenanceMode :: "ProvenanceMode option \<Rightarrow> go_error option" where
  "validateProvenanceMode mode_opt = (case mode_opt of None \<Rightarrow> None | Some mode \<Rightarrow>
     (if ProvenanceMode_Mode mode \<noteq> ProvenanceModeContemporaneous \<and>
         ProvenanceMode_Mode mode \<noteq> ProvenanceModeBackfilled
      then Some (Errorf ''provenance mode must be %q or %q''
                   [ProvenanceModeContemporaneous, ProvenanceModeBackfilled])
      else if (case ProvenanceMode_SourceRef mode of
                 None \<Rightarrow> False
               | Some r \<Rightarrow> Reference_CitationPurpose r \<noteq> '''' \<or> Reference_LogCoordinates r \<noteq> None)
      then Some (Errorf ''provenance mode source ref must not carry citation purpose or log coordinates'' [])
      else or_else
        (if ProvenanceMode_Mode mode = ProvenanceModeBackfilled then
           (if (case ProvenanceMode_SourceRef mode of
                  None \<Rightarrow> False
                | Some r \<Rightarrow> blank (Reference_Type r) \<or> blank (Reference_DigestAlg r) \<or> blank (Reference_Digest r))
            then Some (Errorf ''provenance mode source ref requires type, digest alg, and digest'' [])
            else if missing_companions mode \<noteq> []
            then Some (Errorf ''backfilled provenance mode requires %s''
                         [join_sep '', '' (missing_companions mode)])
            else None)
         else if (ProvenanceMode_SourceRef mode \<noteq> None \<or> ProvenanceMode_SourceAssertedAt mode \<noteq> '''' \<or>
                  ProvenanceMode_ImportBatch mode \<noteq> '''' \<or> ProvenanceMode_ImportedAt mode \<noteq> '''') \<or>
                 ProvenanceMode_TimeRung mode \<noteq> ''''
         then Some (Errorf ''provenance mode source ref, source asserted at, import batch, imported at, and time rung are meaningful only when mode is %q''
                      [ProvenanceModeBackfilled])
         else None)
        (err_if (ProvenanceMode_TimeRung mode \<noteq> '''' \<and> ProvenanceMode_TimeRung mode \<noteq> TimeRungSelfAttested \<and>
                 ProvenanceMode_TimeRung mode \<noteq> TimeRungWitnessed)
           (Errorf ''provenance mode time rung must be %q or %q''
              [TimeRungSelfAttested, TimeRungWitnessed]))))"

section \<open>validateInput\<close>

definition required_fields :: "Input \<Rightarrow> (string \<times> string) list" where
  "required_fields input =
     [(''action id'', Input_ActionID input), (''operator'', Input_Operator input),
      (''developer'', Input_Developer input)]"

definition validateChain :: "Input \<Rightarrow> go_error option" where
  \<comment> \<open>the block of \<open>validateInput\<close> on \<open>input.Chain\<close>\<close>
  "validateChain input = (case Input_Chain input of
       None \<Rightarrow> None
     | Some chain \<Rightarrow>
         if \<not> hexDigestPattern (Chain_ParentCapsuleID chain)
         then Some (Errorf ''chain parent capsule id must be 64 lowercase hex characters'' [])
         else if Chain_Relation chain = '''' then Some (Errorf ''chain relation is required'' [])
         else if Chain_Relation chain = ChainEpochOpens \<and> Input_EpochID input = ''''
         then Some (Errorf ''epoch_opens chain requires epoch id'' [])
         else None)"

definition validateInput :: "range_order \<Rightarrow> Input \<Rightarrow> go_error option" where
  "validateInput rng input =
     or_else
       (first_err
          (\<lambda>name. case map_of (required_fields input) name of
               None \<Rightarrow> None
             | Some val \<Rightarrow> err_if (blank val) (Errorf ''%s is required'' [name]))
          (rng ''validateInput'' (keys (required_fields input))))
     (if Input_Timestamp input = 0 then Some (Errorf ''timestamp is required'' [])
      else if Input_ActionType input \<noteq> ActionTypeFYI \<and> Input_ActionType input \<noteq> ActionTypeDecide
      then Some (Errorf ''action type must be %q or %q'' [ActionTypeFYI, ActionTypeDecide])
      else if Input_ActionType input = ActionTypeDecide \<and> Input_Disposition input = None
      then Some (Errorf ''decide action requires a disposition'' [])
      else
        or_else (case Input_Disposition input of None \<Rightarrow> None | Some d \<Rightarrow> validateDisposition d)
       (or_else (case Input_Effect input of None \<Rightarrow> None | Some e \<Rightarrow> validateEffect rng e)
       (or_else (validateAttestation (Input_Model input) (Input_Compute input))
       (or_else (err_if (Input_binding input \<noteq> None \<and> hasAuthoredDigests (Input_Compute input))
                   (Errorf ''carried or composed binding must not include agent input or output digest'' []))
       (or_else (validateChain input)
          (validateProvenanceMode (Input_ProvenanceMode input)))))))"

lemmas [go_eval] = validateDisposition_def effect_digests_def validateEffect_def
  hasComputeAttestation_def hasAuthoredDigests_def validateAttestation_def missing_companions_def
  validateProvenanceMode_def required_fields_def validateChain_def validateInput_def in_order_def

section \<open>What the validators accept\<close>

subsection \<open>Evidence of an effect\<close>

text \<open>
  The rule table: for each status, whether the request digest, the response digest and the
  attestation are forbidden, optional or required. A status outside the table is refused.
\<close>

datatype presence = Forbidden | Optional | Required

fun present_as :: "presence \<Rightarrow> string \<Rightarrow> bool" where
  "present_as Forbidden s = (s = '''')"
| "present_as Optional s = True"
| "present_as Required s = (s \<noteq> '''')"

definition evidence_table :: "(EffectStatus \<times> presence \<times> presence \<times> presence) list" where
  "evidence_table =
     [(EffectPlanned, Forbidden, Forbidden, Forbidden),
      (EffectDispatched, Optional, Forbidden, Required),
      (EffectConfirmed, Optional, Required, Required),
      (EffectFailed, Optional, Optional, Required),
      (EffectReverted, Optional, Optional, Required)]"

definition digest_field_ok :: "string \<Rightarrow> bool" where
  "digest_field_ok s \<longleftrightarrow> s = '''' \<or> hexDigestPattern s"

definition effect_ok :: "Effect \<Rightarrow> bool" where
  "effect_ok e \<longleftrightarrow>
     \<not> blank (Effect_Type e) \<and> Effect_IrreversibilityClass e \<noteq> '''' \<and>
     digest_field_ok (Effect_RequestDigest e) \<and> digest_field_ok (Effect_ResponseDigest e) \<and>
     (case map_of evidence_table (Effect_Status e) of
        None \<Rightarrow> False
      | Some (req, resp, att) \<Rightarrow>
          present_as req (Effect_RequestDigest e) \<and> present_as resp (Effect_ResponseDigest e) \<and>
          present_as att (Effect_EffectAttestation e))"

lemma validateEffect_None_iff:
  assumes "range_ok rng"
  shows "validateEffect rng e = None \<longleftrightarrow> effect_ok e"
proof (cases "Effect_Status e \<in> {EffectPlanned, EffectDispatched, EffectConfirmed, EffectFailed, EffectReverted}")
  case False
  then show ?thesis by (auto simp: validateEffect_def effect_ok_def evidence_table_def)
next
  case True
  then show ?thesis using assms
    by (elim insertE emptyE)
       (auto simp: validateEffect_def effect_ok_def evidence_table_def first_err_None_iff effect_digests_def
          digest_field_ok_def go_consts)
qed

subsection \<open>Provenance\<close>

text \<open>
  A provenance mode is well-formed when it is contemporaneous and carries no companion, or
  backfilled with all four companions and, if given, a time rung of the closed enumeration.
\<close>

definition source_ref_ok :: "Reference \<Rightarrow> bool" where
  "source_ref_ok r \<longleftrightarrow>
     \<not> blank (Reference_Type r) \<and> \<not> blank (Reference_DigestAlg r) \<and> \<not> blank (Reference_Digest r) \<and>
     Reference_CitationPurpose r = '''' \<and> Reference_LogCoordinates r = None"

definition contemporaneous_ok :: "ProvenanceMode \<Rightarrow> bool" where
  "contemporaneous_ok m \<longleftrightarrow>
     m = \<lparr>ProvenanceMode_Mode = ProvenanceModeContemporaneous, ProvenanceMode_SourceRef = None,
          ProvenanceMode_SourceAssertedAt = '''', ProvenanceMode_ImportBatch = '''',
          ProvenanceMode_ImportedAt = '''', ProvenanceMode_TimeRung = ''''\<rparr>"

definition backfilled_ok :: "ProvenanceMode \<Rightarrow> bool" where
  "backfilled_ok m \<longleftrightarrow>
     ProvenanceMode_Mode m = ProvenanceModeBackfilled \<and>
     (\<exists>r. ProvenanceMode_SourceRef m = Some r \<and> source_ref_ok r) \<and>
     \<not> blank (ProvenanceMode_SourceAssertedAt m) \<and> \<not> blank (ProvenanceMode_ImportBatch m) \<and>
     \<not> blank (ProvenanceMode_ImportedAt m) \<and>
     ProvenanceMode_TimeRung m \<in> {'''', TimeRungSelfAttested, TimeRungWitnessed}"

lemma validateProvenanceMode_None_iff:
  "validateProvenanceMode (Some m) = None \<longleftrightarrow> contemporaneous_ok m \<or> backfilled_ok m"
  by (cases m)
     (auto simp: validateProvenanceMode_def contemporaneous_ok_def backfilled_ok_def source_ref_ok_def
        missing_companions_def go_consts split: option.splits if_splits)

subsection \<open>Disposition and attestation\<close>

definition disposition_ok :: "Disposition \<Rightarrow> bool" where
  "disposition_ok d \<longleftrightarrow>
     Disposition_Decision d \<noteq> '''' \<and>
     Disposition_Approver d \<in> {ApproverHuman, ApproverPolicy, ApproverCounterparty} \<and>
     (Disposition_HumanDisposed d \<longrightarrow> Disposition_Approver d = ApproverHuman) \<and>
     digest_field_ok (Disposition_ReasonDigest d)"

lemma validateDisposition_None_iff: "validateDisposition d = None \<longleftrightarrow> disposition_ok d"
  by (auto simp: validateDisposition_def disposition_ok_def digest_field_ok_def)

text \<open>Text that is absent or says something.\<close>

definition optional_text :: "string \<Rightarrow> bool" where
  "optional_text s \<longleftrightarrow> s = '''' \<or> \<not> blank s"

definition model_ok :: "Model \<Rightarrow> bool" where
  "model_ok m \<longleftrightarrow>
     (Model_Provider m \<noteq> '''' \<or> Model_ModelID m \<noteq> '''') \<and>
     optional_text (Model_Provider m) \<and> optional_text (Model_ModelID m)"

definition compute_ok :: "ComputeAttestation \<Rightarrow> bool" where
  "compute_ok c \<longleftrightarrow>
     (Compute_AgentInputDigest c \<noteq> '''' \<or> Compute_AgentOutputDigest c \<noteq> '''' \<or> Compute_Runtime c \<noteq> '''') \<and>
     optional_text (Compute_Runtime c) \<and>
     digest_field_ok (Compute_AgentInputDigest c) \<and> digest_field_ok (Compute_AgentOutputDigest c)"

lemma validateAttestation_None_iff:
  "validateAttestation m c = None \<longleftrightarrow> pred_option model_ok m \<and> pred_option compute_ok c"
  by (auto simp: validateAttestation_def model_ok_def compute_ok_def optional_text_def
      digest_field_ok_def hasComputeAttestation_def split: option.splits)

subsection \<open>The whole input\<close>

definition chain_ok :: "string \<Rightarrow> Chain \<Rightarrow> bool" where
  "chain_ok epoch c \<longleftrightarrow>
     hexDigestPattern (Chain_ParentCapsuleID c) \<and> Chain_Relation c \<noteq> '''' \<and>
     (Chain_Relation c = ChainEpochOpens \<longrightarrow> epoch \<noteq> '''')"

definition input_ok :: "Input \<Rightarrow> bool" where
  "input_ok i \<longleftrightarrow>
     \<not> blank (Input_ActionID i) \<and> \<not> blank (Input_Operator i) \<and> \<not> blank (Input_Developer i) \<and>
     Input_Timestamp i \<noteq> 0 \<and>
     (Input_ActionType i = ActionTypeFYI \<or>
      (Input_ActionType i = ActionTypeDecide \<and> Input_Disposition i \<noteq> None)) \<and>
     pred_option disposition_ok (Input_Disposition i) \<and>
     pred_option effect_ok (Input_Effect i) \<and>
     pred_option model_ok (Input_Model i) \<and> pred_option compute_ok (Input_Compute i) \<and>
     (Input_binding i \<noteq> None \<longrightarrow> \<not> hasAuthoredDigests (Input_Compute i)) \<and>
     pred_option (chain_ok (Input_EpochID i)) (Input_Chain i) \<and>
     pred_option (\<lambda>m. contemporaneous_ok m \<or> backfilled_ok m) (Input_ProvenanceMode i)"

lemma validateChain_None_iff:
  "validateChain i = None \<longleftrightarrow> pred_option (chain_ok (Input_EpochID i)) (Input_Chain i)"
  by (auto simp: validateChain_def chain_ok_def split: option.splits)

lemma required_fields_None_iff:
  assumes "range_ok rng"
  shows "first_err
       (\<lambda>name. case map_of (required_fields i) name of
            None \<Rightarrow> None
          | Some val \<Rightarrow> err_if (blank val) (Errorf ''%s is required'' [name]))
       (rng ''validateInput'' (keys (required_fields i))) = None \<longleftrightarrow>
     \<not> blank (Input_ActionID i) \<and> \<not> blank (Input_Operator i) \<and> \<not> blank (Input_Developer i)"
  using assms by (auto simp: first_err_None_iff required_fields_def)

lemma option_None_iff:
  "(case x of None \<Rightarrow> None | Some y \<Rightarrow> f y) = None \<longleftrightarrow> pred_option (\<lambda>y. f y = None) x"
  by (cases x) auto

lemma provenance_opt_None_iff:
  "validateProvenanceMode m = None \<longleftrightarrow> pred_option (\<lambda>m. contemporaneous_ok m \<or> backfilled_ok m) m"
proof (cases m)
  case None
  then show ?thesis by (simp add: validateProvenanceMode_def)
next
  case (Some a)
  then show ?thesis by (simp add: validateProvenanceMode_None_iff)
qed

lemma err_first_None_iff: "(if b then Some e else x) = None \<longleftrightarrow> \<not> b \<and> x = None"
  by simp

lemma validateInput_None_iff:
  assumes "range_ok rng"
  shows "validateInput rng i = None \<longleftrightarrow> input_ok i"
proof -
  have "validateInput rng i = None \<longleftrightarrow>
     (\<not> blank (Input_ActionID i) \<and> \<not> blank (Input_Operator i) \<and> \<not> blank (Input_Developer i)) \<and>
     Input_Timestamp i \<noteq> 0 \<and>
     \<not> (Input_ActionType i \<noteq> ActionTypeFYI \<and> Input_ActionType i \<noteq> ActionTypeDecide) \<and>
     \<not> (Input_ActionType i = ActionTypeDecide \<and> Input_Disposition i = None) \<and>
     pred_option disposition_ok (Input_Disposition i) \<and> pred_option effect_ok (Input_Effect i) \<and>
     (pred_option model_ok (Input_Model i) \<and> pred_option compute_ok (Input_Compute i)) \<and>
     \<not> (Input_binding i \<noteq> None \<and> hasAuthoredDigests (Input_Compute i)) \<and>
     pred_option (chain_ok (Input_EpochID i)) (Input_Chain i) \<and>
     pred_option (\<lambda>m. contemporaneous_ok m \<or> backfilled_ok m) (Input_ProvenanceMode i)"
    unfolding validateInput_def
    by (simp only: err_first_None_iff or_else_None_iff required_fields_None_iff [OF assms]
        option_None_iff validateDisposition_None_iff validateEffect_None_iff [OF assms]
        validateAttestation_None_iff validateChain_None_iff provenance_opt_None_iff simp_thms)
  moreover have "(\<not> (Input_ActionType i \<noteq> ActionTypeFYI \<and> Input_ActionType i \<noteq> ActionTypeDecide) \<and>
      \<not> (Input_ActionType i = ActionTypeDecide \<and> Input_Disposition i = None)) \<longleftrightarrow>
    (Input_ActionType i = ActionTypeFYI \<or>
      (Input_ActionType i = ActionTypeDecide \<and> Input_Disposition i \<noteq> None))"
    by (auto simp: go_consts)
  ultimately show ?thesis unfolding input_ok_def by argo
qed

end
