(* ===== verification/JsonFacts.thy ===== *)
theory JsonFacts
  imports Json
begin

text \<open>
  What strict decoding guarantees. Every decoded value is well-formed (distinct keys,
  UTF-8 text, number texts of the JSON grammar, no negative zero) and nested at most
  \<open>maxJSONDepth\<close> deep; decoding always returns; and each well-formed value within the
  depth limit is decoded from its printed form, whatever surrounds its last byte.
\<close>

section \<open>Well-formed values\<close>

fun json_ok :: "json \<Rightarrow> bool" where
  "json_ok JNull = True"
| "json_ok (JBool b) = True"
| "json_ok (JNum n) = (number_text n \<and> n \<noteq> ''-0'')"
| "json_ok (JStr s) = utf8_valid s"
| "json_ok (JArr vs) = (\<forall>v \<in> set vs. json_ok v)"
| "json_ok (JObj m) = (distinct (keys m) \<and> (\<forall>(k, v) \<in> set m. utf8_valid k \<and> json_ok v))"

fun json_depth :: "json \<Rightarrow> nat" where
  "json_depth (JArr vs) = Suc (foldr (\<lambda>v n. max (json_depth v) n) vs 0)"
| "json_depth (JObj m) = Suc (foldr (\<lambda>kv n. max (json_depth (snd kv)) n) m 0)"
| "json_depth _ = 1"

lemma depth_arr_iff: "n \<ge> 1 \<Longrightarrow> json_depth (JArr vs) \<le> n \<longleftrightarrow> (\<forall>v \<in> set vs. json_depth v \<le> n - 1)"
  by (induction vs) auto

lemma depth_obj_iff: "n \<ge> 1 \<Longrightarrow> json_depth (JObj m) \<le> n \<longleftrightarrow> (\<forall>(k, v) \<in> set m. json_depth v \<le> n - 1)"
  by (induction m) auto

text \<open>\<open>fits d v\<close>: the value \<open>v\<close>, read at nesting depth \<open>d\<close>, stays within the limit.\<close>

definition fits :: "nat \<Rightarrow> json \<Rightarrow> bool" where
  "fits d v \<longleftrightarrow> d + json_depth v \<le> Suc maxJSONDepth"

lemma fits_scalar: "json_depth v = 1 \<Longrightarrow> fits d v \<longleftrightarrow> d \<le> maxJSONDepth"
  by (simp add: fits_def)

lemma fits_arr: "fits d (JArr vs) \<longleftrightarrow> d \<le> maxJSONDepth \<and> (\<forall>v \<in> set vs. fits (Suc d) v)"
  using depth_arr_iff [of "Suc maxJSONDepth - d" vs]
  by (cases "d \<le> maxJSONDepth") (auto simp: fits_def Suc_diff_le)

lemma fits_obj: "fits d (JObj m) \<longleftrightarrow> d \<le> maxJSONDepth \<and> (\<forall>(k, v) \<in> set m. fits (Suc d) v)"
  using depth_obj_iff [of "Suc maxJSONDepth - d" m]
  by (cases "d \<le> maxJSONDepth") (auto simp: fits_def Suc_diff_le)

section \<open>The token stream\<close>

lemma match_append: "match p s = Some r \<longleftrightarrow> s = p @ r"
  by (induction p s rule: match.induct) auto

text \<open>What a token carries, when the input is UTF-8.\<close>

fun token_ok :: "token \<Rightarrow> bool" where
  "token_ok (TNum n) = number_text n"
| "token_ok (TStr s) = utf8_valid s"
| "token_ok _ = True"

lemma lex_number_shrinks: "lex_number s = Some (n, r) \<Longrightarrow> length r < length s"
  by (drule lex_number_sound) auto

lemma lex_scalar_shrinks: "lex_scalar s = Some (t, r) \<Longrightarrow> length r < length s"
  by (auto simp: lex_scalar_def match_append dest: lex_string_shrinks lex_number_shrinks
      split: list.splits if_splits)

lemma lex_scalar_utf8:
  assumes "lex_scalar s = Some (t, r)" and "utf8_valid s"
  shows "token_ok t \<and> utf8_valid r"
proof -
  obtain c u where s: "s = c # u" using assms(1) by (auto simp: lex_scalar_def split: list.splits)
  consider "c = CHR 0x22" | "c = CHR ''t''" | "c = CHR ''f''" | "c = CHR ''n''"
    | "c \<noteq> CHR 0x22" "c \<noteq> CHR ''t''" "c \<noteq> CHR ''f''" "c \<noteq> CHR ''n''" by blast
  then show ?thesis
  proof cases
    case 1
    with assms s show ?thesis by (auto simp: lex_scalar_def dest: lex_string_utf8)
  next
    case 5
    with assms(1) s obtain n where n: "lex_number s = Some (n, r)" "t = TNum n"
      by (auto simp: lex_scalar_def)
    then have "s = n @ r" "number_text n" by (auto dest: lex_number_sound lex_number_text)
    moreover obtain n' c' where "n = n' @ [c']" "byte c' < 128"
      using n lex_number_sound [OF n(1)] lex_number_ascii [OF n(1)]
      by (metis append_butlast_last_id last_in_set)
    ultimately show ?thesis using assms(2) n(2) by (simp add: utf8_valid_split_ascii)
  qed (use assms s in \<open>auto simp: lex_scalar_def match_append\<close>)
qed

lemma token_switch_shrinks:
  "token_switch d c s = Inr (t, d') \<Longrightarrow> length (rest d') \<le> length s"
  by (auto simp: token_switch_def open_token_def close_token_def scalar_token_def
      dest!: lex_string_shrinks lex_scalar_shrinks split: if_splits list.splits option.splits)

lemma token_switch_utf8:
  "token_switch d c s = Inr (t, d') \<Longrightarrow> utf8_valid (c # s) \<Longrightarrow> token_ok t \<and> utf8_valid (rest d')"
  by (auto simp: token_switch_def open_token_def close_token_def scalar_token_def
      dest: lex_string_utf8 lex_scalar_utf8 split: if_splits list.splits option.splits)

text \<open>A token is read by the switch, after at most the separators.\<close>

lemma Token_induct [consumes 1, case_names separator switch]:
  assumes "Token d = Inr (t, d')"
    and sep: "\<And>d c s st. skip_space (rest d) = c # s \<Longrightarrow> byte c < 128 \<Longrightarrow>
      Token (d\<lparr>rest := s, token_state := st\<rparr>) = Inr (t, d') \<Longrightarrow>
      P (d\<lparr>rest := s, token_state := st\<rparr>) \<Longrightarrow> P d"
    and sw: "\<And>d c s. skip_space (rest d) = c # s \<Longrightarrow> token_switch d c s = Inr (t, d') \<Longrightarrow> P d"
  shows "P d"
  using assms(1)
proof (induction d rule: Token.induct)
  case (1 d)
  from "1.prems" obtain c s where cs: "skip_space (rest d) = c # s"
    by (auto simp: Token.simps [of d] split: list.splits)
  show ?case
  proof (cases "c = CHR '':'' \<or> c = CHR '',''")
    case True
    with "1.prems" cs obtain st where st: "separator_state c (token_state d) = Some st"
      and tok: "Token (d\<lparr>rest := s, token_state := st\<rparr>) = Inr (t, d')"
      by (auto simp: Token.simps [of d] split: option.splits)
    from True have "byte c < 128" by auto
    with cs show ?thesis using tok "1.IH" [OF cs True st tok] by (rule sep)
  next
    case False
    with "1.prems" cs have "token_switch d c s = Inr (t, d')" by (simp add: Token.simps [of d])
    with cs show ?thesis by (rule sw)
  qed
qed

lemma Token_shrinks: "Token d = Inr (t, d') \<Longrightarrow> length (rest d') < length (rest d)"
proof (induction rule: Token_induct)
  case (separator d c s st)
  then show ?case using skip_space_length [of "rest d"] by simp
next
  case (switch d c s)
  then show ?case using skip_space_length [of "rest d"] token_switch_shrinks [OF switch(2)] by simp
qed

lemma Token_utf8: "Token d = Inr (t, d') \<Longrightarrow> utf8_valid (rest d) \<Longrightarrow> token_ok t \<and> utf8_valid (rest d')"
proof (induction rule: Token_induct)
  case (separator d c s st)
  then show ?case using skip_space_utf8 [of "rest d"] by simp
next
  case (switch d c s)
  then show ?case using skip_space_utf8 [of "rest d"] token_switch_utf8 [OF switch(2)] by simp
qed

section \<open>Soundness of decoding\<close>

lemmas decode_induct =
  decodeJSONValue_decode_members_decode_elements.induct
    [case_names val_0 val members_0 members elements_0 elements]

lemma decode_shrinks:
  "decodeJSONValue fuel d depth = Some (Inr (v, d')) \<Longrightarrow> length (rest d') < length (rest d)"
  "decode_members fuel d depth m = Some (Inr (v, d')) \<Longrightarrow> length (rest d') < length (rest d)"
  "decode_elements fuel d depth vs = Some (Inr (v, d')) \<Longrightarrow> length (rest d') < length (rest d)"
proof (induction fuel d depth and fuel d depth m and fuel d depth vs arbitrary: v d' and v d' and v d'
    rule: decode_induct)
  case (val fuel d depth)
  then show ?case
    by (fastforce dest: Token_shrinks split: if_splits sum.splits token.splits prod.splits)
next
  case (members fuel d depth m)
  show ?case
  proof (cases "More d")
    case True
    with members.prems obtain k d1 w d2 where
      "Token d = Inr (TStr k, d1)" "decodeJSONValue fuel d1 (depth + 1) = Some (Inr (w, d2))"
      "decode_members fuel d2 depth (AList.update k w m) = Some (Inr (v, d'))" "\<not> has_key m k"
      by (auto split: if_splits sum.splits token.splits prod.splits option.splits)
    with members.IH True show ?thesis
      by (fastforce dest: Token_shrinks)
  next
    case False
    with members.prems show ?thesis
      by (auto dest: Token_shrinks split: sum.splits)
  qed
next
  case (elements fuel d depth vs)
  show ?case
  proof (cases "More d")
    case True
    with elements.prems obtain w d2 where
      "decodeJSONValue fuel d (depth + 1) = Some (Inr (w, d2))"
      "decode_elements fuel d2 depth (vs @ [w]) = Some (Inr (v, d'))"
      by (auto split: sum.splits prod.splits option.splits)
    with elements.IH True show ?thesis by fastforce
  next
    case False
    with elements.prems show ?thesis
      by (auto dest: Token_shrinks split: sum.splits)
  qed
qed simp_all

section \<open>Termination: the fuel is enough\<close>

lemma decode_enough_fuel:
  "2 * length (rest d) + 1 \<le> fuel \<Longrightarrow> decodeJSONValue fuel d depth \<noteq> None"
  "2 * length (rest d) + 2 \<le> fuel \<Longrightarrow> decode_members fuel d depth m \<noteq> None"
  "2 * length (rest d) + 2 \<le> fuel \<Longrightarrow> decode_elements fuel d depth vs \<noteq> None"
proof (induction fuel d depth and fuel d depth m and fuel d depth vs rule: decode_induct)
  case (val fuel d depth)
  then show ?case
    by (fastforce dest: Token_shrinks split: sum.splits token.splits prod.splits)
next
  case (members fuel d depth m)
  show ?case
  proof (cases "More d")
    case False
    then show ?thesis by (auto split: sum.splits)
  next
    case True
    show ?thesis
    proof (cases "\<exists>k d1. Token d = Inr (TStr k, d1) \<and> \<not> has_key m k")
      case False
      with True show ?thesis by (auto split: sum.splits token.splits)
    next
      case ex: True
      then obtain k d1 where k: "Token d = Inr (TStr k, d1)" "\<not> has_key m k" by blast
      have l1: "length (rest d1) < length (rest d)" using k(1) by (rule Token_shrinks)
      have "decodeJSONValue fuel d1 (depth + 1) \<noteq> None"
        by (rule members.IH(1) [OF True k(1) refl refl k(2)]) (use l1 members.prems in simp)
      moreover have "decode_members fuel d2 depth (AList.update k w m) \<noteq> None"
        if "decodeJSONValue fuel d1 (depth + 1) = Some (Inr (w, d2))" for w d2
        by (rule members.IH(2) [OF True k(1) refl refl k(2) that refl refl])
          (use decode_shrinks(1) [OF that] l1 members.prems in simp)
      ultimately show ?thesis using True k by (auto split: sum.splits option.splits)
    qed
  qed
next
  case (elements fuel d depth vs)
  show ?case
  proof (cases "More d")
    case False
    then show ?thesis by (auto split: sum.splits)
  next
    case True
    have "decodeJSONValue fuel d (depth + 1) \<noteq> None"
      by (rule elements.IH(1) [OF True]) (use elements.prems in simp)
    moreover have "decode_elements fuel d2 depth (vs @ [w]) \<noteq> None"
      if "decodeJSONValue fuel d (depth + 1) = Some (Inr (w, d2))" for w d2
      by (rule elements.IH(2) [OF True that refl refl])
        (use decode_shrinks(1) [OF that] elements.prems in simp)
    ultimately show ?thesis using True by (auto split: sum.splits option.splits)
  qed
qed simp_all

lemma decode_fuel_enough:
  "decodeJSONValue (decode_fuel s) (new_decoder s) 1 \<noteq> None"
  by (rule decode_enough_fuel(1)) (simp add: decode_fuel_def new_decoder_def)

section \<open>Soundness of decoding\<close>

lemma json_ok_update:
  "json_ok (JObj m) \<Longrightarrow> utf8_valid k \<Longrightarrow> json_ok v \<Longrightarrow> json_ok (JObj (AList.update k v m))"
  by (auto intro!: distinct_update dest!: update_values)

lemma fits_update:
  "fits n (JObj m) \<Longrightarrow> fits (Suc n) v \<Longrightarrow> fits n (JObj (AList.update k v m))"
  by (auto simp: fits_obj dest!: update_values)

lemma scalar_value_ok:
  assumes "token_ok tok" and "\<And>c. tok \<noteq> TDelim c"
  shows "json_ok (scalar_value tok) \<and> json_depth (scalar_value tok) = 1"
proof -
  have "number_text ''0''"
    by (simp add: number_text_def lex_number_defs digit_def between_def)
  with assms show ?thesis by (cases tok) auto
qed

lemma decode_sound:
  "decodeJSONValue fuel d depth = Some (Inr (v, d')) \<Longrightarrow> utf8_valid (rest d) \<Longrightarrow>
     json_ok v \<and> fits depth v \<and> utf8_valid (rest d')"
  "decode_members fuel d depth m = Some (Inr (v, d')) \<Longrightarrow> utf8_valid (rest d) \<Longrightarrow>
     json_ok (JObj m) \<Longrightarrow> fits depth (JObj m) \<Longrightarrow>
     json_ok v \<and> fits depth v \<and> utf8_valid (rest d')"
  "decode_elements fuel d depth vs = Some (Inr (v, d')) \<Longrightarrow> utf8_valid (rest d) \<Longrightarrow>
     json_ok (JArr vs) \<Longrightarrow> fits depth (JArr vs) \<Longrightarrow>
     json_ok v \<and> fits depth v \<and> utf8_valid (rest d')"
proof (induction fuel d depth and fuel d depth m and fuel d depth vs arbitrary: v d' and v d' and v d'
    rule: decode_induct)
  case (val fuel d depth)
  then have depth: "depth \<le> maxJSONDepth" by (auto split: if_splits)
  from val.prems(1) depth obtain tok d1 where t: "Token d = Inr (tok, d1)"
    by (auto split: sum.splits)
  have u: "token_ok tok" "utf8_valid (rest d1)"
    using Token_utf8 [OF t val.prems(2)] by auto
  show ?case
  proof (cases tok)
    case (TDelim c)
    consider (obj) "c = CHR ''{''" "decode_members fuel d1 depth [] = Some (Inr (v, d'))"
      | (arr) "c = CHR ''[''" "decode_elements fuel d1 depth [] = Some (Inr (v, d'))"
      using val.prems(1) depth t TDelim by (auto split: if_splits)
    then show ?thesis
    proof cases
      case obj
      then show ?thesis
        using val.IH(1) [OF _ t refl] depth u TDelim by (auto simp: fits_obj)
    next
      case arr
      then show ?thesis
        using val.IH(2) [OF _ t refl] depth u TDelim by (auto simp: fits_arr)
    qed
  qed (use val.prems(1) depth t u scalar_value_ok [OF u(1)] in \<open>auto simp: fits_scalar\<close>)
next
  case (members fuel d depth m)
  show ?case
  proof (cases "More d")
    case False
    with members.prems show ?thesis by (auto dest: Token_utf8 split: sum.splits)
  next
    case True
    with members.prems(1) obtain k d1 w d2 where k: "Token d = Inr (TStr k, d1)" "\<not> has_key m k"
      and w: "decodeJSONValue fuel d1 (depth + 1) = Some (Inr (w, d2))"
      and m: "decode_members fuel d2 depth (AList.update k w m) = Some (Inr (v, d'))"
      by (auto split: if_splits sum.splits token.splits prod.splits option.splits)
    have u: "utf8_valid k" "utf8_valid (rest d1)"
      using Token_utf8 [OF k(1) members.prems(2)] by auto
    have w': "json_ok w \<and> fits (depth + 1) w \<and> utf8_valid (rest d2)"
      using members.IH(1) [OF True k(1) refl refl k(2) w u(2)] .
    have "json_ok (JObj (AList.update k w m))" "fits depth (JObj (AList.update k w m))"
      using w' u json_ok_update [OF members.prems(3), of k w] fits_update [OF members.prems(4), of w k]
      unfolding Suc_eq_plus1 by blast+
    with w' show ?thesis
      using members.IH(2) [OF True k(1) refl refl k(2) w refl refl m] by blast
  qed
next
  case (elements fuel d depth vs)
  show ?case
  proof (cases "More d")
    case False
    with elements.prems show ?thesis by (auto dest: Token_utf8 split: sum.splits)
  next
    case True
    with elements.prems(1) obtain w d2 where w: "decodeJSONValue fuel d (depth + 1) = Some (Inr (w, d2))"
      and m: "decode_elements fuel d2 depth (vs @ [w]) = Some (Inr (v, d'))"
      by (auto split: sum.splits prod.splits option.splits)
    have w': "json_ok w \<and> fits (depth + 1) w \<and> utf8_valid (rest d2)"
      using elements.IH(1) [OF True w elements.prems(2)] .
    show ?thesis
      by (rule elements.IH(2) [OF True w refl refl m])
        (use w' elements.prems in \<open>auto simp: fits_arr\<close>)
  qed
qed simp_all

lemma decodeStrictJSON_InrE:
  assumes "decodeStrictJSON s = Inr v"
  obtains d err where "utf8_valid s"
    "decodeJSONValue (decode_fuel s) (new_decoder s) 1 = Some (Inr (v, d))" "Token d = Inl io_EOF"
  using assms
  by (auto simp: decodeStrictJSON_def split: if_splits option.splits sum.splits prod.splits)

lemma decodeStrictJSON_sound:
  "decodeStrictJSON s = Inr v \<Longrightarrow> utf8_valid s \<and> json_ok v \<and> json_depth v \<le> maxJSONDepth"
  by (erule decodeStrictJSON_InrE) (auto dest!: decode_sound(1) simp: new_decoder_def fits_def)

section \<open>Printing, and decoding what was printed\<close>

fun join_comma :: "string list \<Rightarrow> string" where
  "join_comma [] = []"
| "join_comma (x # xs) = x @ concat (map (\<lambda>y. CHR '','' # y) xs)"

fun print_json :: "json \<Rightarrow> string" where
  "print_json JNull = ''null''"
| "print_json (JBool b) = (if b then ''true'' else ''false'')"
| "print_json (JNum n) = n"
| "print_json (JStr s) = print_string s"
| "print_json (JArr vs) = CHR ''['' # join_comma (map print_json vs) @ [CHR '']'']"
| "print_json (JObj m) =
     CHR ''{'' # join_comma (map (\<lambda>kv. print_string (fst kv) @ CHR '':'' # print_json (snd kv)) m) @ [CHR ''}'']"

abbreviation print_member :: "string \<times> json \<Rightarrow> string" where
  "print_member kv \<equiv> print_string (fst kv) @ CHR '':'' # print_json (snd kv)"

lemma decode_Token_cong: "Token d = Token e \<Longrightarrow> decodeJSONValue fuel d depth = decodeJSONValue fuel e depth"
  by (cases fuel) auto

lemma Token_comma_array:
  "rest d = CHR '','' # s \<Longrightarrow> token_state d = ArrayComma \<Longrightarrow>
   Token d = Token (d\<lparr>rest := s, token_state := ArrayValue\<rparr>)"
  by (simp add: Token.simps [of d] separator_state_def json_space_def)

lemma Token_comma_object:
  "rest d = CHR '','' # s \<Longrightarrow> token_state d = ObjectComma \<Longrightarrow>
   Token d = Token (d\<lparr>rest := s, token_state := ObjectKey\<rparr>)"
  by (simp add: Token.simps [of d] separator_state_def json_space_def)

lemma Token_colon:
  "rest d = CHR '':'' # s \<Longrightarrow> token_state d = ObjectColon \<Longrightarrow>
   Token d = Token (d\<lparr>rest := s, token_state := ObjectValue\<rparr>)"
  by (simp add: Token.simps [of d] separator_state_def json_space_def)

lemma Token_key:
  "rest d = print_string k @ s \<Longrightarrow> token_state d = ObjectStart \<or> token_state d = ObjectKey \<Longrightarrow>
   Token d = Inr (TStr k, d\<lparr>rest := s, token_state := ObjectColon\<rparr>)"
  by (auto simp: Token.simps [of d] json_space_def token_switch_def print_string_def lex_string_print)

lemma Token_close_object:
  "rest d = CHR ''}'' # s \<Longrightarrow> token_state d = ObjectStart \<or> token_state d = ObjectComma \<Longrightarrow>
   token_stack d = st # stack \<Longrightarrow>
   Token d = Inr (TDelim CHR ''}'', d\<lparr>rest := s, token_state := value_end st, token_stack := stack\<rparr>)"
  by (auto simp: Token.simps [of d] json_space_def token_switch_def close_token_def)

lemma Token_close_array:
  "rest d = CHR '']'' # s \<Longrightarrow> token_state d = ArrayStart \<or> token_state d = ArrayComma \<Longrightarrow>
   token_stack d = st # stack \<Longrightarrow>
   Token d = Inr (TDelim CHR '']'', d\<lparr>rest := s, token_state := value_end st, token_stack := stack\<rparr>)"
  by (auto simp: Token.simps [of d] json_space_def token_switch_def close_token_def)

lemma Token_is_switch:
  "rest d = c # s \<Longrightarrow> \<not> json_space c \<Longrightarrow> c \<noteq> CHR '':'' \<Longrightarrow> c \<noteq> CHR '','' \<Longrightarrow>
   Token d = token_switch d c s"
  by (simp add: Token.simps [of d])

lemma Token_open:
  assumes "value_allowed (token_state d)"
  shows "rest d = CHR ''{'' # s \<Longrightarrow>
    Token d = Inr (TDelim CHR ''{'', d\<lparr>rest := s, token_state := ObjectStart, token_stack := token_state d # token_stack d\<rparr>)"
    and "rest d = CHR ''['' # s \<Longrightarrow>
    Token d = Inr (TDelim CHR ''['', d\<lparr>rest := s, token_state := ArrayStart, token_stack := token_state d # token_stack d\<rparr>)"
  using assms
  by (simp_all add: Token_is_switch json_space_def token_switch_def open_token_def)

lemma More_other: "rest d = c # s \<Longrightarrow> \<not> json_space c \<Longrightarrow> More d \<longleftrightarrow> c \<noteq> CHR '']'' \<and> c \<noteq> CHR ''}''"
  by (simp add: More_def)

definition plain_head :: "char \<Rightarrow> bool" where
  "plain_head c \<longleftrightarrow> \<not> json_space c \<and> c \<notin> {CHR '']'', CHR ''}'', CHR '':'', CHR '',''}"

lemma print_json_hd: "json_ok v \<Longrightarrow> print_json v \<noteq> [] \<and> plain_head (hd (print_json v))"
proof (cases v)
  case (JNum n)
  assume "json_ok v"
  with JNum obtain c t where n: "n = c # t" "digit c \<or> byte c = 45"
    by (auto elim: number_text_head)
  then have "plain_head c"
    by (auto simp: plain_head_def json_space_def digit_def between_def)
  with JNum n show ?thesis by simp
qed (simp_all add: plain_head_def json_space_def print_string_def)

lemma print_json_head:
  assumes "json_ok v"
  obtains c t where "print_json v = c # t" "plain_head c"
  using print_json_hd [OF assms] by (cases "print_json v") auto

lemma Token_scalar:
  assumes "value_allowed (token_state d)" and "rest d = c # s"
    and c: "plain_head c" "c \<noteq> CHR ''{''" "c \<noteq> CHR ''[''" and "lex_scalar (c # s) = Some (tok, r)"
  shows "Token d = Inr (tok, d\<lparr>rest := r, token_state := value_end (token_state d)\<rparr>)"
proof -
  from assms(1) have "token_state d \<noteq> ObjectStart" "token_state d \<noteq> ObjectKey"
    by (auto simp: value_allowed_def)
  with c have "token_switch d c s = scalar_token d (c # s)"
    by (simp add: token_switch_def plain_head_def)
  with assms show ?thesis
    by (simp add: Token_is_switch plain_head_def scalar_token_def)
qed

text \<open>\<open>reads v\<close>: the value is read back from its printed form, at every place a value may stand.\<close>

definition reads :: "json \<Rightarrow> bool" where
  "reads v \<longleftrightarrow> (\<forall>fuel d depth r. json_ok v \<longrightarrow> fits depth v \<longrightarrow> value_allowed (token_state d) \<longrightarrow>
     rest d = print_json v @ r \<longrightarrow> number_stop r \<longrightarrow> 2 * length (rest d) + 1 \<le> fuel \<longrightarrow>
     decodeJSONValue fuel d depth = Some (Inr (v, d\<lparr>rest := r, token_state := value_end (token_state d)\<rparr>)))"

lemma readsD:
  assumes "reads v" "json_ok v" "fits depth v" "value_allowed (token_state d)"
    "rest d = print_json v @ r" "number_stop r" "2 * length (rest d) + 1 \<le> fuel"
  shows "decodeJSONValue fuel d depth = Some (Inr (v, d\<lparr>rest := r, token_state := value_end (token_state d)\<rparr>))"
  using assms unfolding reads_def by blast

lemma number_stop_delim: "c \<in> {CHR '','', CHR '']'', CHR ''}''} \<Longrightarrow> number_stop (c # s)"
  by (auto simp: number_stop_def digit_def between_def)

lemma number_stop_tail:
  "c \<in> {CHR '']'', CHR ''}''} \<Longrightarrow> number_stop (concat (map (\<lambda>y. CHR '','' # y) xs) @ c # r)"
  by (cases xs) (auto intro!: number_stop_delim)

text \<open>
  The two places an element or a member is read at: right after the opening delimiter, or at
  the comma after its predecessor. In both, reading the next value is reading it at a decoder
  \<open>e\<close> that stands before its printed form.
\<close>

definition at_elements :: "json list \<Rightarrow> string \<Rightarrow> decoder \<Rightarrow> bool" where
  "at_elements vs r d \<longleftrightarrow>
     token_state d = ArrayStart \<and> rest d = join_comma (map print_json vs) @ CHR '']'' # r \<or>
     token_state d = ArrayComma \<and> rest d = concat (map (\<lambda>y. CHR '','' # y) (map print_json vs)) @ CHR '']'' # r"

definition at_members :: "members \<Rightarrow> string \<Rightarrow> decoder \<Rightarrow> bool" where
  "at_members ms r d \<longleftrightarrow>
     token_state d = ObjectStart \<and> rest d = join_comma (map print_member ms) @ CHR ''}'' # r \<or>
     token_state d = ObjectComma \<and> rest d = concat (map (\<lambda>y. CHR '','' # y) (map print_member ms)) @ CHR ''}'' # r"

lemma element_at:
  assumes "at_elements (v # vs) r d" and "json_ok v"
  obtains e r' where "More d" "number_stop r'" "\<forall>f n. decodeJSONValue f d n = decodeJSONValue f e n"
    "value_allowed (token_state e)" "rest e = print_json v @ r'" "length (rest e) \<le> length (rest d)"
    "\<forall>x. e\<lparr>rest := x, token_state := value_end (token_state e)\<rparr> = d\<lparr>rest := x, token_state := ArrayComma\<rparr>"
    "at_elements vs r (d\<lparr>rest := r', token_state := ArrayComma\<rparr>)" "length r' < length (rest d)"
proof -
  define r' where "r' = concat (map (\<lambda>y. CHR '','' # y) (map print_json vs)) @ CHR '']'' # r"
  have stop: "number_stop r'" unfolding r'_def by (rule number_stop_tail) simp
  have later: "at_elements vs r (d\<lparr>rest := r', token_state := ArrayComma\<rparr>)" by (simp add: at_elements_def r'_def)
  obtain c t where ct: "print_json v = c # t" "plain_head c" using assms(2) by (rule print_json_head)
  show ?thesis
  proof (cases "token_state d = ArrayStart")
    case True
    with assms(1) have rest: "rest d = print_json v @ r'" by (auto simp: r'_def at_elements_def)
    moreover have "More d" using rest ct More_other [of d c "t @ r'"] by (simp add: plain_head_def)
    ultimately show ?thesis using True ct stop later by (intro that [of r' d]) (simp_all add: value_allowed_def)
  next
    case False
    with assms(1) have ac: "token_state d = ArrayComma" and rest: "rest d = CHR '','' # print_json v @ r'"
      by (auto simp: r'_def at_elements_def)
    define e where "e = d\<lparr>rest := print_json v @ r', token_state := ArrayValue\<rparr>"
    have "decodeJSONValue f d n = decodeJSONValue f e n" for f n
      unfolding e_def by (intro decode_Token_cong Token_comma_array rest ac)
    moreover have "More d" using rest More_other [of d] by (simp add: json_space_def)
    ultimately show ?thesis using rest stop later
      by (intro that [of r' e]) (simp_all add: value_allowed_def e_def)
  qed
qed

lemma member_at:
  assumes "at_members ((k, v) # ms) r d"
  obtains e d1 r' where "More d" "Token d = Inr (TStr k, d1)" "number_stop r'"
    "\<forall>f n. decodeJSONValue f d1 n = decodeJSONValue f e n"
    "value_allowed (token_state e)" "rest e = print_json v @ r'" "length (rest e) < length (rest d)"
    "\<forall>x. e\<lparr>rest := x, token_state := value_end (token_state e)\<rparr> = d\<lparr>rest := x, token_state := ObjectComma\<rparr>"
    "at_members ms r (d\<lparr>rest := r', token_state := ObjectComma\<rparr>)" "length r' < length (rest d)"
proof -
  define r' where "r' = concat (map (\<lambda>y. CHR '','' # y) (map print_member ms)) @ CHR ''}'' # r"
  define d1 where "d1 = d\<lparr>rest := CHR '':'' # print_json v @ r', token_state := ObjectColon\<rparr>"
  define e where "e = d1\<lparr>rest := print_json v @ r', token_state := ObjectValue\<rparr>"
  have stop: "number_stop r'" unfolding r'_def by (rule number_stop_tail) simp
  have later: "at_members ms r (d\<lparr>rest := r', token_state := ObjectComma\<rparr>)" by (simp add: at_members_def r'_def)
  have key: "More d \<and> Token d = Inr (TStr k, d1) \<and> length (rest d1) < length (rest d)"
  proof (cases "token_state d = ObjectStart")
    case True
    with assms have rest: "rest d = print_string k @ CHR '':'' # print_json v @ r'"
      by (auto simp: r'_def at_members_def)
    have "More d" using rest More_other [of d "CHR 0x22"] by (simp add: print_string_def json_space_def)
    moreover have "Token d = Inr (TStr k, d1)"
      unfolding d1_def using True by (intro Token_key rest) simp
    ultimately show ?thesis using rest by (simp add: d1_def print_string_def)
  next
    case False
    with assms have oc: "token_state d = ObjectComma"
      and rest: "rest d = CHR '','' # print_string k @ CHR '':'' # print_json v @ r'"
      by (auto simp: r'_def at_members_def)
    have "More d" using rest More_other [of d] by (simp add: json_space_def)
    moreover have "Token d = Inr (TStr k, d1)"
      unfolding d1_def Token_comma_object [OF rest oc]
      by (subst Token_key) simp_all
    ultimately show ?thesis using rest by (simp add: d1_def)
  qed
  have "decodeJSONValue f d1 n = decodeJSONValue f e n" for f n
    unfolding e_def by (intro decode_Token_cong Token_colon) (simp_all add: d1_def)
  with key stop later show ?thesis
    by (intro that [of d1 r' e]) (simp_all add: value_allowed_def e_def d1_def)
qed

lemma decode_elements_print:
  assumes "\<forall>v \<in> set vs. reads v \<and> json_ok v \<and> fits (Suc depth) v"
    and "at_elements vs r d" and "token_stack d = st # stack" and "2 * length (rest d) + 2 \<le> fuel"
  shows "decode_elements fuel d depth acc =
    Some (Inr (JArr (acc @ vs), d\<lparr>rest := r, token_state := value_end st, token_stack := stack\<rparr>))"
  using assms
proof (induction vs arbitrary: d acc fuel)
  case Nil
  then obtain f where f: "fuel = Suc f" by (cases fuel) auto
  from Nil have rest: "rest d = CHR '']'' # r" and st: "token_state d = ArrayStart \<or> token_state d = ArrayComma"
    by (auto simp: at_elements_def)
  have "\<not> More d" using More_other [OF rest] by (simp add: json_space_def)
  with f Token_close_array [OF rest st Nil.prems(3)] show ?case by simp
next
  case (Cons v vs)
  then obtain f where f: "fuel = Suc f" by (cases fuel) auto
  have v: "reads v" "json_ok v" "fits (Suc depth) v" using Cons.prems(1) by auto
  obtain e r' where more: "More d" and stop: "number_stop r'"
    and eq: "\<forall>f n. decodeJSONValue f d n = decodeJSONValue f e n"
    and e: "value_allowed (token_state e)" "rest e = print_json v @ r'" "length (rest e) \<le> length (rest d)"
    and end_at: "\<forall>x. e\<lparr>rest := x, token_state := value_end (token_state e)\<rparr> = d\<lparr>rest := x, token_state := ArrayComma\<rparr>"
    and later: "at_elements vs r (d\<lparr>rest := r', token_state := ArrayComma\<rparr>)" "length r' < length (rest d)"
    using Cons.prems(2) v(2) by (rule element_at)
  have "decodeJSONValue f d (depth + 1) = Some (Inr (v, d\<lparr>rest := r', token_state := ArrayComma\<rparr>))"
    unfolding eq [rule_format] end_at [rule_format, symmetric]
    by (rule readsD [OF v(1,2) _ e(1,2) stop]) (use v(3) f e(3) Cons.prems(4) in simp_all)
  moreover have "decode_elements f (d\<lparr>rest := r', token_state := ArrayComma\<rparr>) depth (acc @ [v]) =
      Some (Inr (JArr ((acc @ [v]) @ vs),
        d\<lparr>rest := r', token_state := ArrayComma\<rparr>\<lparr>rest := r, token_state := value_end st, token_stack := stack\<rparr>))"
    by (rule Cons.IH [OF _ later(1)]) (use Cons.prems f later(2) in auto)
  ultimately show ?case using more f by simp
qed

lemma decode_members_print:
  assumes "\<forall>kv \<in> set ms. reads (snd kv) \<and> json_ok (snd kv) \<and> fits (Suc depth) (snd kv)"
    and "at_members ms r d" and "token_stack d = st # stack" and "2 * length (rest d) + 2 \<le> fuel"
    and "distinct (keys (acc @ ms))"
  shows "decode_members fuel d depth acc =
    Some (Inr (JObj (acc @ ms), d\<lparr>rest := r, token_state := value_end st, token_stack := stack\<rparr>))"
  using assms
proof (induction ms arbitrary: d acc fuel)
  case Nil
  then obtain f where f: "fuel = Suc f" by (cases fuel) auto
  from Nil have rest: "rest d = CHR ''}'' # r" and st: "token_state d = ObjectStart \<or> token_state d = ObjectComma"
    by (auto simp: at_members_def)
  have "\<not> More d" using More_other [OF rest] by (simp add: json_space_def)
  with f Token_close_object [OF rest st Nil.prems(3)] show ?case by simp
next
  case (Cons kv ms)
  then obtain f where f: "fuel = Suc f" by (cases fuel) auto
  obtain k v where kv: "kv = (k, v)" by (cases kv)
  have v: "reads v" "json_ok v" "fits (Suc depth) v" using Cons.prems(1) kv by auto
  obtain e d1 r' where key: "More d" "Token d = Inr (TStr k, d1)" and stop: "number_stop r'"
    and eq: "\<forall>f n. decodeJSONValue f d1 n = decodeJSONValue f e n"
    and e: "value_allowed (token_state e)" "rest e = print_json v @ r'" "length (rest e) < length (rest d)"
    and end_at: "\<forall>x. e\<lparr>rest := x, token_state := value_end (token_state e)\<rparr> = d\<lparr>rest := x, token_state := ObjectComma\<rparr>"
    and later: "at_members ms r (d\<lparr>rest := r', token_state := ObjectComma\<rparr>)" "length r' < length (rest d)"
    using Cons.prems(2) unfolding kv by (rule member_at)
  have val: "decodeJSONValue f d1 (depth + 1) = Some (Inr (v, d\<lparr>rest := r', token_state := ObjectComma\<rparr>))"
    unfolding eq [rule_format] end_at [rule_format, symmetric]
    by (rule readsD [OF v(1,2) _ e(1,2) stop]) (use v(3) f e(3) Cons.prems(4) in simp_all)
  have fresh: "k \<notin> set (keys acc)" using Cons.prems(5) kv by auto
  have "decode_members f (d\<lparr>rest := r', token_state := ObjectComma\<rparr>) depth (acc @ [(k, v)]) =
      Some (Inr (JObj ((acc @ [(k, v)]) @ ms),
        d\<lparr>rest := r', token_state := ObjectComma\<rparr>\<lparr>rest := r, token_state := value_end st, token_stack := stack\<rparr>))"
    by (rule Cons.IH [OF _ later(1)]) (use Cons.prems f kv later(2) in auto)
  with key val f fresh kv show ?case by (simp add: update_fresh)
qed

lemma reads_scalar:
  assumes "lex_scalar (print_json v @ r) = Some (tok, r)" "scalar_value tok = v" "\<And>c. tok \<noteq> TDelim c"
    and "json_ok v" "depth \<le> maxJSONDepth" "value_allowed (token_state d)" "rest d = print_json v @ r"
    and "hd (print_json v) \<noteq> CHR ''{''" "hd (print_json v) \<noteq> CHR ''[''" "0 < fuel"
  shows "decodeJSONValue fuel d depth = Some (Inr (v, d\<lparr>rest := r, token_state := value_end (token_state d)\<rparr>))"
proof -
  obtain c t where ct: "print_json v = c # t" "plain_head c" using assms(4) by (rule print_json_head)
  obtain f where f: "fuel = Suc f" using assms(10) by (cases fuel) auto
  have "Token d = Inr (tok, d\<lparr>rest := r, token_state := value_end (token_state d)\<rparr>)"
    by (rule Token_scalar [where c = c and s = "t @ r"]) (use assms ct in simp_all)
  with f assms(2,3,5) show ?thesis by (cases tok) auto
qed

lemma lex_scalar_number:
  assumes "number_text n" "number_stop r"
  shows "lex_scalar (n @ r) = Some (TNum n, r)"
proof -
  obtain c t where n: "n = c # t" "digit c \<or> byte c = 45" using assms(1) by (rule number_text_head)
  then have "c \<noteq> CHR 0x22" "c \<noteq> CHR ''t''" "c \<noteq> CHR ''f''" "c \<noteq> CHR ''n''"
    by (auto simp: digit_def between_def)
  with n number_text_append [OF assms] show ?thesis by (simp add: lex_scalar_def)
qed

lemma all_reads: "reads v"
proof (induction v)
  case JNull
  show ?case unfolding reads_def
    by (intro allI impI reads_scalar [where tok = TNull]) (auto simp: lex_scalar_def fits_def)
next
  case (JBool b)
  show ?case unfolding reads_def
    by (intro allI impI reads_scalar [where tok = "TBool b"])
      (auto simp: lex_scalar_def fits_def)
next
  case (JNum n)
  show ?case unfolding reads_def
  proof (intro allI impI reads_scalar [where tok = "TNum n"])
    fix r assume a: "json_ok (JNum n)" "number_stop r"
    then show "lex_scalar (print_json (JNum n) @ r) = Some (TNum n, r)"
      by (simp add: lex_scalar_number)
    from a show "hd (print_json (JNum n)) \<noteq> CHR ''{''" "hd (print_json (JNum n)) \<noteq> CHR ''[''"
      by (auto simp: digit_def between_def elim!: number_text_head)
  qed (auto simp: fits_def)
next
  case (JStr s)
  show ?case unfolding reads_def
    by (intro allI impI reads_scalar [where tok = "TStr s"])
      (auto simp: lex_scalar_def fits_def print_string_def lex_string_print)
next
  case (JArr vs)
  show ?case unfolding reads_def
  proof (intro allI impI)
    fix fuel depth :: nat and d :: decoder and r
    assume a: "json_ok (JArr vs)" "fits depth (JArr vs)" "value_allowed (token_state d)"
      "rest d = print_json (JArr vs) @ r" "2 * length (rest d) + 1 \<le> fuel"
    then obtain f where f: "fuel = Suc f" by (cases fuel) auto
    let ?d = "d\<lparr>rest := join_comma (map print_json vs) @ CHR '']'' # r, token_state := ArrayStart,
      token_stack := token_state d # token_stack d\<rparr>"
    have tok: "Token d = Inr (TDelim CHR ''['', ?d)"
      by (rule Token_open(2)) (use a in simp_all)
    have el: "decode_elements f ?d depth [] =
      Some (Inr (JArr ([] @ vs), ?d\<lparr>rest := r, token_state := value_end (token_state d), token_stack := token_stack d\<rparr>))"
      by (rule decode_elements_print) (use a f JArr in \<open>auto simp: fits_arr at_elements_def\<close>)
    from a(2) have "depth \<le> maxJSONDepth" by (simp add: fits_arr)
    with tok el f show "decodeJSONValue fuel d depth =
      Some (Inr (JArr vs, d\<lparr>rest := r, token_state := value_end (token_state d)\<rparr>))"
      by simp
  qed
next
  case (JObj m)
  show ?case unfolding reads_def
  proof (intro allI impI)
    fix fuel depth :: nat and d :: decoder and r
    assume a: "json_ok (JObj m)" "fits depth (JObj m)" "value_allowed (token_state d)"
      "rest d = print_json (JObj m) @ r" "2 * length (rest d) + 1 \<le> fuel"
    then obtain f where f: "fuel = Suc f" by (cases fuel) auto
    let ?d = "d\<lparr>rest := join_comma (map print_member m) @ CHR ''}'' # r, token_state := ObjectStart,
      token_stack := token_state d # token_stack d\<rparr>"
    have tok: "Token d = Inr (TDelim CHR ''{'', ?d)"
      by (rule Token_open(1)) (use a in simp_all)
    have el: "decode_members f ?d depth [] =
      Some (Inr (JObj ([] @ m), ?d\<lparr>rest := r, token_state := value_end (token_state d), token_stack := token_stack d\<rparr>))"
      by (rule decode_members_print) (use a f JObj in \<open>fastforce simp: fits_obj at_members_def\<close>)+
    from a(2) have "depth \<le> maxJSONDepth" by (simp add: fits_obj)
    with tok el f show "decodeJSONValue fuel d depth =
      Some (Inr (JObj m, d\<lparr>rest := r, token_state := value_end (token_state d)\<rparr>))"
      by simp
  qed
qed

text \<open>The printed form is UTF-8.\<close>

text \<open>An escaper that leaves bytes above ASCII alone and writes ASCII for ASCII keeps UTF-8.\<close>

lemma escape_utf8:
  assumes high: "\<And>c. byte c \<ge> 128 \<Longrightarrow> esc c = [c]"
    and low: "\<And>c d. byte c < 128 \<Longrightarrow> d \<in> set (esc c) \<Longrightarrow> byte d < 128"
  shows "utf8_valid s \<Longrightarrow> utf8_valid (concat (map esc s))"
proof (induction s rule: length_induct)
  case (1 s)
  show ?case
  proof (cases s)
    case (Cons c t)
    show ?thesis
    proof (cases "byte c < 128")
      case True
      with "1.prems" Cons have "utf8_valid t" by simp
      with "1.IH" Cons have "utf8_valid (concat (map esc t))" by simp
      moreover have "utf8_valid (esc c)"
        using True low by (blast intro: utf8_valid_all_ascii)
      ultimately show ?thesis using Cons by (simp add: utf8_valid_append)
    next
      case False
      obtain u where u: "utf8_seq s = Some u" "utf8_valid u"
        using "1.prems" Cons by (auto elim: utf8_validE)
      obtain p where p: "s = p @ u" "utf8_valid p" "p \<noteq> []" "\<forall>c \<in> set p. byte c \<ge> 128"
        using utf8_seq_prefix [OF u(1)] False Cons by auto
      then have "utf8_valid (concat (map esc u))" using "1.IH" u(2) by auto
      moreover have "concat (map esc p) = p"
        using p(4) by (induction p) (auto simp: high)
      ultimately show ?thesis using p by (simp add: utf8_valid_append)
    qed
  qed simp
qed

lemma print_string_body_utf8: "utf8_valid s \<Longrightarrow> utf8_valid (concat (map print_char s))"
  by (rule escape_utf8) (auto simp: print_char_def hex_char_def split: if_splits)

lemma print_string_utf8: "utf8_valid s \<Longrightarrow> utf8_valid (print_string s)"
  by (simp add: print_string_def utf8_valid_append print_string_body_utf8)

lemma join_comma_utf8: "\<forall>x \<in> set xs. utf8_valid x \<Longrightarrow> utf8_valid (join_comma xs)"
proof (cases xs)
  case (Cons y ys)
  assume "\<forall>x \<in> set xs. utf8_valid x"
  moreover have "\<forall>x \<in> set ys. utf8_valid x \<Longrightarrow> utf8_valid (concat (map (\<lambda>y. CHR '','' # y) ys))"
    by (induction ys) (auto intro: utf8_valid_append)
  ultimately show ?thesis using Cons by (auto intro: utf8_valid_append)
qed simp

lemma print_json_utf8: "json_ok v \<Longrightarrow> utf8_valid (print_json v)"
proof (induction v)
  case (JArr vs)
  then have "utf8_valid (join_comma (map print_json vs))" by (intro join_comma_utf8) auto
  then show ?case by (simp add: utf8_valid_append)
next
  case (JObj m)
  have "utf8_valid (join_comma (map print_member m))"
  proof (rule join_comma_utf8, rule ballI)
    fix x assume "x \<in> set (map print_member m)"
    then obtain k v where "(k, v) \<in> set m" "x = print_member (k, v)" by auto
    moreover from this JObj have "utf8_valid k" "utf8_valid (print_json v)" by fastforce+
    ultimately show "utf8_valid x" by (simp add: utf8_valid_append print_string_utf8)
  qed
  then show ?case by (simp add: utf8_valid_append)
qed (auto intro: number_text_utf8 print_string_utf8)

lemma decode_print_json:
  assumes "json_ok v" and "json_depth v \<le> maxJSONDepth"
  shows "decodeStrictJSON (print_json v) = Inr v"
proof -
  let ?s = "print_json v"
  have "decodeJSONValue (decode_fuel ?s) (new_decoder ?s) 1 =
      Some (Inr (v, (new_decoder ?s)\<lparr>rest := [], token_state := value_end (token_state (new_decoder ?s))\<rparr>))"
    by (rule readsD [OF all_reads assms(1)])
      (use assms(2) in \<open>auto simp: fits_def new_decoder_def value_allowed_def number_stop_def decode_fuel_def\<close>)
  then show ?thesis
    using print_json_utf8 [OF assms(1)]
    by (simp add: decodeStrictJSON_def new_decoder_def Token.simps)
qed

section \<open>Values beyond the depth limit\<close>

text \<open>\<open>refuses v\<close>: wherever the value does not fit, reading its printed form ends in an error.\<close>

definition refuses :: "json \<Rightarrow> bool" where
  "refuses v \<longleftrightarrow> (\<forall>fuel d depth r. json_ok v \<longrightarrow> \<not> fits depth v \<longrightarrow> value_allowed (token_state d) \<longrightarrow>
     rest d = print_json v @ r \<longrightarrow> number_stop r \<longrightarrow> 2 * length (rest d) + 1 \<le> fuel \<longrightarrow>
     (\<exists>err. decodeJSONValue fuel d depth = Some (Inl err)))"

lemma refusesD:
  assumes "refuses v" "json_ok v" "\<not> fits depth v" "value_allowed (token_state d)"
    "rest d = print_json v @ r" "number_stop r" "2 * length (rest d) + 1 \<le> fuel"
  shows "\<exists>err. decodeJSONValue fuel d depth = Some (Inl err)"
  using assms unfolding refuses_def by blast

lemma refuses_scalar: "json_depth v = 1 \<Longrightarrow> refuses v"
  unfolding refuses_def
proof (intro allI impI)
  fix fuel depth :: nat and d :: decoder and r
  assume "json_depth v = 1" "\<not> fits depth v" "2 * length (rest d) + 1 \<le> fuel"
  then have "depth > maxJSONDepth" "fuel = Suc (fuel - 1)" by (simp_all add: fits_scalar)
  then show "\<exists>err. decodeJSONValue fuel d depth = Some (Inl err)"
    using decodeJSONValue.simps(2) [of "fuel - 1" d depth] by simp
qed

lemma decode_elements_deep:
  assumes "\<forall>v \<in> set vs. refuses v \<and> json_ok v" and "\<exists>v \<in> set vs. \<not> fits (Suc depth) v"
    and "at_elements vs r d" and "2 * length (rest d) + 2 \<le> fuel"
  shows "\<exists>err. decode_elements fuel d depth acc = Some (Inl err)"
  using assms
proof (induction vs arbitrary: d acc fuel)
  case (Cons v vs)
  then obtain f where f: "fuel = Suc f" by (cases fuel) auto
  have v: "refuses v" "json_ok v" using Cons.prems(1) by auto
  obtain e r' where more: "More d" and stop: "number_stop r'"
    and eq: "\<forall>f n. decodeJSONValue f d n = decodeJSONValue f e n"
    and e: "value_allowed (token_state e)" "rest e = print_json v @ r'" "length (rest e) \<le> length (rest d)"
    and end_at: "\<forall>x. e\<lparr>rest := x, token_state := value_end (token_state e)\<rparr> = d\<lparr>rest := x, token_state := ArrayComma\<rparr>"
    and later: "at_elements vs r (d\<lparr>rest := r', token_state := ArrayComma\<rparr>)" "length r' < length (rest d)"
    using Cons.prems(3) v(2) by (rule element_at)
  have fuel: "2 * length (rest e) + 1 \<le> f" using f e(3) Cons.prems(4) by simp
  show ?case
  proof (cases "fits (Suc depth) v")
    case False
    from refusesD [OF v False e(1,2) stop fuel] more f eq show ?thesis by auto
  next
    case True
    have "decodeJSONValue f d (depth + 1) = Some (Inr (v, d\<lparr>rest := r', token_state := ArrayComma\<rparr>))"
      unfolding eq [rule_format] end_at [rule_format, symmetric]
      by (rule readsD [OF all_reads v(2) _ e(1,2) stop fuel]) (use True in simp)
    moreover have "\<exists>err. decode_elements f (d\<lparr>rest := r', token_state := ArrayComma\<rparr>) depth (acc @ [v]) = Some (Inl err)"
      by (rule Cons.IH [OF _ _ later(1)]) (use Cons.prems True f later(2) in auto)
    ultimately show ?thesis using more f by simp
  qed
qed simp

lemma decode_members_deep:
  assumes "\<forall>kv \<in> set ms. refuses (snd kv) \<and> json_ok (snd kv)" and "\<exists>kv \<in> set ms. \<not> fits (Suc depth) (snd kv)"
    and "at_members ms r d" and "2 * length (rest d) + 2 \<le> fuel" and "distinct (keys (acc @ ms))"
  shows "\<exists>err. decode_members fuel d depth acc = Some (Inl err)"
  using assms
proof (induction ms arbitrary: d acc fuel)
  case (Cons kv ms)
  then obtain f where f: "fuel = Suc f" by (cases fuel) auto
  obtain k v where kv: "kv = (k, v)" by (cases kv)
  have v: "refuses v" "json_ok v" using Cons.prems(1) kv by auto
  obtain e d1 r' where key: "More d" "Token d = Inr (TStr k, d1)" and stop: "number_stop r'"
    and eq: "\<forall>f n. decodeJSONValue f d1 n = decodeJSONValue f e n"
    and e: "value_allowed (token_state e)" "rest e = print_json v @ r'" "length (rest e) < length (rest d)"
    and end_at: "\<forall>x. e\<lparr>rest := x, token_state := value_end (token_state e)\<rparr> = d\<lparr>rest := x, token_state := ObjectComma\<rparr>"
    and later: "at_members ms r (d\<lparr>rest := r', token_state := ObjectComma\<rparr>)" "length r' < length (rest d)"
    using Cons.prems(3) unfolding kv by (rule member_at)
  have fuel: "2 * length (rest e) + 1 \<le> f" using f e(3) Cons.prems(4) by simp
  have fresh: "k \<notin> set (keys acc)" using Cons.prems(5) kv by auto
  show ?case
  proof (cases "fits (Suc depth) v")
    case False
    from refusesD [OF v False e(1,2) stop fuel] key f eq fresh show ?thesis by auto
  next
    case True
    have "decodeJSONValue f d1 (depth + 1) = Some (Inr (v, d\<lparr>rest := r', token_state := ObjectComma\<rparr>))"
      unfolding eq [rule_format] end_at [rule_format, symmetric]
      by (rule readsD [OF all_reads v(2) _ e(1,2) stop fuel]) (use True in simp)
    moreover have "\<exists>err. decode_members f (d\<lparr>rest := r', token_state := ObjectComma\<rparr>) depth (acc @ [(k, v)]) = Some (Inl err)"
      by (rule Cons.IH [OF _ _ later(1)]) (use Cons.prems True f kv later(2) in auto)
    ultimately show ?thesis using key f fresh by (simp add: update_fresh)
  qed
qed simp

lemma all_refuse: "refuses v"
proof (induction v)
  case (JArr vs)
  show ?case unfolding refuses_def
  proof (intro allI impI)
    fix fuel depth :: nat and d :: decoder and r
    assume a: "json_ok (JArr vs)" "\<not> fits depth (JArr vs)" "value_allowed (token_state d)"
      "rest d = print_json (JArr vs) @ r" "2 * length (rest d) + 1 \<le> fuel"
    then obtain f where f: "fuel = Suc f" by (cases fuel) auto
    let ?d = "d\<lparr>rest := join_comma (map print_json vs) @ CHR '']'' # r, token_state := ArrayStart,
      token_stack := token_state d # token_stack d\<rparr>"
    have tok: "Token d = Inr (TDelim CHR ''['', ?d)"
      by (rule Token_open(2)) (use a in simp_all)
    show "\<exists>err. decodeJSONValue fuel d depth = Some (Inl err)"
    proof (cases "depth \<le> maxJSONDepth")
      case True
      have "\<exists>err. decode_elements f ?d depth [] = Some (Inl err)"
        by (rule decode_elements_deep [where r = r]) (use a f JArr True in \<open>auto simp: fits_arr at_elements_def\<close>)
      with True tok f show ?thesis by auto
    qed (use f in simp)
  qed
next
  case (JObj m)
  show ?case unfolding refuses_def
  proof (intro allI impI)
    fix fuel depth :: nat and d :: decoder and r
    assume a: "json_ok (JObj m)" "\<not> fits depth (JObj m)" "value_allowed (token_state d)"
      "rest d = print_json (JObj m) @ r" "2 * length (rest d) + 1 \<le> fuel"
    then obtain f where f: "fuel = Suc f" by (cases fuel) auto
    let ?d = "d\<lparr>rest := join_comma (map print_member m) @ CHR ''}'' # r, token_state := ObjectStart,
      token_stack := token_state d # token_stack d\<rparr>"
    have tok: "Token d = Inr (TDelim CHR ''{'', ?d)"
      by (rule Token_open(1)) (use a in simp_all)
    show "\<exists>err. decodeJSONValue fuel d depth = Some (Inl err)"
    proof (cases "depth \<le> maxJSONDepth")
      case True
      have deep: "\<exists>kv \<in> set m. \<not> fits (Suc depth) (snd kv)" using a(2) True by (force simp: fits_obj)
      have ok: "\<forall>kv \<in> set m. refuses (snd kv) \<and> json_ok (snd kv)" "distinct (keys ([] @ m))"
        using a(1) JObj by fastforce+
      have "\<exists>err. decode_members f ?d depth [] = Some (Inl err)"
        by (rule decode_members_deep [OF ok(1) deep, where r = r])
          (use a(4,5) f ok(2) in \<open>simp_all add: at_members_def\<close>)
      with True tok f show ?thesis by auto
    qed (use f in simp)
  qed
qed (simp_all add: refuses_scalar)

text \<open>The printed form of a well-formed value is decoded to that value or, beyond the limit, refused.\<close>

lemma decode_print_json_deep:
  assumes "json_ok v" and "json_depth v > maxJSONDepth"
  shows "\<exists>err. decodeStrictJSON (print_json v) = Inl err"
proof -
  let ?s = "print_json v"
  have "\<exists>err. decodeJSONValue (decode_fuel ?s) (new_decoder ?s) 1 = Some (Inl err)"
    by (rule refusesD [OF all_refuse assms(1), where r = "[]"])
      (use assms(2) in \<open>auto simp: fits_def new_decoder_def value_allowed_def number_stop_def decode_fuel_def\<close>)
  then show ?thesis by (auto simp: decodeStrictJSON_def)
qed

end
