(* ===== verification/Extension.thy ===== *)
theory Extension
  imports EmitModel JsonFacts
begin

text \<open>
  Walks over a JSON value (\<open>extension.go\<close>: \<open>extensionValue\<close>, \<open>checkExtensionNumbers\<close>;
  \<open>build.go\<close>: \<open>validatePayloadText\<close>). Both walks range over Go maps: the order is an
  argument, and acceptance is shown not to depend on it.
\<close>

section \<open>validatePayloadText\<close>

definition index_path :: "string \<Rightarrow> nat \<Rightarrow> string" where
  "index_path path i = path @ ''['' @ show_nat i @ '']''"

lemma size_map_of: "map_of m key = Some item \<Longrightarrow> size item < Suc (size_list (size_prod (\<lambda>x. 0) size) m)"
  by (drule map_of_SomeD) (induction m; auto)

lemma enumerate_item: "(i, item) \<in> set (enumerate n vs) \<Longrightarrow> item \<in> set vs"
  by (auto simp: in_set_enumerate_eq)

lemma size_enumerate:
  assumes "(i, item) \<in> set (enumerate n vs)"
  shows "size item < Suc (size_list size vs)"
proof -
  have "item \<in> set vs" using assms by (rule enumerate_item)
  then show ?thesis by (induction vs) auto
qed

function validatePayloadText :: "range_order \<Rightarrow> json \<Rightarrow> string \<Rightarrow> go_error option" where
  "validatePayloadText rng (JStr s) path =
     err_if (\<not> utf8_valid s) (Errorf ''payload text at %s must be valid UTF-8'' [path])"
| "validatePayloadText rng (JObj m) path =
     first_err
       (\<lambda>key. case map_of m key of
            None \<Rightarrow> None
          | Some item \<Rightarrow>
              if \<not> utf8_valid key then Some (Errorf ''payload key at %s must be valid UTF-8'' [path])
              else validatePayloadText rng item (path @ ''.'' @ key))
       (rng path (keys m))"
| "validatePayloadText rng (JArr vs) path =
     first_err (\<lambda>(i, item). validatePayloadText rng item (index_path path i)) (enumerate 0 vs)"
| "validatePayloadText rng JNull path = None"
| "validatePayloadText rng (JBool b) path = None"
| "validatePayloadText rng (JNum n) path = None"
  by pat_completeness auto

termination
  by (relation "measure (\<lambda>(rng, v, path). size v)") (auto dest: size_map_of size_enumerate)

section \<open>checkExtensionNumbers\<close>

function checkExtensionNumbers :: "aac \<Rightarrow> range_order \<Rightarrow> json \<Rightarrow> string \<Rightarrow> go_error option" where
  "checkExtensionNumbers A rng (JNum n) path =
     (if IsFloat A n
      then Some (Errorf ''float at %s: floating-point values are forbidden in a Capsule'' [path])
      else if IsUnsafeInt A n
      then Some (Errorf ''integer at %s is outside the interoperable range'' [path])
      else None)"
| "checkExtensionNumbers A rng (JObj m) path =
     first_err
       (\<lambda>key. case map_of m key of
            None \<Rightarrow> None
          | Some item \<Rightarrow> checkExtensionNumbers A rng item (path @ ''.'' @ key))
       (rng path (keys m))"
| "checkExtensionNumbers A rng (JArr vs) path =
     first_err (\<lambda>(i, item). checkExtensionNumbers A rng item (index_path path i)) (enumerate 0 vs)"
| "checkExtensionNumbers A rng JNull path = None"
| "checkExtensionNumbers A rng (JBool b) path = None"
| "checkExtensionNumbers A rng (JStr s) path = None"
  by pat_completeness auto
termination
  by (relation "measure (\<lambda>(A, rng, v, path). size v)") (auto dest: size_map_of size_enumerate)

section \<open>extensionValue\<close>

definition baseMembers :: "string list" where
  "baseMembers =
     [''spec_version'', ''format_version'', ''canonicalization_id'',
      ''capsule_id'', ''action_id'', ''action_type'', ''operator'',
      ''developer'', ''timestamp'', ''epoch_id'', ''domain'',
      ''provenance'', ''provenance_mode'', ''disposition'',
      ''effect'', ''chain'', ''assurance'', ''cross_party'',
      ''model_attestation'', ''references'', ''constraints'',
      ''compliance'', ''signature'', ''key_id'']"

definition extensionValue :: "aac \<Rightarrow> range_order \<Rightarrow> Extension \<Rightarrow> members \<Rightarrow> json res" where
  "extensionValue A rng ext payload =
     (let name = Extension_Name ext in
      if \<not> extensionNamePattern name
      then Inl (Errorf ''extension name %q must be lowercase letters, digits and underscores, starting with a letter'' [name])
      else if name \<in> set baseMembers then Inl (Errorf ''extension %q is a base-profile member'' [name])
      else if has_key payload name then Inl (Errorf ''extension %q is given more than once'' [name])
      else if Extension_Value ext = [] then Inl (Errorf ''extension %q has no value'' [name])
      else (case decodeStrictJSON (Extension_Value ext) of
          Inl err \<Rightarrow> Inl (Wrapf ''extension %q: %w'' [name] err)
        | Inr val \<Rightarrow>
            if val = JNull then Inl (Errorf ''extension %q must not be null'' [name])
            else (case checkExtensionNumbers A rng val (''$.'' @ name) of
                Some err \<Rightarrow> Inl err
              | None \<Rightarrow> Inr val)))"

section \<open>What the walks accept\<close>

text \<open>All strings and keys of a value are UTF-8.\<close>

fun text_ok :: "json \<Rightarrow> bool" where
  "text_ok (JStr s) = utf8_valid s"
| "text_ok (JArr vs) = (\<forall>v \<in> set vs. text_ok v)"
| "text_ok (JObj m) = (\<forall>(k, v) \<in> set m. utf8_valid k \<and> text_ok v)"
| "text_ok _ = True"

text \<open>No float and no integer outside the interoperable range.\<close>

fun numbers_ok :: "aac \<Rightarrow> json \<Rightarrow> bool" where
  "numbers_ok A (JNum n) = (\<not> IsFloat A n \<and> \<not> IsUnsafeInt A n)"
| "numbers_ok A (JArr vs) = (\<forall>v \<in> set vs. numbers_ok A v)"
| "numbers_ok A (JObj m) = (\<forall>(k, v) \<in> set m. numbers_ok A v)"
| "numbers_ok A _ = True"

text \<open>Keys are distinct in every object of the value.\<close>

fun keys_ok :: "json \<Rightarrow> bool" where
  "keys_ok (JArr vs) = (\<forall>v \<in> set vs. keys_ok v)"
| "keys_ok (JObj m) = (distinct (keys m) \<and> (\<forall>(k, v) \<in> set m. keys_ok v))"
| "keys_ok _ = True"

lemma json_ok_keys: "json_ok v \<Longrightarrow> keys_ok v"
  by (induction v rule: json_ok.induct) auto

lemma json_ok_text: "json_ok v \<Longrightarrow> text_ok v"
  by (induction v rule: json_ok.induct) auto

lemma first_err_object:
  assumes "range_ok rng" and "distinct (keys m)"
  shows "first_err (\<lambda>key. case map_of m key of None \<Rightarrow> None | Some item \<Rightarrow> f key item) (rng path (keys m)) = None \<longleftrightarrow>
     (\<forall>k v. (k, v) \<in> set m \<longrightarrow> f k v = None)"
proof -
  have "(\<forall>key \<in> set (keys m). (case map_of m key of None \<Rightarrow> None | Some item \<Rightarrow> f key item) = None) \<longleftrightarrow>
     (\<forall>k v. (k, v) \<in> set m \<longrightarrow> f k v = None)"
    using assms(2) by fastforce
  then show ?thesis using assms(1) by (simp add: first_err_None_iff)
qed

lemma first_err_list:
  "first_err (\<lambda>(i, x). f i x) (enumerate n vs) = None \<longleftrightarrow> (\<forall>k < length vs. f (n + k) (vs ! k) = None)"
  by (simp add: first_err_None_iff all_set_conv_all_nth nth_enumerate_eq)

lemma validatePayloadText_None_iff:
  "range_ok rng \<Longrightarrow> keys_ok v \<Longrightarrow> validatePayloadText rng v path = None \<longleftrightarrow> text_ok v"
proof (induction v arbitrary: path)
  case (JObj m)
  have IH: "validatePayloadText rng v p = None \<longleftrightarrow> text_ok v" if "(k, v) \<in> set m" for k v p
    using JObj that by fastforce
  have d: "distinct (keys m)" using JObj.prems by simp
  show ?case
    using IH by (auto simp: first_err_object [OF JObj.prems(1) d] split: if_splits)
next
  case (JArr vs)
  then show ?case by (auto simp: first_err_list all_set_conv_all_nth)
qed auto

lemma checkExtensionNumbers_None_iff:
  "range_ok rng \<Longrightarrow> keys_ok v \<Longrightarrow> checkExtensionNumbers A rng v path = None \<longleftrightarrow> numbers_ok A v"
proof (induction v arbitrary: path)
  case (JObj m)
  have IH: "checkExtensionNumbers A rng v p = None \<longleftrightarrow> numbers_ok A v" if "(k, v) \<in> set m" for k v p
    using JObj that by fastforce
  have d: "distinct (keys m)" using JObj.prems by simp
  show ?case
    using IH by (auto simp: first_err_object [OF JObj.prems(1) d])
next
  case (JArr vs)
  then show ?case by (auto simp: first_err_list all_set_conv_all_nth)
qed auto

text \<open>When an extension is admitted, whatever the iteration order.\<close>

definition extension_ok :: "aac \<Rightarrow> members \<Rightarrow> Extension \<Rightarrow> json \<Rightarrow> bool" where
  "extension_ok A payload ext v \<longleftrightarrow>
     extensionNamePattern (Extension_Name ext) \<and> Extension_Name ext \<notin> set baseMembers \<and>
     Extension_Name ext \<notin> set (keys payload) \<and>
     decodeStrictJSON (Extension_Value ext) = Inr v \<and> v \<noteq> JNull \<and> numbers_ok A v"

lemma decodeStrictJSON_Nil: "decodeStrictJSON [] = Inl io_EOF"
  by (simp add: decodeStrictJSON_def decode_fuel_def new_decoder_def Token.simps maxJSONDepth_def numeral_2_eq_2)

lemma extensionValue_Inr_iff:
  assumes "range_ok rng"
  shows "extensionValue A rng ext payload = Inr v \<longleftrightarrow> extension_ok A payload ext v"
proof (cases "decodeStrictJSON (Extension_Value ext)")
  case (Inl e)
  then show ?thesis
    by (auto simp: extensionValue_def extension_ok_def Let_def split: if_splits)
next
  case (Inr w)
  then have "keys_ok w" using decodeStrictJSON_sound json_ok_keys by blast
  then have "checkExtensionNumbers A rng w (''$.'' @ Extension_Name ext) = None \<longleftrightarrow> numbers_ok A w"
    by (rule checkExtensionNumbers_None_iff [OF assms])
  moreover have "Extension_Value ext \<noteq> []" using Inr by (auto simp: decodeStrictJSON_Nil)
  ultimately show ?thesis using Inr
    by (auto simp: extensionValue_def extension_ok_def Let_def split: if_splits option.splits)
qed

end
