(* ===== verification/Timestamp.thy ===== *)
theory Timestamp
  imports EmitModel
begin

text \<open>
  \<open>formatTimestamp\<close> (\<open>build.go\<close>) and what it uses of package \<open>time\<close>: the proleptic
  Gregorian date of an instant, and the two layouts. The day number of a date is the
  specification the date algorithm is checked against; the formatted text determines the
  instant up to its microsecond.
\<close>

section \<open>Dates\<close>

definition leap_year :: "int \<Rightarrow> bool" where
  "leap_year y \<longleftrightarrow> y mod 4 = 0 \<and> (y mod 100 \<noteq> 0 \<or> y mod 400 = 0)"

definition month_lengths :: "int \<Rightarrow> nat list" where
  "month_lengths y = [31, if leap_year y then 29 else 28, 31, 30, 31, 30, 31, 31, 30, 31, 30, 31]"

fun month_day :: "nat list \<Rightarrow> nat \<Rightarrow> nat \<times> nat" where
  "month_day [] n = (0, n)"
| "month_day (l # ls) n =
     (if n < l then (1, Suc n) else (case month_day ls (n - l) of (m, d) \<Rightarrow> (Suc m, d)))"

text \<open>Year and day of the year of the day \<open>d\<close> days after January 1 of year 1.\<close>

definition year_day :: "int \<Rightarrow> int \<times> nat" where
  "year_day d =
     (let n400 = d div 146097; r400 = d mod 146097;
          n100 = min (r400 div 36524) 3; r100 = r400 - 36524 * n100;
          n4 = r100 div 1461; r4 = r100 mod 1461;
          n1 = min (r4 div 365) 3
      in (400 * n400 + 100 * n100 + 4 * n4 + n1 + 1, nat (r4 - 365 * n1)))"

definition civil :: "int \<Rightarrow> int \<times> nat \<times> nat" where
  "civil d = (case year_day d of (y, yday) \<Rightarrow> (y, month_day (month_lengths y) yday))"

text \<open>The specification: the number of days before the year, and before the month.\<close>

definition days_before_year :: "int \<Rightarrow> int" where
  "days_before_year y = 365 * (y - 1) + (y - 1) div 4 - (y - 1) div 100 + (y - 1) div 400"

definition day_number :: "int \<times> nat \<times> nat \<Rightarrow> int" where
  "day_number ymd = (case ymd of (y, m, d) \<Rightarrow>
     days_before_year y + int (sum_list (take (m - 1) (month_lengths y))) + int d - 1)"

section \<open>Layouts\<close>

definition pad :: "nat \<Rightarrow> nat \<Rightarrow> string" where
  "pad w n = replicate (w - length (show_nat n)) CHR ''0'' @ show_nat n"

definition format_year :: "int \<Rightarrow> string" where
  "format_year y = (if y < 0 then CHR ''-'' # pad 4 (nat (- y)) else pad 4 (nat y))"

text \<open>\<open>2006-01-02T15:04:05\<close> of an instant in nanoseconds.\<close>

definition format_seconds :: "time \<Rightarrow> string" where
  "format_seconds t =
     (let secs = t div 1000000000; s = nat (secs mod 86400) in
      case civil (secs div 86400) of (y, m, d) \<Rightarrow>
        format_year y @ ''-'' @ pad 2 m @ ''-'' @ pad 2 d @ ''T'' @
        pad 2 (s div 3600) @ '':'' @ pad 2 (s div 60 mod 60) @ '':'' @ pad 2 (s mod 60))"

definition formatTimestamp :: "time \<Rightarrow> string" where
  "formatTimestamp timestamp =
     (let utc = timestamp - timestamp mod 1000 in
      if utc mod 1000000000 = 0 then format_seconds utc @ ''Z''
      else format_seconds utc @ ''.'' @ pad 6 (nat (utc mod 1000000000 div 1000)) @ ''Z'')"

lemmas [go_eval] = leap_year_def month_lengths_def year_day_def civil_def pad_def format_year_def
  format_seconds_def formatTimestamp_def digit_char_def

section \<open>The date algorithm\<close>

lemma month_day_sum:
  "n < sum_list ls \<Longrightarrow> month_day ls n = (m, d) \<Longrightarrow>
   1 \<le> m \<and> m \<le> length ls \<and> 1 \<le> d \<and> d \<le> ls ! (m - 1) \<and> sum_list (take (m - 1) ls) + d = Suc n"
proof (induction ls n arbitrary: m d rule: month_day.induct)
  case (2 l ls n)
  show ?case
  proof (cases "n < l")
    case True
    with "2.prems" show ?thesis by auto
  next
    case False
    with "2.prems" obtain m' where m: "month_day ls (n - l) = (m', d)" "m = Suc m'"
      by (auto split: prod.splits)
    from "2.IH" [OF False _ m(1)] "2.prems" False
    have "1 \<le> m' \<and> m' \<le> length ls \<and> 1 \<le> d \<and> d \<le> ls ! (m' - 1) \<and>
      sum_list (take (m' - 1) ls) + d = Suc (n - l)" by simp
    with m(2) False show ?thesis by (cases m') auto
  qed
qed simp

lemma year_day_number:
  assumes "year_day d = (y, n)"
  shows "days_before_year y + int n = d" and "n < (if leap_year y then 366 else 365)"
proof -
  define n400 r400 where "n400 = d div 146097" and "r400 = d mod 146097"
  define n100 where "n100 = min (r400 div 36524) 3"
  define r100 where "r100 = r400 - 36524 * n100"
  define n4 r4 where "n4 = r100 div 1461" and "r4 = r100 mod 1461"
  define n1 where "n1 = min (r4 div 365) 3"
  have y: "y = 400 * n400 + 100 * n100 + 4 * n4 + n1 + 1" and n: "n = nat (r4 - 365 * n1)"
  proof -
    have "year_day d = (400 * n400 + 100 * n100 + 4 * n4 + n1 + 1, nat (r4 - 365 * n1))"
      by (simp only: year_day_def Let_def n400_def r400_def n100_def r100_def n4_def r4_def n1_def)
    with assms show "y = 400 * n400 + 100 * n100 + 4 * n4 + n1 + 1" "n = nat (r4 - 365 * n1)"
      by (simp_all only: prod.inject)
  qed
  have d: "d = 146097 * n400 + r400" by (simp add: n400_def r400_def)
  have r400: "0 \<le> r400" "r400 < 146097" by (simp_all add: r400_def)
  have n100: "0 \<le> n100" "n100 \<le> 3" using r400 by (simp_all add: n100_def pos_imp_zdiv_nonneg_iff)
  have r100: "0 \<le> r100 \<and> r100 \<le> 36524 \<and> (r100 = 36524 \<longrightarrow> n100 = 3)"
  proof (cases "r400 div 36524 \<le> 3")
    case True
    then have "r100 = r400 mod 36524"
      by (simp add: r100_def n100_def min_absorb1 minus_mult_div_eq_mod)
    moreover have "0 \<le> r400 mod 36524" "r400 mod 36524 < 36524" by simp_all
    ultimately show ?thesis by linarith
  next
    case False
    then have "n100 = 3" by (simp add: n100_def)
    moreover from False have "146096 \<le> r400" by simp
    ultimately show ?thesis using r400 by (simp add: r100_def)
  qed
  have r100': "r100 = 1461 * n4 + r4" by (simp add: n4_def r4_def)
  have r4: "0 \<le> r4" "r4 < 1461" by (simp_all add: r4_def)
  have n4: "0 \<le> n4" "n4 \<le> 24" using r100 r100' r4 by linarith+
  have n1: "0 \<le> n1" "n1 \<le> 3" using r4 by (simp_all add: n1_def)
  have yd: "0 \<le> r4 - 365 * n1" "r4 - 365 * n1 \<le> 365" "r4 - 365 * n1 = 365 \<Longrightarrow> n1 = 3 \<and> r4 = 1460"
    using r4 unfolding n1_def by (auto simp: min_def)
  have q4: "(y - 1) div 4 = 100 * n400 + 25 * n100 + n4" using y n1 by simp
  have q100: "(y - 1) div 100 = 4 * n400 + n100" using y n1 n4 by simp
  have q400: "(y - 1) div 400 = n400" using y n1 n4 n100 by simp
  show "days_before_year y + int n = d"
    unfolding days_before_year_def q4 q100 q400
    using y n yd(1) d r100' r100_def by simp
  show "n < (if leap_year y then 366 else 365)"
  proof (cases "r4 - 365 * n1 = 365")
    case False
    with yd n show ?thesis by auto
  next
    case True
    with yd have last: "n1 = 3" "r4 = 1460" by auto
    have "y = 4 * (100 * n400 + 25 * n100 + n4 + 1)" using y last by simp
    then have m4: "y mod 4 = 0" by (simp only: mod_mult_self1_is_0)
    have "y mod 100 \<noteq> 0 \<or> y mod 400 = 0"
    proof (cases "n4 = 24")
      case True
      with r100' last r100 have "n100 = 3" by simp
      with True y last have "y = 400 * (n400 + 1)" by simp
      then have "y mod 400 = 0" by (simp only: mod_mult_self1_is_0)
      then show ?thesis ..
    next
      case False
      with n4 have "n4 < 24" by simp
      have eq: "y = 100 * (4 * n400 + n100) + (4 * n4 + 4)" using y last by simp
      have "y mod 100 = (4 * n4 + 4) mod 100" unfolding eq by (rule mod_mult_self4)
      then have "y mod 100 = 4 * n4 + 4" using n4 \<open>n4 < 24\<close> by simp
      with n4 show ?thesis by simp
    qed
    with m4 True n show ?thesis by (simp add: leap_year_def)
  qed
qed

lemma day_number_civil: "day_number (civil d) = d"
proof -
  obtain y n where yd: "year_day d = (y, n)" by (cases "year_day d")
  obtain m e where md: "month_day (month_lengths y) n = (m, e)" by (cases "month_day (month_lengths y) n")
  have "n < sum_list (month_lengths y)"
    using year_day_number(2) [OF yd] by (auto simp: month_lengths_def split: if_splits)
  from month_day_sum [OF this md] have "sum_list (take (m - 1) (month_lengths y)) + e = Suc n"
    by simp
  then have "int (sum_list (take (m - 1) (month_lengths y))) + int e = int n + 1"
    by (metis of_nat_Suc of_nat_add add.commute)
  with yd md year_day_number(1) [OF yd] show ?thesis
    by (simp add: day_number_def civil_def)
qed

section \<open>The text determines the instant to the microsecond\<close>

definition read_nat :: "string \<Rightarrow> nat" where
  "read_nat s = foldl (\<lambda>n c. 10 * n + (byte c - 48)) 0 s"

lemma byte_digit_char: "n < 10 \<Longrightarrow> byte (digit_char n) = 48 + n"
  by (simp add: digit_char_def)

lemma read_show_nat: "read_nat (show_nat n) = n"
proof (induction n rule: show_nat.induct)
  case (1 n)
  then show ?case
    by (cases "n < 10") (simp_all add: show_nat.simps [of n] read_nat_def byte_digit_char)
qed

lemma read_nat_zeros: "read_nat (replicate k CHR ''0'' @ s) = read_nat s"
  by (induction k) (simp_all add: read_nat_def)

lemma read_pad: "read_nat (pad w n) = n"
  by (simp add: pad_def read_nat_zeros read_show_nat)

lemma pad_inject: "pad w m = pad w n \<longleftrightarrow> m = n"
  by (metis read_pad)

lemma length_show_nat: "n < 10 ^ w \<Longrightarrow> 0 < w \<Longrightarrow> length (show_nat n) \<le> w"
proof (induction n arbitrary: w rule: show_nat.induct)
  case (1 n)
  show ?case
  proof (cases "n < 10")
    case True
    with "1.prems" show ?thesis by (simp add: show_nat.simps [of n])
  next
    case False
    then obtain v where v: "w = Suc v" "0 < v" using "1.prems" by (cases w; cases "w - 1") auto
    with "1.prems" have "n div 10 < 10 ^ v" by (simp add: less_mult_imp_div_less mult.commute)
    with "1.IH" [OF False _ v(2)] False v show ?thesis by (simp add: show_nat.simps [of n])
  qed
qed

lemma length_pad: "n < 10 ^ w \<Longrightarrow> 0 < w \<Longrightarrow> length (pad w n) = w"
  using length_show_nat [of n w] by (simp add: pad_def)

text \<open>The four-digit years.\<close>

definition year_9999 :: "time \<Rightarrow> bool" where
  "year_9999 t \<longleftrightarrow> 0 \<le> t \<and> t < 315537897600 * 1000000000"

lemma civil_bounds:
  assumes "0 \<le> d" and "d < 3652059" and "civil d = (y, m, e)"
  shows "1 \<le> y" "y \<le> 9999" "1 \<le> m" "m \<le> 12" "1 \<le> e" "e \<le> 31"
proof -
  obtain n where yd: "year_day d = (y, n)" and md: "month_day (month_lengths y) n = (m, e)"
    using assms(3) by (auto simp: civil_def split: prod.splits)
  have n: "n < sum_list (month_lengths y)"
    using year_day_number(2) [OF yd] by (auto simp: month_lengths_def split: if_splits)
  have num: "days_before_year y + int n = d" and nb: "n < 366"
    using year_day_number [OF yd] by (auto split: if_splits)
  define q where "q = y - 1"
  have S: "365 * q + q div 4 - q div 100 + q div 400 + int n = d"
    using num by (simp add: days_before_year_def q_def)
  show "1 \<le> y"
  proof (rule ccontr)
    assume "\<not> 1 \<le> y"
    then have "q \<le> -1" by (simp add: q_def)
    moreover from this have "q div 4 \<le> -1" "q div 400 \<le> -1" by simp_all
    moreover have "q - 99 \<le> 100 * (q div 100)" by presburger
    ultimately show False using S nb assms(1) by linarith
  qed
  show "y \<le> 9999"
  proof (rule ccontr)
    assume "\<not> y \<le> 9999"
    then have "9999 \<le> q" by (simp add: q_def)
    moreover from this have "2499 \<le> q div 4" "24 \<le> q div 400" by simp_all
    moreover have "100 * (q div 100) \<le> q" by presburger
    ultimately show False using S assms(2) by linarith
  qed
  have "length (month_lengths y) = 12" by (simp add: month_lengths_def)
  moreover have "\<forall>l \<in> set (month_lengths y). l \<le> 31" by (auto simp: month_lengths_def)
  ultimately show "1 \<le> m" "m \<le> 12" "1 \<le> e" "e \<le> 31"
    using month_day_sum [OF n md] nth_mem [of "m - 1" "month_lengths y"] by fastforce+
qed

lemma second_day_bounds:
  assumes "year_9999 t"
  shows "0 \<le> t div 1000000000 div 86400" "t div 1000000000 div 86400 < 3652059"
proof -
  have t: "0 \<le> t" "t < 315537897600 * 1000000000" using assms by (simp_all add: year_9999_def)
  define u where "u = t div 1000000000"
  have tu: "t = 1000000000 * u + t mod 1000000000" by (simp add: u_def)
  have m: "0 \<le> t mod 1000000000" "t mod 1000000000 < 1000000000" by simp_all
  have u: "0 \<le> u" "u < 315537897600" using t tu m by linarith+
  have ud: "u = 86400 * (u div 86400) + u mod 86400" by simp
  have um: "0 \<le> u mod 86400" "u mod 86400 < 86400" by simp_all
  show "0 \<le> t div 1000000000 div 86400" "t div 1000000000 div 86400 < 3652059"
    unfolding u_def [symmetric] using u ud um by linarith+
qed

lemma format_seconds_length:
  assumes "year_9999 t"
  shows "length (format_seconds t) = 19"
proof -
  obtain y m e where c: "civil (t div 1000000000 div 86400) = (y, m, e)"
    by (cases "civil (t div 1000000000 div 86400)")
  note cb = civil_bounds [OF second_day_bounds [OF assms] c]
  have "nat (t div 1000000000 mod 86400) < 86400" by simp
  then have "nat (t div 1000000000 mod 86400) div 3600 < 24" by simp
  with cb c show ?thesis
    by (simp add: format_seconds_def Let_def format_year_def length_pad)
qed

lemma format_year_inject: "0 \<le> y \<Longrightarrow> 0 \<le> y' \<Longrightarrow> format_year y = format_year y' \<longleftrightarrow> y = y'"
  by (simp add: format_year_def pad_inject eq_nat_nat_iff)

lemma hms_unique:
  fixes s s' :: nat
  assumes "s div 3600 = s' div 3600" "s div 60 mod 60 = s' div 60 mod 60" "s mod 60 = s' mod 60"
  shows "s = s'"
proof -
  have "s div 60 div 60 = s' div 60 div 60"
    using assms(1) by (simp add: div_mult2_eq [symmetric])
  with assms(2) have "s div 60 = s' div 60" by (metis div_mod_decomp)
  with assms(3) show ?thesis by (metis div_mod_decomp)
qed

lemma length_pad2: "n < 100 \<Longrightarrow> length (pad 2 n) = 2"
  using length_pad [of n 2] by simp

lemma fields_inject:
  assumes "length a = length a'"
    and "m < 100" "m' < 100" "d < 100" "d' < 100" "h < 100" "h' < 100" "i < 100" "i' < 100" "s < 100" "s' < 100"
    and "a @ ''-'' @ pad 2 m @ ''-'' @ pad 2 d @ ''T'' @ pad 2 h @ '':'' @ pad 2 i @ '':'' @ pad 2 s =
      a' @ ''-'' @ pad 2 m' @ ''-'' @ pad 2 d' @ ''T'' @ pad 2 h' @ '':'' @ pad 2 i' @ '':'' @ pad 2 s'"
  shows "a = a' \<and> m = m' \<and> d = d' \<and> h = h' \<and> i = i' \<and> s = s'"
  using assms by (simp add: length_pad2 pad_inject)

lemma format_seconds_inject:
  assumes t: "year_9999 t" and t': "year_9999 t'"
    and eq: "format_seconds t = format_seconds t'"
  shows "t div 1000000000 = t' div 1000000000"
proof -
  define u u' where "u = t div 1000000000" and "u' = t' div 1000000000"
  obtain y m e where c: "civil (u div 86400) = (y, m, e)" by (cases "civil (u div 86400)")
  obtain y' m' e' where c': "civil (u' div 86400) = (y', m', e')" by (cases "civil (u' div 86400)")
  note b = civil_bounds [OF second_day_bounds [OF t] c [unfolded u_def]]
  note b' = civil_bounds [OF second_day_bounds [OF t'] c' [unfolded u'_def]]
  have h: "nat (w mod 86400) div 3600 < 100" for w :: int
  proof -
    have "nat (w mod 86400) < 86400" by (simp add: nat_less_iff)
    then show ?thesis by simp
  qed
  have ms: "n mod 60 < 100" for n :: nat
    by (rule less_trans [of _ 60]) simp_all
  have y: "length (format_year y) = length (format_year y')"
    using b b' by (simp add: format_year_def length_pad)
  have "format_year y = format_year y' \<and> m = m' \<and> e = e' \<and>
    nat (u mod 86400) div 3600 = nat (u' mod 86400) div 3600 \<and>
    nat (u mod 86400) div 60 mod 60 = nat (u' mod 86400) div 60 mod 60 \<and>
    nat (u mod 86400) mod 60 = nat (u' mod 86400) mod 60"
  proof (rule fields_inject [OF y _ _ _ _ h h ms ms ms ms])
    show "m < 100" "m' < 100" "e < 100" "e' < 100" using b b' by simp_all
  qed (use eq c c' in \<open>simp only: format_seconds_def Let_def u_def u'_def prod.case\<close>)
  then have p: "y = y'" "m = m'" "e = e'"
    "nat (u mod 86400) div 3600 = nat (u' mod 86400) div 3600"
    "nat (u mod 86400) div 60 mod 60 = nat (u' mod 86400) div 60 mod 60"
    "nat (u mod 86400) mod 60 = nat (u' mod 86400) mod 60"
    using b b' by (simp_all add: format_year_inject)
  from p(4-6) have "nat (u mod 86400) = nat (u' mod 86400)" by (rule hms_unique)
  then have "u mod 86400 = u' mod 86400" by (simp add: eq_nat_nat_iff)
  moreover have "u div 86400 = u' div 86400"
    using day_number_civil [of "u div 86400"] day_number_civil [of "u' div 86400"] c c' p by simp
  ultimately show ?thesis unfolding u_def [symmetric] u'_def [symmetric] by (metis div_mod_decomp_int)
qed

lemma micro_bounds: "year_9999 t \<Longrightarrow> year_9999 (t - t mod 1000)"
  using mult_div_mod_eq [of 1000 t] pos_mod_sign [of 1000 t]
  by (auto simp: year_9999_def pos_imp_zdiv_nonneg_iff minus_mod_eq_mult_div)

lemma micro_split:
  "(t :: int) - t mod 1000 = 1000000000 * ((t - t mod 1000) div 1000000000) +
     1000 * ((t - t mod 1000) mod 1000000000 div 1000)"
proof -
  define m where "m = t div 1000"
  have a: "t - t mod 1000 = 1000 * m" by (simp add: m_def minus_mod_eq_mult_div)
  have b: "1000 * m mod 1000000000 = 1000 * (m mod 1000000)"
    using mult_mod_right [of 1000 m 1000000] by simp
  have c: "1000 * m div 1000000000 = m div 1000000" by simp
  have d: "1000 * (m mod 1000000) div 1000 = m mod 1000000" by simp
  show ?thesis unfolding a b c d using mult_div_mod_eq [of 1000000 m] by linarith
qed

lemma formatTimestamp_length:
  assumes "year_9999 t"
  shows "length (formatTimestamp t) = (if (t - t mod 1000) mod 1000000000 = 0 then 20 else 27)"
proof -
  have "nat ((t - t mod 1000) mod 1000000000 div 1000) < 10 ^ 6"
    by (simp add: nat_less_iff)
  then show ?thesis
    using format_seconds_length [OF micro_bounds [OF assms]]
    by (simp add: formatTimestamp_def Let_def length_pad del: power_numeral)
qed

lemma formatTimestamp_inject:
  assumes t: "year_9999 t" and t': "year_9999 t'"
  shows "formatTimestamp t = formatTimestamp t' \<longleftrightarrow> t div 1000 = t' div 1000"
proof
  assume "t div 1000 = t' div 1000"
  then have "t - t mod 1000 = t' - t' mod 1000" by (simp add: minus_mod_eq_mult_div)
  then show "formatTimestamp t = formatTimestamp t'" by (simp add: formatTimestamp_def)
next
  assume eq: "formatTimestamp t = formatTimestamp t'"
  define u u' where "u = t - t mod 1000" and "u' = t' - t' mod 1000"
  have l: "length (format_seconds u) = 19" "length (format_seconds u') = 19"
    using t t' by (simp_all add: u_def u'_def format_seconds_length micro_bounds)
  have z: "u mod 1000000000 = 0 \<longleftrightarrow> u' mod 1000000000 = 0"
    using arg_cong [OF eq, of length] formatTimestamp_length [OF t] formatTimestamp_length [OF t']
    by (simp add: u_def u'_def split: if_splits)
  have fs: "format_seconds u = format_seconds u'"
    and fr: "u mod 1000000000 \<noteq> 0 \<Longrightarrow> pad 6 (nat (u mod 1000000000 div 1000)) = pad 6 (nat (u' mod 1000000000 div 1000))"
    using eq z l by (auto simp: formatTimestamp_def Let_def u_def [symmetric] u'_def [symmetric] split: if_splits)
  have "u div 1000000000 = u' div 1000000000"
    using t t' fs by (auto simp: u_def u'_def intro: format_seconds_inject micro_bounds)
  moreover have "u mod 1000000000 div 1000 = u' mod 1000000000 div 1000"
    using fr z by (cases "u mod 1000000000 = 0") (simp_all add: pad_inject eq_nat_nat_iff pos_imp_zdiv_nonneg_iff)
  ultimately have "u = u'"
    using micro_split [of t] micro_split [of t'] by (simp add: u_def u'_def)
  then have "1000 * (t div 1000) = 1000 * (t' div 1000)"
    by (simp add: u_def u'_def minus_mod_eq_mult_div)
  then show "t div 1000 = t' div 1000" by simp
qed


text \<open>The text is ASCII.\<close>

lemma show_nat_ascii: "c \<in> set (show_nat n) \<Longrightarrow> byte c < 128"
proof (induction n rule: show_nat.induct)
  case (1 n)
  show ?case
  proof (cases "n < 10")
    case True
    with "1.prems" show ?thesis by (simp add: show_nat.simps [of n] byte_digit_char)
  next
    case False
    with "1.prems" have "c \<in> set (show_nat (n div 10)) \<or> c = digit_char (n mod 10)"
      by (subst (asm) show_nat.simps) auto
    with "1.IH" False show ?thesis by (auto simp: byte_digit_char)
  qed
qed

definition ascii :: "string \<Rightarrow> bool" where
  "ascii s \<longleftrightarrow> (\<forall>c \<in> set s. byte c < 128)"

lemma ascii_append: "ascii (s @ t) \<longleftrightarrow> ascii s \<and> ascii t"
  by (auto simp: ascii_def)

lemma ascii_separators: "ascii ''-''" "ascii ''T''" "ascii '':''" "ascii ''.''" "ascii ''Z''"
  by (simp_all add: ascii_def)

lemma ascii_pad: "ascii (pad w n)"
  unfolding ascii_def by (auto simp: pad_def intro: show_nat_ascii)

lemma ascii_year: "ascii (format_year y)"
  using ascii_pad [of 4] by (simp add: format_year_def ascii_def)

lemma ascii_seconds: "ascii (format_seconds t)"
  unfolding format_seconds_def Let_def
  by (split prod.split, split prod.split) (simp only: ascii_append ascii_separators ascii_pad ascii_year simp_thms)

lemma ascii_timestamp: "ascii (formatTimestamp t)"
  unfolding formatTimestamp_def Let_def
  by (simp only: ascii_append ascii_separators ascii_pad ascii_seconds simp_thms split: if_split)

lemma formatTimestamp_utf8 [simp]: "utf8_valid (formatTimestamp t)"
  using ascii_timestamp [of t] by (auto simp: ascii_def intro: utf8_valid_all_ascii)

end
