(* ===== verification/VerifyCapsule.thy ===== *)
theory VerifyCapsule
  imports EmitModel JsonFacts
begin

text \<open>
  Verification and digests (\<open>verify.go\<close>, \<open>digest.go\<close>). The Class 1 verifier, the Producer
  Envelope verifier and the canonical digest are functions of the imported AAC module,
  found in the record \<open>A\<close> of type \<open>aac\<close>; what surrounds them is the code's.
\<close>

section \<open>digest.go\<close>

text \<open>\<open>marshalDigestValue\<close> marshals caller-owned JSON and decodes it strictly.\<close>

definition marshalDigestValue :: "go_any \<Rightarrow> json res" where
  "marshalDigestValue val =
     (case jsonv2_Marshal val of
        Inl err \<Rightarrow> Inl (Wrapf ''marshal JSON digest input: %w'' [] err)
      | Inr encoded \<Rightarrow>
          (case decodeStrictJSON encoded of
             Inl err \<Rightarrow> Inl (Wrapf ''decode JSON digest input: %w'' [] err)
           | Inr decoded \<Rightarrow> Inr decoded))"

definition DigestJSON :: "aac \<Rightarrow> go_any \<Rightarrow> string res" where
  "DigestJSON A val =
     (case marshalDigestValue val of
        Inl err \<Rightarrow> Inl err
      | Inr decoded \<Rightarrow>
          (case JSONDigest A decoded of
             Inl err \<Rightarrow> Inl (Wrapf ''canonicalize JSON digest input: %w'' [] err)
           | Inr digest \<Rightarrow> Inr digest))"

section \<open>verify.go\<close>

definition show_int :: "int \<Rightarrow> string" where
  "show_int i = (if i < 0 then CHR ''-'' # show_nat (nat (- i)) else show_nat (nat i))"

fun join_parts :: "string list \<Rightarrow> string" where
  "join_parts [] = []"
| "join_parts [x] = x"
| "join_parts (x # xs) = x @ ''; '' @ join_parts xs"

text \<open>\<open>(e *Class1Error) Error()\<close>.\<close>

definition Class1Error_text :: "finding list \<Rightarrow> string" where
  "Class1Error_text findings =
     ''AAC Class 1 verification failed: '' @
     join_parts (map (\<lambda>f.
       ''check='' @ (case Finding_Check f of None \<Rightarrow> ''none'' | Some n \<Rightarrow> show_int n) @
       '' severity='' @ Finding_Severity f @ '' code='' @ Finding_Code f @
       '' detail='' @ Finding_Detail f) findings)"

definition newClass1Error :: "finding list \<Rightarrow> go_error" where
  "newClass1Error findings = Class1Error findings"

definition seededRegistries :: registries where
  "seededRegistries =
     [(''verdict_class'',
        [VerdictExecuted, VerdictBlocked, VerdictHITLDispatched,
         VerdictDenied, VerdictTimeout, VerdictErrored,
         VerdictEngineFailure, VerdictDeferred, VerdictNeedsDecision,
         VerdictExpired, VerdictEscalated, VerdictResolved, VerdictEpochBoundary]),
      (''disposition.decision'', [DecisionAccept, DecisionReject, DecisionNeedsInput, DecisionDeferred]),
      (''effect.type'', [''write_order'', ''send_payment'', ''inference_completion'']),
      (''irreversibility_class'',
        [IrreversibilityTwoWay, IrreversibilityOneWayRecoverable,
         IrreversibilityOneWayConsequential, IrreversibilityOneWayTerminal]),
      (''effect_attestation'', [AttestationGateExecuted, AttestationRuntimeClaimed, ''host_served_observed'']),
      (''chain.relation'', [ChainConfirms, ChainSupersedes, ChainEpochOpens, ChainDuplicates, ''follows'']),
      (''citation_purpose'',
        [''acted_on'', ''responds_to'', ''ran_under'', ''corroborates_source_time'',
         ''counterparty_half'', ''counterparty_inclusion''])]"

definition knownRegistries :: registries where
  "knownRegistries = seededRegistries"

definition verifyClass1 :: "aac \<Rightarrow> members \<Rightarrow> verification" where
  "verifyClass1 A payload = verify_Verify A payload knownRegistries"

definition IsV4IrreversibilityClass :: "IrreversibilityClass \<Rightarrow> bool" where
  "IsV4IrreversibilityClass val =
     (case map_of knownRegistries ''irreversibility_class'' of None \<Rightarrow> False | Some vs \<Rightarrow> val \<in> set vs)"

definition no_verification :: verification where
  "no_verification = \<lparr>Verification_OK = False, Verification_CapsuleID = None, Verification_Findings = []\<rparr>"

text \<open>
  \<open>VerifyCapsule\<close> returns a result and an error; after Class 1 findings it returns both.
  A missing member reads as the nil interface, which equals no string.
\<close>

definition VerifyCapsule :: "aac \<Rightarrow> bytes \<Rightarrow> verification \<times> go_error option" where
  "VerifyCapsule A data =
     (case DecodePayload data of
        Inl err \<Rightarrow> (no_verification, Some err)
      | Inr payload \<Rightarrow>
          if map_of payload ''format_version'' \<noteq> Some (JStr FormatVersion) \<or>
             map_of payload ''canonicalization_id'' \<noteq> Some (JStr CanonicalizationID)
          then (no_verification,
            Some (Errorf ''unsupported Capsule profile: only AAC format 4 with canonicalization_id %q is supported''
                    [CanonicalizationID]))
          else
            (let result = verifyClass1 A payload in
             if \<not> Verification_OK result
             then (result, Some (newClass1Error (Verification_Findings result)))
             else (result, None)))"

definition VerifyEnvelope :: "aac \<Rightarrow> string \<Rightarrow> bytes \<Rightarrow> envelope_verification \<times> go_error option" where
  "VerifyEnvelope A capsuleID data =
     (let result = envelope_Verify A capsuleID data in
      if \<not> Envelope_OK result
      then (result, Some (Errorf ''Producer Envelope verification failed: %s''
              [join_parts (map (\<lambda>f. Finding_Code f @ '': '' @ Finding_Detail f) (Envelope_Findings result))]))
      else (result, None))"

lemmas [go_eval] = marshalDigestValue_def DigestJSON_def newClass1Error_def verifyClass1_def
  no_verification_def VerifyCapsule_def VerifyEnvelope_def

section \<open>What verification accepts\<close>

text \<open>
  \<open>verifies A data cid\<close>: the test the construction functions and \<open>Sign\<close> make before they
  trust bytes under an identifier.
\<close>

definition verifies :: "aac \<Rightarrow> bytes \<Rightarrow> string \<Rightarrow> bool" where
  "verifies A data cid \<longleftrightarrow>
     (case VerifyCapsule A data of (v, err) \<Rightarrow> err = None \<and> Verification_CapsuleID v = Some cid)"

lemma VerifyCapsule_ok_iff:
  "VerifyCapsule A data = (v, None) \<longleftrightarrow>
     (\<exists>payload. DecodePayload data = Inr payload \<and>
        map_of payload ''format_version'' = Some (JStr FormatVersion) \<and>
        map_of payload ''canonicalization_id'' = Some (JStr CanonicalizationID) \<and>
        v = verifyClass1 A payload \<and> Verification_OK v)"
  by (auto simp: VerifyCapsule_def Let_def split: sum.splits)

lemma verifies_iff:
  "verifies A data cid \<longleftrightarrow>
     (\<exists>payload. DecodePayload data = Inr payload \<and>
        map_of payload ''format_version'' = Some (JStr FormatVersion) \<and>
        map_of payload ''canonicalization_id'' = Some (JStr CanonicalizationID) \<and>
        Verification_OK (verifyClass1 A payload) \<and>
        Verification_CapsuleID (verifyClass1 A payload) = Some cid)"
  by (auto simp: verifies_def VerifyCapsule_def Let_def split: sum.splits)

lemma DecodePayload_Inr_iff: "DecodePayload data = Inr m \<longleftrightarrow> decodeStrictJSON data = Inr (JObj m)"
  by (auto simp: DecodePayload_def split: sum.splits option.splits)

lemma DecodePayload_ok:
  "DecodePayload data = Inr m \<Longrightarrow> json_ok (JObj m) \<and> json_depth (JObj m) \<le> maxJSONDepth"
  using decodeStrictJSON_sound [of data "JObj m"] by (simp add: DecodePayload_Inr_iff del: json_ok.simps json_depth.simps)

lemma marshalDigestValue_ok:
  "marshalDigestValue v = Inr j \<Longrightarrow> json_ok j \<and> json_depth j \<le> maxJSONDepth"
  by (auto simp: marshalDigestValue_def dest: decodeStrictJSON_sound split: sum.splits)

section \<open>What the code relies on in the imported module\<close>

lemma size_element: "(x :: json) \<in> set xs \<Longrightarrow> size x < Suc (size_list size xs)"
  by (induction xs) auto

lemma size_member:
  "(kv :: string \<times> json) \<in> set m \<Longrightarrow> size (snd kv) < Suc (size_list (size_prod (\<lambda>x. 0) size) m)"
  by (induction m) auto

text \<open>Equality of JSON values up to the order of object members.\<close>

function json_eq :: "json \<Rightarrow> json \<Rightarrow> bool" where
  "json_eq (JArr xs) w = (case w of JArr ys \<Rightarrow> list_all2 json_eq xs ys | _ \<Rightarrow> False)"
| "json_eq (JObj m) w = (case w of
      JObj n \<Rightarrow> set (keys m) = set (keys n) \<and>
        (\<forall>kv \<in> set m. \<forall>kw \<in> set n. fst kv = fst kw \<longrightarrow> json_eq (snd kv) (snd kw))
    | _ \<Rightarrow> False)"
| "json_eq JNull w = (w = JNull)"
| "json_eq (JBool b) w = (w = JBool b)"
| "json_eq (JNum n) w = (w = JNum n)"
| "json_eq (JStr s) w = (w = JStr s)"
  by pat_completeness auto

termination
  by (relation "measure (\<lambda>(v, w). size v)") (auto dest: size_element size_member)

lemma json_eq_members:
  assumes "json_eq (JObj m) (JObj n)"
  shows "map_of m k = None \<longleftrightarrow> map_of n k = None"
    and "map_of m k = Some v \<Longrightarrow> \<exists>w. map_of n k = Some w \<and> json_eq v w"
proof -
  show none: "map_of m k = None \<longleftrightarrow> map_of n k = None"
    using assms by (simp add: map_of_eq_None_iff)
  assume "map_of m k = Some v"
  with none obtain w where "map_of n k = Some w" by (cases "map_of n k") auto
  moreover from this \<open>map_of m k = Some v\<close> have "json_eq v w"
    using assms by (fastforce dest: map_of_SomeD)
  ultimately show "\<exists>w. map_of n k = Some w \<and> json_eq v w" by blast
qed

lemma json_eq_string:
  assumes "json_eq (JObj m) (JObj n)"
  shows "map_of m k = Some (JStr s) \<longleftrightarrow> map_of n k = Some (JStr s)"
proof
  assume "map_of m k = Some (JStr s)"
  with json_eq_members(2) [OF assms this] show "map_of n k = Some (JStr s)" by auto
next
  assume n: "map_of n k = Some (JStr s)"
  with json_eq_members(1) [OF assms, of k] obtain v where v: "map_of m k = Some v"
    by (cases "map_of m k") auto
  with json_eq_members(2) [OF assms v] n have "json_eq v (JStr s)" by auto
  then have "v = JStr s" by (cases v) auto
  with v show "map_of m k = Some (JStr s)" by simp
qed

lemma json_eq_depth: "json_eq v w \<Longrightarrow> json_depth v = json_depth w"
proof (induction v w rule: json_eq.induct)
  case (1 xs w)
  then obtain ys where w: "w = JArr ys" "list_all2 json_eq xs ys" by (cases w) auto
  have "list_all2 (\<lambda>x y. json_depth x = json_depth y) xs ys"
    by (rule list.rel_mono_strong [OF w(2)]) (use "1.IH" w(1) in blast)
  then have "foldr (\<lambda>v n. max (json_depth v) n) xs 0 = foldr (\<lambda>v n. max (json_depth v) n) ys 0"
    by (induction xs ys rule: list_all2_induct) simp_all
  then show ?case by (simp add: w(1))
next
  case (2 m w)
  then obtain n where w: "w = JObj n" by (cases w) auto
  have keys: "set (keys m) = set (keys n)" using "2.prems" by (simp add: w)
  have same: "json_depth (snd kv) = json_depth (snd kw)" if "kv \<in> set m" "kw \<in> set n" "fst kv = fst kw" for kv kw
    using "2.IH" [OF w that] "2.prems" that w by auto
  have "json_depth (JObj m) \<le> k \<longleftrightarrow> json_depth (JObj n) \<le> k" if "k \<ge> 1" for k
  proof -
    have "(\<forall>kv \<in> set m. json_depth (snd kv) \<le> k - 1) \<longleftrightarrow> (\<forall>kw \<in> set n. json_depth (snd kw) \<le> k - 1)"
    proof (intro iffI ballI)
      fix kw assume *: "\<forall>kv \<in> set m. json_depth (snd kv) \<le> k - 1" "kw \<in> set n"
      then have "fst kw \<in> set (keys m)" by (simp add: keys del: set_map) simp
      then obtain kv where "kv \<in> set m" "fst kv = fst kw" by auto
      with * same show "json_depth (snd kw) \<le> k - 1" by metis
    next
      fix kv assume *: "\<forall>kw \<in> set n. json_depth (snd kw) \<le> k - 1" "kv \<in> set m"
      then have "fst kv \<in> set (keys n)" by (simp add: keys [symmetric] del: set_map) simp
      then obtain kw where "kw \<in> set n" "fst kw = fst kv" by auto
      with * same show "json_depth (snd kv) \<le> k - 1" by metis
    qed
    then show ?thesis using depth_obj_iff [OF that] by (simp only: case_prod_unfold)
  qed
  from this [of "json_depth (JObj m)"] this [of "json_depth (JObj n)"] show ?case by (simp add: w)
qed simp_all

text \<open>
  The documented behaviour of the imported module, one predicate per promise.
  \<open>hex_ids\<close>: identifiers and JSON digests are lowercase hexadecimal SHA-256 texts.
  \<open>jcs_lossless\<close>: canonical bytes decode to the value they were made from.
  \<open>verify_by_value\<close>: Class 1 verification looks at the value, not at the order in which its
  members were assigned. \<open>verify_reports_id\<close>: a payload that passes has its identifier
  reported, and it is the one the payload carries.
\<close>

definition hex_ids :: "aac \<Rightarrow> bool" where
  "hex_ids A \<longleftrightarrow> (\<forall>m cid. ComputeCapsuleID A m = Inr cid \<longrightarrow> hexDigestPattern cid) \<and>
     (\<forall>v digest. JSONDigest A v = Inr digest \<longrightarrow> hexDigestPattern digest)"

definition jcs_lossless :: "aac \<Rightarrow> bool" where
  "jcs_lossless A \<longleftrightarrow>
     (\<forall>v enc. json_ok v \<longrightarrow> json_depth v \<le> maxJSONDepth \<longrightarrow> JCS A v = Inr enc \<longrightarrow>
        (\<exists>w. decodeStrictJSON enc = Inr w \<and> json_eq v w))"

text \<open>\<open>jcs_faithful\<close>: canonical bytes are the text of no other value, however deep it is.\<close>

definition jcs_faithful :: "aac \<Rightarrow> bool" where
  "jcs_faithful A \<longleftrightarrow>
     (\<forall>v enc w. json_ok v \<longrightarrow> JCS A v = Inr enc \<longrightarrow> decodeStrictJSON enc = Inr w \<longrightarrow> json_eq v w)"

definition verify_by_value :: "aac \<Rightarrow> bool" where
  "verify_by_value A \<longleftrightarrow>
     (\<forall>m n R. json_eq (JObj m) (JObj n) \<longrightarrow> verify_Verify A m R = verify_Verify A n R)"

definition verify_reports_id :: "aac \<Rightarrow> bool" where
  "verify_reports_id A \<longleftrightarrow>
     (\<forall>m R. Verification_OK (verify_Verify A m R) \<longrightarrow>
        (\<exists>cid. Verification_CapsuleID (verify_Verify A m R) = Some cid \<and>
           map_of m ''capsule_id'' = Some (JStr cid)))"

text \<open>
  Bytes made by \<open>JCS\<close> from a well-formed payload that passed Class 1 verify again, under
  the identifier the payload carries.
\<close>

lemma jcs_verifies:
  assumes A: "jcs_lossless A" "verify_by_value A" "verify_reports_id A"
    and m: "json_ok (JObj m)" "json_depth (JObj m) \<le> maxJSONDepth" "JCS A (JObj m) = Inr enc"
    and profile: "map_of m ''format_version'' = Some (JStr FormatVersion)"
      "map_of m ''canonicalization_id'' = Some (JStr CanonicalizationID)"
      "map_of m ''capsule_id'' = Some (JStr cid)"
    and ok: "Verification_OK (verifyClass1 A m)"
  shows "verifies A enc cid"
proof -
  from A(1) m obtain w where w: "decodeStrictJSON enc = Inr w" "json_eq (JObj m) w"
    unfolding jcs_lossless_def by blast
  then obtain n where n: "w = JObj n" by (cases w) auto
  with w(2) A(2) have same: "verifyClass1 A n = verifyClass1 A m"
    by (simp add: verify_by_value_def verifyClass1_def del: json_eq.simps)
  note str = json_eq_string [OF w(2) [unfolded n]]
  from ok A(3) profile(3) have "Verification_CapsuleID (verifyClass1 A m) = Some cid"
    unfolding verify_reports_id_def verifyClass1_def by (metis json.inject(3) option.inject)
  with ok same w(1) n profile str show ?thesis
    by (auto simp: verifies_iff DecodePayload_Inr_iff)
qed

text \<open>A value beyond the depth limit is decoded from no bytes, not even under another order of members.\<close>

lemma too_deep_undecodable:
  assumes "json_depth (JObj m) > maxJSONDepth" and "json_eq (JObj m) (JObj w)"
  shows "DecodePayload data \<noteq> Inr w"
  using assms(1) json_eq_depth [OF assms(2)] DecodePayload_ok [of data w] by auto

lemma too_deep_unverifiable:
  assumes "jcs_faithful A" and "json_ok (JObj m)" and "JCS A (JObj m) = Inr enc" and "json_depth (JObj m) > maxJSONDepth"
  shows "\<not> verifies A enc cid"
proof
  assume "verifies A enc cid"
  then obtain w where "DecodePayload enc = Inr w"
    by (auto simp: verifies_def VerifyCapsule_def split: sum.splits)
  moreover from this assms(1-3) have "json_eq (JObj m) (JObj w)"
    unfolding jcs_faithful_def DecodePayload_Inr_iff by blast
  ultimately show False using too_deep_undecodable assms(4) by blast
qed

end
