(* ===== verification/Build.thy ===== *)
theory Build
  imports Validate Extension Timestamp VerifyCapsule
begin

text \<open>
  \<open>Build\<close> (\<open>build.go\<close>): the payload of a Capsule from a validated input. Each function
  that renders a struct to a map is one definition; \<open>Build\<close> composes them in the order of
  the code. A Go map literal followed by conditional assignments becomes \<open>put_if\<close>.
\<close>

section \<open>Rendering structs\<close>

definition put_if :: "bool \<Rightarrow> string \<Rightarrow> json \<Rightarrow> members \<Rightarrow> members" where
  "put_if b k v m = (if b then AList.update k v m else m)"

text \<open>Assign when the string is not empty, or when the pointer is not nil.\<close>

definition put_str :: "string \<Rightarrow> string \<Rightarrow> members \<Rightarrow> members" where
  "put_str k s m = put_if (s \<noteq> '''') k (JStr s) m"

definition put_opt :: "string \<Rightarrow> ('a \<Rightarrow> json) \<Rightarrow> 'a option \<Rightarrow> members \<Rightarrow> members" where
  "put_opt k f x m = (case x of None \<Rightarrow> m | Some a \<Rightarrow> AList.update k (f a) m)"

definition digestReferenceMap :: "digestReference \<Rightarrow> members" where
  "digestReferenceMap r =
     put_str ''slot'' (digestReference_Slot r)
       [(''type'', JStr (digestReference_Type r)),
        (''digest_alg'', JStr (digestReference_DigestAlg r)),
        (''digest'', JStr (digestReference_Digest r))]"

text \<open>The \<open>digestReference\<close> literal with the three fields of a \<open>Reference\<close>.\<close>

definition plain_reference :: "Reference \<Rightarrow> digestReference" where
  "plain_reference r =
     \<lparr>digestReference_Type = Reference_Type r, digestReference_DigestAlg = Reference_DigestAlg r,
      digestReference_Digest = Reference_Digest r, digestReference_Slot = ''''\<rparr>"

definition provenanceModeMap :: "ProvenanceMode \<Rightarrow> members" where
  "provenanceModeMap mode =
     put_str ''time_rung'' (ProvenanceMode_TimeRung mode)
    (put_str ''imported_at'' (ProvenanceMode_ImportedAt mode)
    (put_str ''import_batch'' (ProvenanceMode_ImportBatch mode)
    (put_str ''source_asserted_at'' (ProvenanceMode_SourceAssertedAt mode)
    (put_opt ''source_ref'' (\<lambda>r. JObj (digestReferenceMap (plain_reference r))) (ProvenanceMode_SourceRef mode)
       [(''mode'', JStr (ProvenanceMode_Mode mode))]))))"

definition computeAttestationMap :: "ComputeAttestation option \<Rightarrow> computeAttestation option \<Rightarrow> members" where
  "computeAttestationMap attestation binding =
     (let m1 = (case attestation of
            None \<Rightarrow> []
          | Some c \<Rightarrow>
              put_str ''runtime'' (Compute_Runtime c)
             (put_str ''agent_output_digest'' (Compute_AgentOutputDigest c)
             (put_str ''agent_input_digest'' (Compute_AgentInputDigest c) [])));
          m2 = (case binding of
            None \<Rightarrow> m1
          | Some b \<Rightarrow>
              (case CarriedArtifact b of
                 None \<Rightarrow> m1
               | Some r \<Rightarrow>
                   AList.update ''carried_input_digest'' (JStr (CarriedInputDigest b))
                     (AList.update ''carried_artifact'' (JObj (digestReferenceMap r)) m1)))
      in case binding of
           None \<Rightarrow> m2
         | Some b \<Rightarrow>
             put_if (ComposedMembers b \<noteq> []) ''composed_members''
               (JArr (map (\<lambda>r. JObj (digestReferenceMap r)) (ComposedMembers b))) m2)"

text \<open>The nil map, returned when nothing is attested, is \<open>None\<close>.\<close>

definition modelAttestationMap :: "Input \<Rightarrow> members option" where
  "modelAttestationMap input =
     (let m1 = (case Input_Model input of
            None \<Rightarrow> []
          | Some m \<Rightarrow> put_str ''provider'' (Model_Provider m) (put_str ''model_id'' (Model_ModelID m) []));
          compute = computeAttestationMap (Input_Compute input) (Input_binding input);
          m2 = put_if (compute \<noteq> []) ''compute_attestation'' (JObj compute) m1
      in if m2 = [] then None else Some m2)"

definition dispositionMap :: "Disposition \<Rightarrow> members" where
  "dispositionMap d =
     put_str ''reason_digest'' (Disposition_ReasonDigest d)
    (put_str ''verdict_class'' (Disposition_VerdictClass d)
       [(''decision'', JStr (Disposition_Decision d)),
        (''approver'', JStr (Disposition_Approver d)),
        (''human_disposed'', JBool (Disposition_HumanDisposed d))])"

definition effectMap :: "Effect \<Rightarrow> members" where
  "effectMap e =
     put_str ''external_ref'' (Effect_ExternalRef e)
    (put_str ''response_digest'' (Effect_ResponseDigest e)
    (put_str ''request_digest'' (Effect_RequestDigest e)
    (put_str ''effect_attestation'' (Effect_EffectAttestation e)
       [(''type'', JStr (Effect_Type e)),
        (''status'', JStr (Effect_Status e)),
        (''irreversibility_class'', JStr (Effect_IrreversibilityClass e))])))"

definition effect_mode :: "Effect option \<Rightarrow> EffectMode" where
  "effect_mode effect = (case effect of
       None \<Rightarrow> EffectModeNotApplicable
     | Some e \<Rightarrow>
         if Effect_Status e \<noteq> EffectPlanned
         then (if Effect_Status e = EffectConfirmed then EffectModeConfirmed
               else EffectModeDispatchedUnconfirmed)
         else EffectModeNotApplicable)"

definition assuranceMap :: "Effect option \<Rightarrow> Chain option \<Rightarrow> members" where
  "assuranceMap effect chain =
     [(''effect_mode'', JStr (effect_mode effect)),
      (''attestation_mode'', JStr AttestationModeSelfAttested),
      (''ledger_mode'', JStr (if chain \<noteq> None then LedgerModeChained else LedgerModeStandalone))]"

definition chainMap :: "Chain \<Rightarrow> members" where
  "chainMap c =
     [(''parent_capsule_id'', JStr (Chain_ParentCapsuleID c)), (''relation'', JStr (Chain_Relation c))]"

section \<open>References and extensions\<close>

definition reference_value :: "Reference \<Rightarrow> json res" where
  "reference_value r =
     (let val = put_str ''citation_purpose'' (Reference_CitationPurpose r)
                  (digestReferenceMap (plain_reference r)) in
      case Reference_LogCoordinates r of
        None \<Rightarrow> Inr (JObj val)
      | Some coords \<Rightarrow>
          (case marshalDigestValue coords of
             Inl err \<Rightarrow> Inl (Wrapf ''reference log coordinates: %w'' [] err)
           | Inr coordinates \<Rightarrow> Inr (JObj (AList.update ''log_coordinates'' coordinates val))))"

fun reference_values :: "Reference list \<Rightarrow> json list res" where
  "reference_values [] = Inr []"
| "reference_values (r # rs) =
     (case reference_value r of
        Inl err \<Rightarrow> Inl err
      | Inr v \<Rightarrow> (case reference_values rs of Inl err \<Rightarrow> Inl err | Inr vs \<Rightarrow> Inr (v # vs)))"

fun add_extensions :: "aac \<Rightarrow> range_order \<Rightarrow> Extension list \<Rightarrow> members \<Rightarrow> members res" where
  "add_extensions A rng [] payload = Inr payload"
| "add_extensions A rng (ext # exts) payload =
     (case extensionValue A rng ext payload of
        Inl err \<Rightarrow> Inl err
      | Inr val \<Rightarrow> add_extensions A rng exts (AList.update (Extension_Name ext) val payload))"

section \<open>Build\<close>

text \<open>The members \<open>Build\<close> assigns before the references.\<close>

definition base_payload :: "Input \<Rightarrow> members" where
  "base_payload input =
     put_opt ''model_attestation'' JObj (modelAttestationMap input)
    (put_opt ''chain'' (\<lambda>c. JObj (chainMap c)) (Input_Chain input)
    (put_opt ''effect'' (\<lambda>e. JObj (effectMap e)) (Input_Effect input)
    (put_opt ''disposition'' (\<lambda>d. JObj (dispositionMap d)) (Input_Disposition input)
    (put_opt ''provenance_mode'' (\<lambda>m. JObj (provenanceModeMap m)) (Input_ProvenanceMode input)
    (put_str ''provenance'' (Input_Provenance input)
    (put_str ''domain'' (Input_Domain input)
    (put_str ''epoch_id'' (Input_EpochID input)
       [(''spec_version'', JStr (if Input_specVersion input \<noteq> '''' then Input_specVersion input else SpecVersion)),
        (''format_version'', JStr FormatVersion),
        (''canonicalization_id'', JStr CanonicalizationID),
        (''action_id'', JStr (Input_ActionID input)),
        (''action_type'', JStr (Input_ActionType input)),
        (''operator'', JStr (Input_Operator input)),
        (''developer'', JStr (Input_Developer input)),
        (''timestamp'', JStr (formatTimestamp (Input_Timestamp input))),
        (''assurance'', JObj (assuranceMap (Input_Effect input) (Input_Chain input)))])))))))"

text \<open>The payload before its identifier: base members, references, extensions.\<close>

definition full_payload :: "aac \<Rightarrow> range_order \<Rightarrow> Input \<Rightarrow> members res" where
  "full_payload A rng input =
     (case Input_References input of
        None \<Rightarrow> add_extensions A rng (Input_Extensions input) (base_payload input)
      | Some refs \<Rightarrow>
          (case reference_values refs of
             Inl err \<Rightarrow> Inl err
           | Inr vs \<Rightarrow>
               add_extensions A rng (Input_Extensions input)
                 (AList.update ''references'' (JArr vs) (base_payload input))))"

definition Build :: "aac \<Rightarrow> range_order \<Rightarrow> Input \<Rightarrow> BuiltPayload res" where
  "Build A rng input =
     (case validateInput rng input of
        Some err \<Rightarrow> Inl err
      | None \<Rightarrow>
     (case full_payload A rng input of
        Inl err \<Rightarrow> Inl err
      | Inr payload \<Rightarrow>
     (case validatePayloadText rng (JObj payload) ''$'' of
        Some err \<Rightarrow> Inl err
      | None \<Rightarrow>
     (case ComputeCapsuleID A payload of
        Inl err \<Rightarrow> Inl (Wrapf ''compute capsule id: %w'' [] err)
      | Inr capsuleID \<Rightarrow>
          (let payload = AList.update ''capsule_id'' (JStr capsuleID) payload;
               class1 = verifyClass1 A payload in
           if \<not> Verification_OK class1
           then Inl (Wrapf ''built payload failed AAC Class 1: %w'' []
                       (newClass1Error (Verification_Findings class1)))
           else (case JCS A (JObj payload) of
               Inl err \<Rightarrow> Inl (Wrapf ''encode canonical capsule payload: %w'' [] err)
             | Inr encoded \<Rightarrow>
                 Inr \<lparr>Built_CapsuleID = capsuleID, Built_Value = payload, Built_JSON = encoded\<rparr>))))))"

lemmas map_defs = put_if_def put_str_def put_opt_def digestReferenceMap_def plain_reference_def
  provenanceModeMap_def computeAttestationMap_def modelAttestationMap_def dispositionMap_def
  effectMap_def effect_mode_def assuranceMap_def chainMap_def

lemmas [go_eval] = map_defs reference_value_def base_payload_def full_payload_def Build_def

end
