(* ===== verification/BuildFacts.thy ===== *)
theory BuildFacts
  imports Build
begin

text \<open>
  What \<open>Build\<close> guarantees about the payload it returns: well-formed JSON, every base member
  as the input determines it, every extension present and no base member touched by one,
  the identifier computed over everything else, a passed Class 1 verification; and that
  neither success nor the result depends on the iteration order of Go maps.
\<close>

section \<open>Assignments to a payload\<close>

lemma fst_set_update [simp]: "fst ` set (AList.update k v m) = insert k (fst ` set m)"
  using set_keys_update [of k v m] by (simp only: set_map)

lemma keys_put [simp]:
  "fst ` set (put_if b k v m) = (if b then insert k (fst ` set m) else fst ` set m)"
  "fst ` set (put_str k s m) = (if s \<noteq> '''' then insert k (fst ` set m) else fst ` set m)"
  "fst ` set (put_opt k f x m) = (if x \<noteq> None then insert k (fst ` set m) else fst ` set m)"
  by (auto simp: put_if_def put_str_def put_opt_def split: option.splits)

lemma distinct_put [intro]:
  assumes "distinct (keys m)"
  shows "distinct (keys (put_if b k v m))" "distinct (keys (put_str k s m))"
    "distinct (keys (put_opt k f x m))"
  using assms by (auto simp: put_if_def put_str_def put_opt_def distinct_update split: option.splits)

lemma map_of_put [simp]:
  "map_of (put_if b k v m) j = (if b \<and> j = k then Some v else map_of m j)"
  "map_of (put_str k s m) j = (if s \<noteq> '''' \<and> j = k then Some (JStr s) else map_of m j)"
  "map_of (put_opt k f x m) j = (if j = k then (case x of None \<Rightarrow> map_of m k | Some a \<Rightarrow> Some (f a)) else map_of m j)"
  by (auto simp: put_if_def put_str_def put_opt_def update_conv split: option.splits)

section \<open>Shape\<close>

text \<open>Well-formedness apart from the encoding of text, which the code checks at the end.\<close>

fun shape_ok :: "json \<Rightarrow> bool" where
  "shape_ok (JNum n) = (number_text n \<and> n \<noteq> ''-0'')"
| "shape_ok (JArr vs) = (\<forall>v \<in> set vs. shape_ok v)"
| "shape_ok (JObj m) = (distinct (keys m) \<and> (\<forall>(k, v) \<in> set m. shape_ok v))"
| "shape_ok _ = True"

lemma json_ok_iff: "json_ok v \<longleftrightarrow> shape_ok v \<and> text_ok v"
proof (induction v)
  case (JObj m)
  have "(\<forall>(k, v) \<in> set m. utf8_valid k \<and> json_ok v) \<longleftrightarrow>
    (\<forall>(k, v) \<in> set m. shape_ok v) \<and> (\<forall>(k, v) \<in> set m. utf8_valid k \<and> text_ok v)"
    using JObj by fastforce
  then show ?case by simp
qed auto

lemma shape_ok_keys: "shape_ok v \<Longrightarrow> keys_ok v"
  by (induction v rule: shape_ok.induct) auto

lemma shape_members:
  "shape_ok (JObj m) \<longleftrightarrow> distinct (keys m) \<and> (\<forall>k v. map_of m k = Some v \<longrightarrow> shape_ok v)"
  by (auto dest: map_of_SomeD)

lemma shape_update [intro]: "shape_ok (JObj m) \<Longrightarrow> shape_ok v \<Longrightarrow> shape_ok (JObj (AList.update k v m))"
  by (auto simp: distinct_update dest!: update_values)

lemma shape_put [intro]:
  assumes "shape_ok (JObj m)"
  shows "(b \<Longrightarrow> shape_ok v) \<Longrightarrow> shape_ok (JObj (put_if b k v m))"
    "shape_ok (JObj (put_str k s m))"
    "(\<And>a. x = Some a \<Longrightarrow> shape_ok (f a)) \<Longrightarrow> shape_ok (JObj (put_opt k f x m))"
  unfolding put_if_def put_str_def put_opt_def
  by (auto split: option.splits simp del: shape_ok.simps(3) intro: shape_update [OF assms] assms)

lemma shape_empty [simp]: "shape_ok (JObj [])"
  by simp

lemma shape_single [simp]: "shape_ok v \<Longrightarrow> shape_ok (JObj [(k, v)])"
  by simp

lemma shape_digestReferenceMap: "shape_ok (JObj (digestReferenceMap r))"
  unfolding digestReferenceMap_def by (rule shape_put) simp

lemma shape_provenanceModeMap: "shape_ok (JObj (provenanceModeMap m))"
  unfolding provenanceModeMap_def
  by (intro shape_put shape_digestReferenceMap) simp_all

lemma shape_computeAttestationMap: "shape_ok (JObj (computeAttestationMap c b))"
proof -
  have 1: "shape_ok (JObj (case c of None \<Rightarrow> []
      | Some c \<Rightarrow> put_str ''runtime'' (Compute_Runtime c) (put_str ''agent_output_digest'' (Compute_AgentOutputDigest c)
          (put_str ''agent_input_digest'' (Compute_AgentInputDigest c) []))))" (is "shape_ok (JObj ?m)")
    by (cases c) (auto intro!: shape_put simp del: shape_ok.simps(3))
  show ?thesis
  proof (cases b)
    case None
    with 1 show ?thesis by (simp add: computeAttestationMap_def)
  next
    case (Some d)
    have 2: "shape_ok (JObj (case CarriedArtifact d of None \<Rightarrow> ?m
        | Some r \<Rightarrow> AList.update ''carried_input_digest'' (JStr (CarriedInputDigest d))
            (AList.update ''carried_artifact'' (JObj (digestReferenceMap r)) ?m)))"
      using 1 by (cases "CarriedArtifact d")
        (auto intro!: shape_update shape_digestReferenceMap simp del: shape_ok.simps(3))
    show ?thesis unfolding computeAttestationMap_def Some Let_def option.case
      by (rule shape_put(1) [OF 2]) (auto simp: shape_digestReferenceMap simp del: shape_ok.simps(3))
  qed
qed

lemma shape_modelAttestationMap: "modelAttestationMap i = Some m \<Longrightarrow> shape_ok (JObj m)"
proof -
  assume m: "modelAttestationMap i = Some m"
  have 1: "shape_ok (JObj (case Input_Model i of None \<Rightarrow> []
      | Some m \<Rightarrow> put_str ''provider'' (Model_Provider m) (put_str ''model_id'' (Model_ModelID m) [])))"
    by (cases "Input_Model i") (auto intro!: shape_put simp del: shape_ok.simps(3))
  show ?thesis
    using m shape_put(1) [OF 1, where v = "JObj (computeAttestationMap (Input_Compute i) (Input_binding i))"]
    by (auto simp: modelAttestationMap_def Let_def shape_computeAttestationMap
        simp del: shape_ok.simps(3) split: if_splits)
qed

lemma shape_dispositionMap: "shape_ok (JObj (dispositionMap d))"
  unfolding dispositionMap_def by (intro shape_put) simp

lemma shape_effectMap: "shape_ok (JObj (effectMap e))"
  unfolding effectMap_def by (intro shape_put) simp

lemma shape_assuranceMap: "shape_ok (JObj (assuranceMap e c))"
  by (simp add: assuranceMap_def)

lemma shape_chainMap: "shape_ok (JObj (chainMap c))"
  by (simp add: chainMap_def)

lemma shape_base_payload: "shape_ok (JObj (base_payload i))"
proof -
  have base: "shape_ok (JObj
       [(''spec_version'', JStr (if Input_specVersion i \<noteq> [] then Input_specVersion i else SpecVersion)),
        (''format_version'', JStr FormatVersion),
        (''canonicalization_id'', JStr CanonicalizationID),
        (''action_id'', JStr (Input_ActionID i)),
        (''action_type'', JStr (Input_ActionType i)),
        (''operator'', JStr (Input_Operator i)),
        (''developer'', JStr (Input_Developer i)),
        (''timestamp'', JStr (formatTimestamp (Input_Timestamp i))),
        (''assurance'', JObj (assuranceMap (Input_Effect i) (Input_Chain i)))])"
    using shape_assuranceMap [of "Input_Effect i" "Input_Chain i"] by simp
  show ?thesis
    unfolding base_payload_def
    by (rule shape_put(3), rule shape_put(3), rule shape_put(3), rule shape_put(3), rule shape_put(3),
        rule shape_put(2), rule shape_put(2), rule shape_put(2), rule base)
      (simp_all only: shape_modelAttestationMap shape_dispositionMap shape_effectMap
        shape_provenanceModeMap shape_chainMap)
qed

lemma shape_reference_value: "reference_value r = Inr v \<Longrightarrow> shape_ok v"
proof -
  assume r: "reference_value r = Inr v"
  have 1: "shape_ok (JObj (put_str ''citation_purpose'' (Reference_CitationPurpose r)
      (digestReferenceMap (plain_reference r))))"
    by (intro shape_put shape_digestReferenceMap)
  from r show ?thesis
    using shape_update [OF 1] marshalDigestValue_ok json_ok_iff
    by (auto simp: reference_value_def Let_def 1 simp del: shape_ok.simps(3) split: option.splits sum.splits)
qed

lemma reference_values_Inr:
  "reference_values rs = Inr vs \<Longrightarrow> list_all2 (\<lambda>r v. reference_value r = Inr v) rs vs"
  by (induction rs arbitrary: vs) (auto split: sum.splits)

lemma shape_reference_values:
  assumes "reference_values rs = Inr vs"
  shows "shape_ok (JArr vs)"
  using reference_values_Inr [OF assms]
  using shape_reference_value by (force simp: list_all2_conv_all_nth in_set_conv_nth)

section \<open>Extensions\<close>

text \<open>Adding extensions: what each admitted extension contributes, and the final payload.\<close>

lemma add_extensions_InrD:
  assumes "range_ok rng"
  shows "add_extensions A rng exts m = Inr m' \<Longrightarrow>
    (\<forall>ext \<in> set exts. extensionNamePattern (Extension_Name ext) \<and>
        Extension_Name ext \<notin> set baseMembers \<and> Extension_Name ext \<notin> set (keys m) \<and>
        (\<exists>v. decodeStrictJSON (Extension_Value ext) = Inr v \<and> v \<noteq> JNull \<and> numbers_ok A v \<and>
           map_of m' (Extension_Name ext) = Some v)) \<and>
    distinct (map Extension_Name exts) \<and>
    (\<forall>k. k \<notin> Extension_Name ` set exts \<longrightarrow> map_of m' k = map_of m k)"
proof (induction exts arbitrary: m)
  case Nil
  then show ?case by simp
next
  case (Cons ext exts)
  let ?n = "Extension_Name ext"
  from Cons.prems obtain v where v: "extensionValue A rng ext m = Inr v"
    and step: "add_extensions A rng exts (AList.update ?n v m) = Inr m'"
    by (auto split: sum.splits)
  from v have ok: "extension_ok A m ext v" by (simp add: extensionValue_Inr_iff [OF assms])
  note IH = Cons.IH [OF step]
  have fresh: "?n \<notin> Extension_Name ` set exts" using IH by auto
  then have "map_of m' ?n = Some v" using IH by simp
  moreover have "map_of m' k = map_of m k" if "k \<notin> Extension_Name ` set (ext # exts)" for k
    using IH that by (simp add: fresh)
  ultimately show ?case using IH ok fresh by (auto simp: extension_ok_def)
qed

lemma add_extensions_shape:
  assumes "range_ok rng"
  shows "add_extensions A rng exts m = Inr m' \<Longrightarrow> shape_ok (JObj m) \<Longrightarrow> shape_ok (JObj m')"
proof (induction exts arbitrary: m)
  case (Cons ext exts)
  from Cons.prems obtain v where v: "extensionValue A rng ext m = Inr v"
    and step: "add_extensions A rng exts (AList.update (Extension_Name ext) v m) = Inr m'"
    by (auto split: sum.splits)
  have "json_ok v"
    using v decodeStrictJSON_sound by (auto simp: extensionValue_Inr_iff [OF assms] extension_ok_def)
  then have "shape_ok v" by (simp add: json_ok_iff)
  from Cons.IH [OF step shape_update [OF Cons.prems(2) this]] show ?case .
qed simp

text \<open>Success and result of the extension loop are the same for every iteration order.\<close>

lemma add_extensions_order:
  assumes "range_ok rng" and "range_ok rng'"
  shows "add_extensions A rng exts m = Inr m' \<Longrightarrow> add_extensions A rng' exts m = Inr m'"
proof (induction exts arbitrary: m)
  case (Cons ext exts)
  from Cons.prems obtain v where v: "extensionValue A rng ext m = Inr v"
    and step: "add_extensions A rng exts (AList.update (Extension_Name ext) v m) = Inr m'"
    by (auto split: sum.splits)
  from v have "extensionValue A rng' ext m = Inr v"
    by (simp add: extensionValue_Inr_iff assms)
  with Cons.IH [OF step] show ?case by simp
qed simp

section \<open>The payload\<close>

text \<open>The members before the extensions, as the input determines them.\<close>

definition profile_payload :: "Input \<Rightarrow> members res" where
  "profile_payload i = (case Input_References i of
       None \<Rightarrow> Inr (base_payload i)
     | Some refs \<Rightarrow>
         (case reference_values refs of
            Inl err \<Rightarrow> Inl err
          | Inr vs \<Rightarrow> Inr (AList.update ''references'' (JArr vs) (base_payload i))))"

lemma full_payload_profile:
  "full_payload A rng i = (case profile_payload i of
     Inl err \<Rightarrow> Inl err | Inr m \<Rightarrow> add_extensions A rng (Input_Extensions i) m)"
  by (simp add: full_payload_def profile_payload_def split: option.splits sum.splits)

lemma shape_profile_payload: "profile_payload i = Inr m \<Longrightarrow> shape_ok (JObj m)"
  using shape_update [OF shape_base_payload] shape_reference_values shape_base_payload
  by (auto simp: profile_payload_def simp del: shape_ok.simps split: option.splits sum.splits)

lemma keys_put_subset:
  assumes "fst ` set m \<subseteq> S" and "k \<in> S"
  shows "fst ` set (put_if b k v m) \<subseteq> S" "fst ` set (put_str k s m) \<subseteq> S"
    "fst ` set (put_opt k f x m) \<subseteq> S"
  using assms by simp_all

lemma base_payload_keys: "set (keys (base_payload i)) \<subseteq> set baseMembers - {''capsule_id'', ''references''}"
  unfolding base_payload_def set_map
  by (rule keys_put_subset(3), rule keys_put_subset(3), rule keys_put_subset(3), rule keys_put_subset(3),
      rule keys_put_subset(3), rule keys_put_subset(2), rule keys_put_subset(2), rule keys_put_subset(2))
    (simp_all add: baseMembers_def)

lemma profile_payload_keys:
  assumes "profile_payload i = Inr m"
  shows "set (keys m) \<subseteq> set baseMembers - {''capsule_id''}"
proof -
  have "set (keys m) \<subseteq> insert ''references'' (set (keys (base_payload i)))"
    using assms by (auto simp: profile_payload_def simp del: set_map split: option.splits sum.splits)
  moreover have "''references'' \<in> set baseMembers" by (simp add: baseMembers_def)
  moreover have "''references'' \<noteq> ''capsule_id''" by simp
  ultimately show ?thesis using base_payload_keys [of i] by blast
qed

text \<open>The steps of a successful \<open>Build\<close>.\<close>

lemma Build_InrE:
  assumes "Build A rng i = Inr b"
  obtains m p where "validateInput rng i = None" "profile_payload i = Inr m"
    "add_extensions A rng (Input_Extensions i) m = Inr p"
    "validatePayloadText rng (JObj p) ''$'' = None"
    "ComputeCapsuleID A p = Inr (Built_CapsuleID b)"
    "Built_Value b = AList.update ''capsule_id'' (JStr (Built_CapsuleID b)) p"
    "Verification_OK (verifyClass1 A (Built_Value b))"
    "JCS A (JObj (Built_Value b)) = Inr (Built_JSON b)"
  using assms
  by (auto simp: Build_def full_payload_profile Let_def split: option.splits sum.splits if_splits)

lemma Build_InrI:
  assumes "validateInput rng i = None" "profile_payload i = Inr m"
    "add_extensions A rng (Input_Extensions i) m = Inr p"
    "validatePayloadText rng (JObj p) ''$'' = None"
    "ComputeCapsuleID A p = Inr (Built_CapsuleID b)"
    "Built_Value b = AList.update ''capsule_id'' (JStr (Built_CapsuleID b)) p"
    "Verification_OK (verifyClass1 A (Built_Value b))"
    "JCS A (JObj (Built_Value b)) = Inr (Built_JSON b)"
  shows "Build A rng i = Inr b"
  using assms by (cases b) (simp add: Build_def full_payload_profile Let_def)


section \<open>What a successful Build returns\<close>

text \<open>The payload is well-formed JSON: distinct keys, UTF-8 text, number texts.\<close>

lemma Build_json_ok:
  assumes rng: "range_ok rng" and A: "hex_ids A" and build: "Build A rng i = Inr b"
  shows "json_ok (JObj (Built_Value b))"
proof -
  from build obtain m p where m: "profile_payload i = Inr m"
    and p: "add_extensions A rng (Input_Extensions i) m = Inr p"
    and utf: "validatePayloadText rng (JObj p) ''$'' = None"
    and cid: "ComputeCapsuleID A p = Inr (Built_CapsuleID b)"
    and b: "Built_Value b = AList.update ''capsule_id'' (JStr (Built_CapsuleID b)) p"
    by (rule Build_InrE)
  have shape: "shape_ok (JObj p)"
    using add_extensions_shape [OF rng p shape_profile_payload [OF m]] .
  have "text_ok (JObj p)"
    using utf validatePayloadText_None_iff [OF rng shape_ok_keys [OF shape]] by simp
  moreover have "utf8_valid (Built_CapsuleID b)" "utf8_valid ''capsule_id''"
    using A cid by (auto simp: hex_ids_def intro: hexDigestPattern_utf8)
  ultimately have "text_ok (JObj (Built_Value b))"
    by (auto simp: b dest!: update_values)
  moreover have "shape_ok (JObj (Built_Value b))"
    unfolding b by (rule shape_update [OF shape]) simp
  ultimately show ?thesis by (simp add: json_ok_iff del: shape_ok.simps text_ok.simps)
qed

text \<open>Base members are the input's; \<open>capsule_id\<close> is computed; extensions only add.\<close>

lemma keys_bound: "V = insert c P \<Longrightarrow> P \<subseteq> M \<union> X \<Longrightarrow> M \<subseteq> B - {c} \<Longrightarrow> c \<in> B \<Longrightarrow> V \<subseteq> B \<union> X"
  by blast

lemma Build_members:
  assumes rng: "range_ok rng" and build: "Build A rng i = Inr b"
  shows "\<exists>m. profile_payload i = Inr m \<and>
      (\<forall>k \<in> set baseMembers - {''capsule_id''}. map_of (Built_Value b) k = map_of m k)"
    and "map_of (Built_Value b) ''capsule_id'' = Some (JStr (Built_CapsuleID b))"
    and "\<forall>ext \<in> set (Input_Extensions i). \<exists>v. decodeStrictJSON (Extension_Value ext) = Inr v \<and>
       v \<noteq> JNull \<and> numbers_ok A v \<and> map_of (Built_Value b) (Extension_Name ext) = Some v"
    and "distinct (map Extension_Name (Input_Extensions i))"
    and "set (keys (Built_Value b)) \<subseteq> set baseMembers \<union> Extension_Name ` set (Input_Extensions i)"
proof -
  from build obtain m p where m: "profile_payload i = Inr m"
    and p: "add_extensions A rng (Input_Extensions i) m = Inr p"
    and b: "Built_Value b = AList.update ''capsule_id'' (JStr (Built_CapsuleID b)) p"
    by (rule Build_InrE)
  note ext = add_extensions_InrD [OF rng p]
  have cid: "''capsule_id'' \<in> set baseMembers" by (simp add: baseMembers_def)
  have old: "map_of (Built_Value b) k = map_of p k" if "k \<noteq> ''capsule_id''" for k
    using that by (simp add: b)
  show "\<exists>m. profile_payload i = Inr m \<and>
      (\<forall>k \<in> set baseMembers - {''capsule_id''}. map_of (Built_Value b) k = map_of m k)"
  proof (intro exI conjI ballI)
    fix k assume k: "k \<in> set baseMembers - {''capsule_id''}"
    then have "k \<notin> Extension_Name ` set (Input_Extensions i)" using ext by blast
    with k ext old show "map_of (Built_Value b) k = map_of m k" by auto
  qed (rule m)
  show "map_of (Built_Value b) ''capsule_id'' = Some (JStr (Built_CapsuleID b))"
    by (simp add: b)
  show "\<forall>ext \<in> set (Input_Extensions i). \<exists>v. decodeStrictJSON (Extension_Value ext) = Inr v \<and>
       v \<noteq> JNull \<and> numbers_ok A v \<and> map_of (Built_Value b) (Extension_Name ext) = Some v"
  proof
    fix e assume e: "e \<in> set (Input_Extensions i)"
    with ext cid have "Extension_Name e \<noteq> ''capsule_id''" by metis
    with e ext old show "\<exists>v. decodeStrictJSON (Extension_Value e) = Inr v \<and> v \<noteq> JNull \<and> numbers_ok A v \<and>
       map_of (Built_Value b) (Extension_Name e) = Some v" by auto
  qed
  show "distinct (map Extension_Name (Input_Extensions i))" using ext by blast
  have pk: "set (keys p) \<subseteq> set (keys m) \<union> Extension_Name ` set (Input_Extensions i)"
  proof
    fix k assume "k \<in> set (keys p)"
    then have "map_of p k \<noteq> None" by (simp add: map_of_eq_None_iff)
    with ext have "k \<in> Extension_Name ` set (Input_Extensions i) \<or> map_of m k \<noteq> None" by metis
    then show "k \<in> set (keys m) \<union> Extension_Name ` set (Input_Extensions i)"
      by (auto simp: map_of_eq_None_iff)
  qed
  show "set (keys (Built_Value b)) \<subseteq> set baseMembers \<union> Extension_Name ` set (Input_Extensions i)"
    unfolding b by (rule keys_bound [OF set_keys_update pk profile_payload_keys [OF m] cid])
qed


text \<open>Neither success nor the result depends on the iteration order of Go maps.\<close>

lemma Build_order:
  assumes rng: "range_ok rng" and rng': "range_ok rng'" and "Build A rng i = Inr b"
  shows "Build A rng' i = Inr b"
proof -
  from assms(3) obtain m p where v: "validateInput rng i = None"
    and m: "profile_payload i = Inr m"
    and p: "add_extensions A rng (Input_Extensions i) m = Inr p"
    and utf: "validatePayloadText rng (JObj p) ''$'' = None"
    and rest: "ComputeCapsuleID A p = Inr (Built_CapsuleID b)"
      "Built_Value b = AList.update ''capsule_id'' (JStr (Built_CapsuleID b)) p"
      "Verification_OK (verifyClass1 A (Built_Value b))"
      "JCS A (JObj (Built_Value b)) = Inr (Built_JSON b)"
    by (rule Build_InrE)
  have "shape_ok (JObj p)"
    using add_extensions_shape [OF rng p shape_profile_payload [OF m]] .
  then have k: "keys_ok (JObj p)" by (rule shape_ok_keys)
  show ?thesis
  proof (rule Build_InrI)
    show "validateInput rng' i = None"
      using v by (simp add: validateInput_None_iff rng rng')
    show "add_extensions A rng' (Input_Extensions i) m = Inr p"
      by (rule add_extensions_order [OF rng rng' p])
    show "validatePayloadText rng' (JObj p) ''$'' = None"
      using utf by (simp only: validatePayloadText_None_iff [OF rng k] validatePayloadText_None_iff [OF rng' k])
  qed (rule m rest)+
qed

text \<open>The members every payload carries.\<close>

lemma base_payload_profile:
  "map_of (base_payload i) ''format_version'' = Some (JStr FormatVersion)"
  "map_of (base_payload i) ''canonicalization_id'' = Some (JStr CanonicalizationID)"
  "map_of (base_payload i) ''action_id'' = Some (JStr (Input_ActionID i))"
  "map_of (base_payload i) ''action_type'' = Some (JStr (Input_ActionType i))"
  "map_of (base_payload i) ''operator'' = Some (JStr (Input_Operator i))"
  "map_of (base_payload i) ''developer'' = Some (JStr (Input_Developer i))"
  "map_of (base_payload i) ''timestamp'' = Some (JStr (formatTimestamp (Input_Timestamp i)))"
  "map_of (base_payload i) ''assurance'' = Some (JObj (assuranceMap (Input_Effect i) (Input_Chain i)))"
  by (simp_all add: base_payload_def)

lemma base_payload_optional:
  "map_of (base_payload i) ''effect'' = map_option (\<lambda>e. JObj (effectMap e)) (Input_Effect i)"
  "map_of (base_payload i) ''disposition'' = map_option (\<lambda>d. JObj (dispositionMap d)) (Input_Disposition i)"
  "map_of (base_payload i) ''chain'' = map_option (\<lambda>c. JObj (chainMap c)) (Input_Chain i)"
  "map_of (base_payload i) ''provenance_mode'' = map_option (\<lambda>m. JObj (provenanceModeMap m)) (Input_ProvenanceMode i)"
  "map_of (base_payload i) ''model_attestation'' = map_option JObj (modelAttestationMap i)"
  by (simp_all add: base_payload_def split: option.splits)

lemma profile_payload_base:
  "profile_payload i = Inr m \<Longrightarrow> k \<noteq> ''references'' \<Longrightarrow> map_of m k = map_of (base_payload i) k"
  by (auto simp: profile_payload_def split: option.splits sum.splits)

lemma Build_base_member:
  assumes "range_ok rng" and "Build A rng i = Inr b" and "k \<in> set baseMembers - {''capsule_id'', ''references''}"
  shows "map_of (Built_Value b) k = map_of (base_payload i) k"
  using Build_members(1) [OF assms(1,2)] assms(3) profile_payload_base by fastforce

text \<open>What \<open>Build\<close> returns verifies, when it is within the depth the decoder reads.\<close>

lemma Build_verifies_within_depth:
  assumes rng: "range_ok rng" and hex: "hex_ids A"
    and A: "jcs_lossless A" "verify_by_value A" "verify_reports_id A"
    and build: "Build A rng i = Inr b" and depth: "json_depth (JObj (Built_Value b)) \<le> maxJSONDepth"
  shows "verifies A (Built_JSON b) (Built_CapsuleID b)"
proof (rule jcs_verifies [OF A Build_json_ok [OF rng hex build] depth])
  show "JCS A (JObj (Built_Value b)) = Inr (Built_JSON b)"
    and "Verification_OK (verifyClass1 A (Built_Value b))"
    using build by (auto elim: Build_InrE)
  have "map_of (Built_Value b) k = map_of (base_payload i) k"
    if "k \<in> {''format_version'', ''canonicalization_id''}" for k
    using that by (intro Build_base_member [OF rng build]) (auto simp: baseMembers_def)
  then show "map_of (Built_Value b) ''format_version'' = Some (JStr FormatVersion)"
    "map_of (Built_Value b) ''canonicalization_id'' = Some (JStr CanonicalizationID)"
    by (simp_all add: base_payload_profile)
  show "map_of (Built_Value b) ''capsule_id'' = Some (JStr (Built_CapsuleID b))"
    by (rule Build_members(2) [OF rng build])
qed


lemma profile_payload_references:
  assumes "profile_payload i = Inr m"
  shows "case Input_References i of
        None \<Rightarrow> map_of m ''references'' = None
      | Some refs \<Rightarrow> \<exists>vs. list_all2 (\<lambda>r v. reference_value r = Inr v) refs vs \<and>
          map_of m ''references'' = Some (JArr vs)"
proof -
  have "''references'' \<notin> set (keys (base_payload i))" using base_payload_keys [of i] by blast
  then have none: "map_of (base_payload i) ''references'' = None" by (simp add: map_of_eq_None_iff)
  show ?thesis
  proof (cases "Input_References i")
    case None
    with assms none show ?thesis by (simp add: profile_payload_def)
  next
    case (Some refs)
    with assms obtain vs where "reference_values refs = Inr vs"
      "m = AList.update ''references'' (JArr vs) (base_payload i)"
      by (auto simp: profile_payload_def split: sum.splits)
    with reference_values_Inr Some show ?thesis by auto
  qed
qed

lemma Build_references:
  assumes "range_ok rng" and "Build A rng i = Inr b"
  shows "case Input_References i of
        None \<Rightarrow> map_of (Built_Value b) ''references'' = None
      | Some refs \<Rightarrow> \<exists>vs. list_all2 (\<lambda>r v. reference_value r = Inr v) refs vs \<and>
          map_of (Built_Value b) ''references'' = Some (JArr vs)"
proof -
  obtain m where m: "profile_payload i = Inr m"
    "\<forall>k \<in> set baseMembers - {''capsule_id''}. map_of (Built_Value b) k = map_of m k"
    using Build_members(1) [OF assms] by blast
  have "''references'' \<in> set baseMembers - {''capsule_id''}" by (simp add: baseMembers_def)
  with m(2) have eq: "map_of (Built_Value b) ''references'' = map_of m ''references''" by blast
  show ?thesis unfolding eq by (rule profile_payload_references [OF m(1)])
qed

text \<open>The identifier is computed over the payload without it.\<close>

lemma filter_update_fresh:
  "k \<notin> set (keys m) \<Longrightarrow> filter (\<lambda>kv. fst kv \<noteq> k) (AList.update k v m) = m"
  by (induction m) auto

lemma Build_capsule_id:
  assumes rng: "range_ok rng" and build: "Build A rng i = Inr b"
  shows "ComputeCapsuleID A (filter (\<lambda>kv. fst kv \<noteq> ''capsule_id'') (Built_Value b)) = Inr (Built_CapsuleID b)"
proof -
  from build obtain m p where m: "profile_payload i = Inr m"
    and p: "add_extensions A rng (Input_Extensions i) m = Inr p"
    and cid: "ComputeCapsuleID A p = Inr (Built_CapsuleID b)"
    and b: "Built_Value b = AList.update ''capsule_id'' (JStr (Built_CapsuleID b)) p"
    by (rule Build_InrE)
  note ext = add_extensions_InrD [OF rng p]
  have cbase: "''capsule_id'' \<in> set baseMembers" by (simp add: baseMembers_def)
  have "\<forall>e \<in> set (Input_Extensions i). Extension_Name e \<notin> set baseMembers" using ext by blast
  with cbase have "''capsule_id'' \<notin> Extension_Name ` set (Input_Extensions i)" by auto
  with ext have old: "map_of p ''capsule_id'' = map_of m ''capsule_id''" by blast
  have "''capsule_id'' \<notin> set (keys m)" using profile_payload_keys [OF m] by blast
  with old have "map_of p ''capsule_id'' = None" by (simp add: map_of_eq_None_iff)
  then have "''capsule_id'' \<notin> set (keys p)" by (simp add: map_of_eq_None_iff)
  with cid show ?thesis unfolding b by (simp add: filter_update_fresh del: set_map)
qed


text \<open>Evidence of a confirmed effect, and when no effect was dispatched.\<close>

lemma confirmed_effect_evidence:
  assumes "effect_mode eff = EffectModeConfirmed" and "pred_option effect_ok eff"
  shows "\<exists>e d a. eff = Some e \<and> map_of (effectMap e) ''response_digest'' = Some (JStr d) \<and>
     hexDigestPattern d \<and> map_of (effectMap e) ''effect_attestation'' = Some (JStr a) \<and> a \<noteq> ''''"
proof -
  have modes: "EffectModeNotApplicable \<noteq> EffectModeConfirmed" "EffectModeDispatchedUnconfirmed \<noteq> EffectModeConfirmed"
    by (simp_all add: go_consts)
  obtain e where e: "eff = Some e" "Effect_Status e = EffectConfirmed"
    using assms(1) modes by (cases eff) (auto simp: effect_mode_def split: if_splits)
  with assms(2) have "effect_ok e" by simp
  moreover have "map_of evidence_table EffectConfirmed = Some (Optional, Required, Required)"
    by (simp add: evidence_table_def go_consts)
  ultimately have "Effect_ResponseDigest e \<noteq> ''''" "Effect_EffectAttestation e \<noteq> ''''"
    "hexDigestPattern (Effect_ResponseDigest e)"
    using e(2) by (auto simp: effect_ok_def digest_field_ok_def)
  with e(1) show ?thesis by (simp add: effectMap_def)
qed

lemma effect_mode_not_applicable:
  "effect_mode eff = EffectModeNotApplicable \<longleftrightarrow> (\<forall>e. eff = Some e \<longrightarrow> Effect_Status e = EffectPlanned)"
proof -
  have modes: "EffectModeConfirmed \<noteq> EffectModeNotApplicable" "EffectModeDispatchedUnconfirmed \<noteq> EffectModeNotApplicable"
    by (simp_all add: go_consts)
  then show ?thesis by (cases eff) (simp_all add: effect_mode_def)
qed

text \<open>
  The limit holds for an extension's bytes, not for the payload: an extension as deep as the
  decoder reads makes a payload that is deeper.
\<close>

lemma depth_member: "(k, v) \<in> set m \<Longrightarrow> json_depth v < json_depth (JObj m)"
  by (induction m) auto

lemma Build_deep_extension:
  assumes "range_ok rng" and "Build A rng i = Inr b" and "ext \<in> set (Input_Extensions i)"
    and "decodeStrictJSON (Extension_Value ext) = Inr v" and "json_depth v = maxJSONDepth"
  shows "json_depth (JObj (Built_Value b)) > maxJSONDepth"
proof -
  have "map_of (Built_Value b) (Extension_Name ext) = Some v"
    using Build_members(3) [OF assms(1,2)] assms(3,4) by fastforce
  from depth_member [OF map_of_SomeD [OF this]] show ?thesis by (simp add: assms(5))
qed

end
