(* ===== verification/Sha256.thy ===== *)
theory Sha256
  imports GoText "HOL-Library.Word"
begin

unbundle bit_operations_syntax

text \<open>
  What the program uses of the Go packages \<open>crypto/sha256\<close> and \<open>encoding/hex\<close>: the digest
  function of FIPS 180-4 on 32-bit words, and lowercase hexadecimal text in both directions.
  \<open>rawDigest\<close> (\<open>artifact/record.go\<close>) and \<open>Received\<close> (\<open>construction.go\<close>) compose the two.
\<close>

section \<open>SHA-256\<close>

text \<open>The tables, as decimal numerals: the leading 32 bits of the fractional parts of the cube
  roots of the first 64 primes, and of the square roots of the first eight.\<close>

definition round_constants :: "32 word list" where
  "round_constants =
    [1116352408, 1899447441, 3049323471, 3921009573, 961987163, 1508970993, 2453635748, 2870763221,
     3624381080, 310598401, 607225278, 1426881987, 1925078388, 2162078206, 2614888103, 3248222580,
     3835390401, 4022224774, 264347078, 604807628, 770255983, 1249150122, 1555081692, 1996064986,
     2554220882, 2821834349, 2952996808, 3210313671, 3336571891, 3584528711, 113926993, 338241895,
     666307205, 773529912, 1294757372, 1396182291, 1695183700, 1986661051, 2177026350, 2456956037,
     2730485921, 2820302411, 3259730800, 3345764771, 3516065817, 3600352804, 4094571909, 275423344,
     430227734, 506948616, 659060556, 883997877, 958139571, 1322822218, 1537002063, 1747873779,
     1955562222, 2024104815, 2227730452, 2361852424, 2428436474, 2756734187, 3204031479, 3329325298]"

definition initial_hash :: "32 word list" where
  "initial_hash = [1779033703, 3144134277, 1013904242, 2773480762, 1359893119, 2600822924, 528734635, 1541459225]"

definition rotr :: "nat \<Rightarrow> 32 word \<Rightarrow> 32 word" where
  "rotr n x = drop_bit n x OR push_bit (32 - n) x"

definition small_sigma0 :: "32 word \<Rightarrow> 32 word" where
  "small_sigma0 x = rotr 7 x XOR rotr 18 x XOR drop_bit 3 x"

definition small_sigma1 :: "32 word \<Rightarrow> 32 word" where
  "small_sigma1 x = rotr 17 x XOR rotr 19 x XOR drop_bit 10 x"

definition big_sigma0 :: "32 word \<Rightarrow> 32 word" where
  "big_sigma0 x = rotr 2 x XOR rotr 13 x XOR rotr 22 x"

definition big_sigma1 :: "32 word \<Rightarrow> 32 word" where
  "big_sigma1 x = rotr 6 x XOR rotr 11 x XOR rotr 25 x"

text \<open>The message schedule, newest word first: each new word from the last sixteen.\<close>

fun schedule :: "nat \<Rightarrow> 32 word list \<Rightarrow> 32 word list" where
  "schedule 0 w = w"
| "schedule (Suc n) w =
     schedule n ((small_sigma1 (w ! 1) + w ! 6 + small_sigma0 (w ! 14) + w ! 15) # w)"

text \<open>One round on the working variables \<open>a\<close> to \<open>h\<close>.\<close>

fun sha_round :: "32 word list \<Rightarrow> 32 word \<times> 32 word \<Rightarrow> 32 word list" where
  "sha_round [a, b, c, d, e, f, g, h] (k, w) =
     (let t1 = h + big_sigma1 e + ((e AND f) XOR (NOT e AND g)) + k + w;
          t2 = big_sigma0 a + ((a AND b) XOR (a AND c) XOR (b AND c))
      in [t1 + t2, a, b, c, d + t1, e, f, g])"
| "sha_round vs kw = vs"

definition compress :: "32 word list \<Rightarrow> 32 word list \<Rightarrow> 32 word list" where
  "compress hash block =
     map2 (+) hash (foldl sha_round hash (zip round_constants (rev (schedule 48 (rev block)))))"

definition word_of_bytes :: "string \<Rightarrow> 32 word" where
  "word_of_bytes = foldl (\<lambda>n c. n * 256 + of_nat (byte c)) 0"

definition bytes_of_word :: "32 word \<Rightarrow> string" where
  "bytes_of_word x = map (\<lambda>n. char_of (unat (drop_bit n x AND 0xff))) [24, 16, 8, 0]"

fun groups :: "nat \<Rightarrow> nat \<Rightarrow> 'a list \<Rightarrow> 'a list list" where
  \<comment> \<open>\<open>groups k n xs\<close>: the first \<open>k\<close> groups of \<open>n\<close> elements\<close>
  "groups 0 n xs = []"
| "groups (Suc k) n xs = take n xs # groups k n (drop n xs)"

text \<open>The padding: the byte \<open>0x80\<close>, zeros, and the length in bits as 64 bits.\<close>

fun big_endian :: "nat \<Rightarrow> nat \<Rightarrow> string" where
  "big_endian 0 n = []"
| "big_endian (Suc k) n = big_endian k (n div 256) @ [char_of (n mod 256)]"

lemma length_big_endian [simp]: "length (big_endian k n) = k"
  by (induction k arbitrary: n) auto

definition sha_pad :: "bytes \<Rightarrow> bytes" where
  "sha_pad s = s @ char_of (0x80 :: nat) # replicate ((119 - length s mod 64) mod 64) (char_of (0 :: nat)) @
     big_endian 8 (8 * length s)"

definition sha256_Sum256 :: "bytes \<Rightarrow> bytes" where
  "sha256_Sum256 s =
     (let p = sha_pad s;
          blocks = map (\<lambda>b. map word_of_bytes (groups 16 4 b)) (groups (length p div 64) 64 p)
      in concat (map bytes_of_word (foldl compress initial_hash blocks)))"

lemma length_sha_pad: "length (sha_pad s) mod 64 = 0"
proof -
  define q r where "q = length s div 64" and "r = length s mod 64"
  have len: "length s = 64 * q + r" and r: "r < 64" by (simp_all add: q_def r_def)
  have "length (sha_pad s) = length s + (119 - r) mod 64 + 9"
    by (simp add: sha_pad_def r_def)
  moreover have "(119 - r) mod 64 = (if r \<le> 55 then 55 - r else 119 - r)"
    using r by (cases "r \<le> 55") (simp_all add: mod_if)
  ultimately have "length (sha_pad s) = (if r \<le> 55 then 64 * (q + 1) else 64 * (q + 2))"
    using len r by simp
  then show ?thesis by (simp only: mod_mult_self1_is_0 split: if_split) simp
qed

lemma length_sha_round [simp]: "length vs = 8 \<Longrightarrow> length (sha_round vs kw) = 8"
  by (cases "(vs, kw)" rule: sha_round.cases) (auto simp: Let_def)

lemma length_sha_rounds: "length vs = 8 \<Longrightarrow> length (foldl sha_round vs kws) = 8"
  by (induction kws arbitrary: vs) auto

lemma length_compress: "length hash = 8 \<Longrightarrow> length (compress hash block) = 8"
  by (simp add: compress_def length_sha_rounds)

lemma length_foldl_compress: "length hash = 8 \<Longrightarrow> length (foldl compress hash blocks) = 8"
  by (induction blocks arbitrary: hash) (auto simp: length_compress)

lemma length_bytes_of_words: "length (concat (map bytes_of_word ws)) = 4 * length ws"
  by (induction ws) (auto simp: bytes_of_word_def)

lemma length_sha256 [simp]: "length (sha256_Sum256 s) = 32"
  by (simp add: sha256_Sum256_def Let_def length_bytes_of_words length_foldl_compress initial_hash_def)

section \<open>encoding/hex\<close>

definition hex_nibble :: "nat \<Rightarrow> char" where
  "hex_nibble n = char_of (if n < 10 then 48 + n else 87 + n)"

definition hex_EncodeToString :: "bytes \<Rightarrow> string" where
  "hex_EncodeToString s = concat (map (\<lambda>c. [hex_nibble (byte c div 16), hex_nibble (byte c mod 16)]) s)"

definition read_nibble :: "char \<Rightarrow> nat option" where
  "read_nibble c =
     (if between 48 c 57 then Some (byte c - 48)
      else if between 97 c 102 then Some (byte c - 87)
      else if between 65 c 70 then Some (byte c - 55)
      else None)"

fun hex_DecodeString :: "string \<Rightarrow> bytes option" where
  "hex_DecodeString [] = Some []"
| "hex_DecodeString [c] = None"
| "hex_DecodeString (c # d # s) =
     (case (read_nibble c, read_nibble d, hex_DecodeString s) of
        (Some m, Some n, Some t) \<Rightarrow> Some (char_of (16 * m + n) # t)
      | _ \<Rightarrow> None)"

lemma byte_hex_nibble: "n < 16 \<Longrightarrow> byte (hex_nibble n) = (if n < 10 then 48 + n else 87 + n)"
  by (simp add: hex_nibble_def)

lemma lower_hex_nibble: "n < 16 \<Longrightarrow> lower_hex (hex_nibble n)"
  by (auto simp: lower_hex_def between_def byte_hex_nibble)

lemma read_hex_nibble: "n < 16 \<Longrightarrow> read_nibble (hex_nibble n) = Some n"
  by (auto simp: read_nibble_def between_def byte_hex_nibble)

lemma byte_div_16 [simp]: "byte c div 16 < 16"
  by (simp add: div_less_iff_less_mult)

lemma length_hex [simp]: "length (hex_EncodeToString s) = 2 * length s"
  by (induction s) (auto simp: hex_EncodeToString_def)

lemma lower_hex_encode: "c \<in> set (hex_EncodeToString s) \<Longrightarrow> lower_hex c"
  by (auto simp: hex_EncodeToString_def intro!: lower_hex_nibble)

lemma hex_decode_encode: "hex_DecodeString (hex_EncodeToString s) = Some s"
proof (induction s)
  case (Cons c s)
  from Cons show ?case by (simp add: hex_EncodeToString_def read_hex_nibble)
qed (simp add: hex_EncodeToString_def)

text \<open>Lowercase text of even length is decoded, and its bytes encode to it again.\<close>

lemma read_nibble_lower: "lower_hex c \<Longrightarrow> \<exists>n < 16. read_nibble c = Some n \<and> hex_nibble n = c"
  by (auto simp: lower_hex_def read_nibble_def between_def hex_nibble_def)

lemma hex_encode_decode:
  "even (length s) \<Longrightarrow> \<forall>c \<in> set s. lower_hex c \<Longrightarrow>
     \<exists>t. hex_DecodeString s = Some t \<and> hex_EncodeToString t = s"
proof (induction s rule: hex_DecodeString.induct)
  case (3 c d s)
  then obtain t where t: "hex_DecodeString s = Some t" "hex_EncodeToString t = s" by auto
  from 3 read_nibble_lower obtain m n where m: "m < 16" "read_nibble c = Some m" "hex_nibble m = c"
    and n: "n < 16" "read_nibble d = Some n" "hex_nibble n = d"
    by (metis list.set_intros(1) list.set_intros(2))
  moreover from m n have "byte (char_of (16 * m + n)) = 16 * m + n"
    by simp
  ultimately show ?case using t by (simp add: hex_EncodeToString_def)
qed (auto simp: hex_EncodeToString_def)

section \<open>rawDigest\<close>

definition rawDigest :: "bytes \<Rightarrow> string" where
  "rawDigest data = hex_EncodeToString (sha256_Sum256 data)"

lemma rawDigest_pattern [simp]: "hexDigestPattern (rawDigest s)"
  using lower_hex_encode by (auto simp: hexDigestPattern_def rawDigest_def)

lemma rawDigest_nonempty [simp]: "rawDigest s \<noteq> []"
  using hexDigestPattern_nonempty by (metis rawDigest_pattern)

lemma rawDigest_eq_iff: "rawDigest s = rawDigest t \<longleftrightarrow> sha256_Sum256 s = sha256_Sum256 t"
  by (metis hex_decode_encode option.inject rawDigest_def)

end
