(* ===== verification/Construct.thy ===== *)
theory Construct
  imports BuildFacts Sha256 "HOL-Library.Multiset"
begin

text \<open>
  The construction functions (\<open>construction.go\<close>): \<open>Carry\<close> and \<open>Received\<close> bind a foreign
  artifact by the SHA-256 digest of its bytes; \<open>BuildComposition\<close> binds existing Capsules
  into the slots who, can, did and audit. Both set the private field \<open>compute\<close> of the input
  and call \<open>Build\<close>.
\<close>

section \<open>Constants\<close>

definition digestAlgorithmSHA256 :: string where "digestAlgorithmSHA256 = ''SHA-256''"
definition foreignArtifactType :: string where "foreignArtifactType = ''foreign-artifact''"
definition capsuleReferenceType :: string where "capsuleReferenceType = ''capsule''"
definition slotWho :: string where "slotWho = ''who''"
definition slotCan :: string where "slotCan = ''can''"
definition slotDid :: string where "slotDid = ''did''"
definition slotAudit :: string where "slotAudit = ''audit''"

lemmas slot_defs = slotWho_def slotCan_def slotDid_def slotAudit_def
lemmas [go_consts] = digestAlgorithmSHA256_def foreignArtifactType_def capsuleReferenceType_def slot_defs

section \<open>Carried artifacts\<close>

definition carried_binding :: "bytes \<Rightarrow> string \<Rightarrow> computeAttestation" where
  "carried_binding artifact artifactType =
     \<lparr>CarriedArtifact = Some
        \<lparr>digestReference_Type = artifactType, digestReference_DigestAlg = digestAlgorithmSHA256,
         digestReference_Digest = rawDigest artifact, digestReference_Slot = ''''\<rparr>,
      CarriedInputDigest = rawDigest artifact, ComposedMembers = []\<rparr>"

definition Received :: "aac \<Rightarrow> range_order \<Rightarrow> Input \<Rightarrow> bytes \<Rightarrow> string \<Rightarrow> BuiltPayload res" where
  "Received A rng input artifact artifactType =
     (if artifact = [] then Inl (Errorf ''received artifact must not be empty'' [])
      else if blank artifactType then Inl (Errorf ''received artifact type must be a non-empty string'' [])
      else Build A rng (input\<lparr>Input_binding := Some (carried_binding artifact artifactType)\<rparr>))"

definition Carry :: "aac \<Rightarrow> range_order \<Rightarrow> Input \<Rightarrow> bytes \<Rightarrow> BuiltPayload res" where
  "Carry A rng input artifact = Received A rng input artifact foreignArtifactType"

section \<open>Slot members\<close>

record compositionCapsule =
  composition_capsuleID :: string
  composition_json :: bytes

record SlotMember =
  SlotMember_slot :: string
  SlotMember_member :: compositionCapsule

text \<open>The type constraint \<open>BuiltPayload | Result\<close>.\<close>

datatype compositionMember = MemberBuilt BuiltPayload | MemberResult Result

definition newSlotMember :: "string \<Rightarrow> compositionMember \<Rightarrow> SlotMember" where
  "newSlotMember slot member =
     \<lparr>SlotMember_slot = slot,
      SlotMember_member = (case member of
          MemberBuilt b \<Rightarrow> \<lparr>composition_capsuleID = Built_CapsuleID b, composition_json = Built_JSON b\<rparr>
        | MemberResult r \<Rightarrow> \<lparr>composition_capsuleID = Result_CapsuleID r, composition_json = Result_Payload r\<rparr>)\<rparr>"

definition Who :: "compositionMember \<Rightarrow> SlotMember" where
  "Who member = newSlotMember slotWho member"

definition Can :: "compositionMember \<Rightarrow> SlotMember" where
  "Can member = newSlotMember slotCan member"

definition Did :: "compositionMember \<Rightarrow> SlotMember" where
  "Did member = newSlotMember slotDid member"

definition Audit :: "compositionMember \<Rightarrow> SlotMember" where
  "Audit member = newSlotMember slotAudit member"

section \<open>BuildComposition\<close>

definition compositionSlots :: "string list" where
  "compositionSlots = [slotWho, slotCan, slotDid, slotAudit]"

definition isCompositionSlot :: "string \<Rightarrow> bool" where
  "isCompositionSlot slot \<longleftrightarrow> slot \<in> set compositionSlots"

text \<open>The loop over the members, with the maps \<open>bySlot\<close> and \<open>seenIDs\<close>.\<close>

fun collect_slots ::
  "aac \<Rightarrow> nat \<Rightarrow> SlotMember list \<Rightarrow> (string \<times> compositionCapsule) list \<Rightarrow> (string \<times> string) list \<Rightarrow>
   (string \<times> compositionCapsule) list res" where
  "collect_slots A index [] bySlot seenIDs = Inr bySlot"
| "collect_slots A index (slotted # members) bySlot seenIDs =
     (let slot = SlotMember_slot slotted;
          member = SlotMember_member slotted;
          cid = composition_capsuleID member in
      if \<not> isCompositionSlot slot
      then Inl (Errorf ''composition member %d has invalid slot'' [show_nat index])
      else if has_key bySlot slot
      then Inl (Errorf ''composition duplicates %s slot'' [slot])
      else if \<not> hexDigestPattern cid
      then Inl (Errorf ''composition %s member has malformed Capsule ID'' [slot])
      else if \<not> verifies A (composition_json member) cid
      then Inl (Errorf ''composition %s member is not a matching verified format-4 Capsule'' [slot])
      else (case map_of seenIDs cid of
          Some priorSlot \<Rightarrow>
            Inl (Errorf ''composition %s slot duplicates Capsule ID %s from %s slot'' [slot, cid, priorSlot])
        | None \<Rightarrow>
            collect_slots A (Suc index) members
              (AList.update slot member bySlot) (AList.update cid slot seenIDs)))"

fun slot_references :: "string list \<Rightarrow> (string \<times> compositionCapsule) list \<Rightarrow> digestReference list" where
  "slot_references [] bySlot = []"
| "slot_references (slot # slots) bySlot =
     (case map_of bySlot slot of
        None \<Rightarrow> slot_references slots bySlot
      | Some member \<Rightarrow>
          \<lparr>digestReference_Type = capsuleReferenceType, digestReference_DigestAlg = digestAlgorithmSHA256,
           digestReference_Digest = composition_capsuleID member, digestReference_Slot = slot\<rparr>
          # slot_references slots bySlot)"

definition BuildComposition :: "aac \<Rightarrow> range_order \<Rightarrow> Input \<Rightarrow> SlotMember list \<Rightarrow> BuiltPayload res" where
  "BuildComposition A rng input members =
     (if members = [] then Inl (Errorf ''composition requires at least one slot member'' [])
      else (case collect_slots A 0 members [] [] of
          Inl err \<Rightarrow> Inl err
        | Inr bySlot \<Rightarrow>
            Build A rng (input\<lparr>Input_binding := Some
              \<lparr>CarriedArtifact = None, CarriedInputDigest = '''',
               ComposedMembers = slot_references compositionSlots bySlot\<rparr>\<rparr>)))"

lemmas [go_eval] = carried_binding_def Received_def Carry_def newSlotMember_def Who_def Can_def
  Did_def Audit_def compositionSlots_def isCompositionSlot_def BuildComposition_def

section \<open>Which members are accepted\<close>

abbreviation member_id :: "SlotMember \<Rightarrow> string" where
  "member_id s \<equiv> composition_capsuleID (SlotMember_member s)"

definition member_ok :: "aac \<Rightarrow> SlotMember \<Rightarrow> bool" where
  "member_ok A s \<longleftrightarrow> isCompositionSlot (SlotMember_slot s) \<and> hexDigestPattern (member_id s) \<and>
     verifies A (composition_json (SlotMember_member s)) (member_id s)"

text \<open>A composition: at least one member, every member valid, one per slot, no Capsule twice.\<close>

definition composition_ok :: "aac \<Rightarrow> SlotMember list \<Rightarrow> bool" where
  "composition_ok A members \<longleftrightarrow> members \<noteq> [] \<and> (\<forall>s \<in> set members. member_ok A s) \<and>
     distinct (map SlotMember_slot members) \<and> distinct (map member_id members)"

definition slot_map :: "SlotMember list \<Rightarrow> (string \<times> compositionCapsule) list" where
  "slot_map members = map (\<lambda>s. (SlotMember_slot s, SlotMember_member s)) members"

lemma keys_slot_map [simp]: "map fst (slot_map ms) = map SlotMember_slot ms"
  by (induction ms) (auto simp: slot_map_def)

lemma collect_slots_iff:
  "collect_slots A n members bySlot seenIDs = Inr out \<longleftrightarrow>
     (\<forall>s \<in> set members. member_ok A s) \<and>
     distinct (map SlotMember_slot members) \<and> distinct (map member_id members) \<and>
     set (map SlotMember_slot members) \<inter> set (keys bySlot) = {} \<and>
     set (map member_id members) \<inter> set (keys seenIDs) = {} \<and>
     out = bySlot @ slot_map members"
proof (induction members arbitrary: n bySlot seenIDs)
  case Nil
  then show ?case by (auto simp: slot_map_def)
next
  case (Cons s members)
  let ?slot = "SlotMember_slot s" and ?m = "SlotMember_member s"
  show ?case
  proof (cases "member_ok A s \<and> ?slot \<notin> set (keys bySlot) \<and> member_id s \<notin> set (keys seenIDs)")
    case True
    then have "map_of seenIDs (member_id s) = None" by (simp add: map_of_eq_None_iff)
    with True have "collect_slots A n (s # members) bySlot seenIDs =
        collect_slots A (Suc n) members (bySlot @ [(?slot, ?m)]) (AList.update (member_id s) ?slot seenIDs)"
      by (simp add: member_ok_def Let_def update_fresh)
    with True show ?thesis
      by (auto simp: Cons.IH slot_map_def)
  next
    case False
    then have "collect_slots A n (s # members) bySlot seenIDs \<noteq> Inr out"
      by (auto simp: member_ok_def Let_def map_of_eq_None_iff split: option.splits dest: map_of_SomeD)
    with False show ?thesis by auto
  qed
qed

lemma collect_slots_composition:
  "members \<noteq> [] \<Longrightarrow> collect_slots A n members [] [] = Inr out \<longleftrightarrow>
     composition_ok A members \<and> out = slot_map members"
  by (auto simp: collect_slots_iff composition_ok_def)

section \<open>The order of the members does not matter\<close>

lemma slot_references_cong:
  assumes "map_of xs = map_of ys"
  shows "slot_references slots xs = slot_references slots ys"
  by (induction slots) (auto simp: assms split: option.splits)

lemma slot_references_set:
  "set (slot_references slots bySlot) =
     (\<lambda>(slot, m). \<lparr>digestReference_Type = capsuleReferenceType, digestReference_DigestAlg = digestAlgorithmSHA256,
        digestReference_Digest = composition_capsuleID m, digestReference_Slot = slot\<rparr>)
     ` {(slot, m). slot \<in> set slots \<and> map_of bySlot slot = Some m}"
  by (induction slots) (auto split: option.splits)

lemma slot_references_order:
  "map digestReference_Slot (slot_references slots bySlot) = filter (\<lambda>slot. map_of bySlot slot \<noteq> None) slots"
  by (induction slots) (auto split: option.splits)

lemma map_of_slot_map_perm:
  assumes "mset ms = mset ns" and "distinct (map SlotMember_slot ms)"
  shows "map_of (slot_map ms) = map_of (slot_map ns)"
proof -
  have "set (slot_map ms) = set (slot_map ns)"
    using set_mset_mset [of ms] set_mset_mset [of ns] assms(1) by (simp add: slot_map_def)
  moreover have "distinct (map SlotMember_slot ns)"
    using assms by (metis mset_eq_imp_distinct_iff mset_map)
  ultimately show ?thesis
    using assms(2) by (simp add: map_of_inject_set)
qed

lemma composition_ok_perm:
  assumes "mset ms = mset ns"
  shows "composition_ok A ms \<longleftrightarrow> composition_ok A ns"
proof -
  have "set ms = set ns" "ms = [] \<longleftrightarrow> ns = []"
    using assms by (metis set_mset_mset) (use assms in auto)
  moreover have "distinct (map f ms) \<longleftrightarrow> distinct (map f ns)" for f :: "SlotMember \<Rightarrow> string"
    using assms by (metis mset_eq_imp_distinct_iff mset_map)
  ultimately show ?thesis by (simp add: composition_ok_def)
qed

text \<open>The binding \<open>BuildComposition\<close> computes from accepted members.\<close>

definition composed_binding :: "SlotMember list \<Rightarrow> computeAttestation" where
  "composed_binding members =
     \<lparr>CarriedArtifact = None, CarriedInputDigest = '''',
      ComposedMembers = slot_references compositionSlots (slot_map members)\<rparr>"

lemma BuildComposition_Inr_iff:
  "BuildComposition A rng input members = Inr b \<longleftrightarrow>
     composition_ok A members \<and>
     Build A rng (input\<lparr>Input_binding := Some (composed_binding members)\<rparr>) = Inr b"
proof (cases "members = []")
  case True
  then show ?thesis by (simp add: BuildComposition_def composition_ok_def)
next
  case False
  note iff = collect_slots_composition [OF False, of A 0]
  show ?thesis
  proof (cases "composition_ok A members")
    case True
    with iff have "collect_slots A 0 members [] [] = Inr (slot_map members)" by blast
    with True False show ?thesis by (simp add: BuildComposition_def composed_binding_def)
  next
    case None: False
    with iff have "\<not> is_ok (collect_slots A 0 members [] [])"
      by (cases "collect_slots A 0 members [] []") auto
    with None False show ?thesis
      by (cases "collect_slots A 0 members [] []") (simp_all add: BuildComposition_def)
  qed
qed

lemma composed_binding_perm:
  assumes "mset ms = mset ns" and "composition_ok A ms"
  shows "composed_binding ms = composed_binding ns"
  using assms map_of_slot_map_perm [of ms ns] slot_references_cong [of "slot_map ms" "slot_map ns"]
  by (simp add: composed_binding_def composition_ok_def)

text \<open>In the canonical order each slot that is given appears once, with its member's identifier.\<close>

lemma composed_members:
  assumes "composition_ok A members"
  shows "map digestReference_Slot (ComposedMembers (composed_binding members)) =
      filter (\<lambda>slot. slot \<in> SlotMember_slot ` set members) compositionSlots"
    and "r \<in> set (ComposedMembers (composed_binding members)) \<longleftrightarrow>
      (\<exists>s \<in> set members. r = \<lparr>digestReference_Type = capsuleReferenceType,
         digestReference_DigestAlg = digestAlgorithmSHA256, digestReference_Digest = member_id s,
         digestReference_Slot = SlotMember_slot s\<rparr>)"
proof -
  have slots: "map_of (slot_map members) slot \<noteq> None \<longleftrightarrow> slot \<in> SlotMember_slot ` set members" for slot
    by (auto simp: map_of_eq_None_iff slot_map_def image_image)
  show "map digestReference_Slot (ComposedMembers (composed_binding members)) =
      filter (\<lambda>slot. slot \<in> SlotMember_slot ` set members) compositionSlots"
    by (simp only: composed_binding_def slot_references_order slots computeAttestation.simps)
  have lookup: "map_of (slot_map members) slot = Some m \<longleftrightarrow>
      (\<exists>s \<in> set members. slot = SlotMember_slot s \<and> m = SlotMember_member s)" for slot m
    using assms by (subst map_of_eq_Some_iff) (auto simp: slot_map_def composition_ok_def comp_def)
  have "SlotMember_slot s \<in> set compositionSlots" if "s \<in> set members" for s
    using assms that by (auto simp: composition_ok_def member_ok_def isCompositionSlot_def)
  then show "r \<in> set (ComposedMembers (composed_binding members)) \<longleftrightarrow>
      (\<exists>s \<in> set members. r = \<lparr>digestReference_Type = capsuleReferenceType,
         digestReference_DigestAlg = digestAlgorithmSHA256, digestReference_Digest = member_id s,
         digestReference_Slot = SlotMember_slot s\<rparr>)"
    by (auto simp: composed_binding_def slot_references_set lookup)
qed

end
