(* ===== verification/Sign.thy ===== *)
theory Sign
  imports Construct
begin

text \<open>
  Signing (\<open>sign.go\<close>): signing identities, the Producer Envelope over a Capsule identifier,
  and \<open>Seal\<close>, which digests, builds and signs in one call. The COSE library is imported
  code: its operations are the record \<open>C\<close> of type \<open>cose\<close>, and a signer is opaque except for
  its algorithm. \<open>rnd\<close> is what \<open>rand.Reader\<close> yields.
\<close>

section \<open>The imported COSE library\<close>

definition PublicKeySize :: nat where "PublicKeySize = 32"
definition PrivateKeySize :: nat where "PrivateKeySize = 64"
definition AlgorithmEdDSA :: int where "AlgorithmEdDSA = - 8"

record cose_signer =
  Signer_Algorithm :: int
  Signer_handle :: bytes

record sign1_message =
  RawProtected :: bytes
  Protected_Algorithm :: "int option"
  Message_Payload :: "bytes option"
  Message_Signature :: bytes

record cose =
  cose_NewSigner :: "int \<Rightarrow> bytes \<Rightarrow> cose_signer res"
  cose_Sign :: "bytes \<Rightarrow> sign1_message \<Rightarrow> cose_signer \<Rightarrow> sign1_message res"
  cose_NewVerifier :: "int \<Rightarrow> bytes \<Rightarrow> bytes res"
  cose_Verify :: "sign1_message \<Rightarrow> bytes \<Rightarrow> go_error option"
  cose_MarshalCBOR :: "sign1_message \<Rightarrow> bytes res"

definition NewSign1Message :: sign1_message where
  "NewSign1Message =
     \<lparr>RawProtected = [], Protected_Algorithm = None, Message_Payload = None, Message_Signature = []\<rparr>"

section \<open>Signing identities\<close>

record SigningIdentity =
  identity_signer :: "cose_signer option"
  identity_publicKey :: bytes

definition NewSigningIdentity :: "cose_signer option \<Rightarrow> bytes \<Rightarrow> SigningIdentity res" where
  "NewSigningIdentity signer publicKey =
     (case signer of
        None \<Rightarrow> Inl (Errorf ''Producer Envelope signer must use EdDSA'' [])
      | Some s \<Rightarrow>
          if Signer_Algorithm s \<noteq> AlgorithmEdDSA
          then Inl (Errorf ''Producer Envelope signer must use EdDSA'' [])
          else if length publicKey \<noteq> PublicKeySize
          then Inl (Errorf ''Ed25519 public key has wrong size'' [])
          else Inr \<lparr>identity_signer = Some s, identity_publicKey = publicKey\<rparr>)"

text \<open>\<open>privateKey.Public()\<close> of the standard library: the last 32 bytes of the private key.\<close>

definition ed25519_Public :: "bytes \<Rightarrow> bytes" where
  "ed25519_Public privateKey = drop 32 privateKey"

definition NewEd25519SigningIdentity :: "cose \<Rightarrow> bytes \<Rightarrow> SigningIdentity res" where
  "NewEd25519SigningIdentity C privateKey =
     (if length privateKey \<noteq> PrivateKeySize then Inl (Errorf ''Ed25519 private key has wrong size'' [])
      else (case cose_NewSigner C AlgorithmEdDSA privateKey of
          Inl err \<Rightarrow> Inl (Wrapf ''create Ed25519 COSE signer: %w'' [] err)
        | Inr signer \<Rightarrow> NewSigningIdentity (Some signer) (ed25519_Public privateKey)))"

section \<open>Envelopes\<close>

text \<open>\<open>byte(n)\<close>: the conversion of a length to one byte keeps its low eight bits.\<close>

definition byte_of_len :: "nat \<Rightarrow> char" where
  "byte_of_len n = char_of (n mod 256)"

definition producerProtectedHeaders :: "bytes \<Rightarrow> bytes" where
  "producerProtectedHeaders publicKey =
     [CHR 0xA3, CHR 0x03, CHR 0x78, byte_of_len (length ContentType)] @ ContentType @
     [CHR 0x04, CHR 0x58, byte_of_len PublicKeySize] @ publicKey @ [CHR 0x01, CHR 0x27]"

definition unsigned_message :: "bytes \<Rightarrow> bytes \<Rightarrow> sign1_message" where
  "unsigned_message publicKey payload =
     (let protected = producerProtectedHeaders publicKey in
      NewSign1Message
        \<lparr>RawProtected := [CHR 0x58, byte_of_len (length protected)] @ protected,
         Protected_Algorithm := Some AlgorithmEdDSA, Message_Payload := Some payload\<rparr>)"

definition signCapsuleID :: "cose \<Rightarrow> bytes \<Rightarrow> bytes \<Rightarrow> cose_signer \<Rightarrow> bytes \<Rightarrow> bytes res" where
  "signCapsuleID C rnd payload signer publicKey =
     (case cose_Sign C rnd (unsigned_message publicKey payload) signer of
        Inl err \<Rightarrow> Inl (Wrapf ''sign Producer Envelope: %w'' [] err)
      | Inr message \<Rightarrow>
          (case cose_NewVerifier C AlgorithmEdDSA publicKey of
             Inl err \<Rightarrow> Inl (Wrapf ''create Producer Envelope verifier: %w'' [] err)
           | Inr verifier \<Rightarrow>
               (case cose_Verify C message verifier of
                  Some err \<Rightarrow> Inl (Errorf ''Producer Envelope signer does not match public key'' [])
                | None \<Rightarrow>
                    (case cose_MarshalCBOR C message of
                       Inl err \<Rightarrow> Inl (Wrapf ''encode Producer Envelope: %w'' [] err)
                     | Inr envelope \<Rightarrow> Inr envelope))))"

definition Sign :: "aac \<Rightarrow> cose \<Rightarrow> bytes \<Rightarrow> BuiltPayload \<Rightarrow> SigningIdentity \<Rightarrow> bytes res" where
  "Sign A C rnd built identity =
     (case identity_signer identity of
        None \<Rightarrow> Inl (Errorf ''valid Ed25519 signing identity is required'' [])
      | Some signer \<Rightarrow>
          if length (identity_publicKey identity) \<noteq> PublicKeySize
          then Inl (Errorf ''valid Ed25519 signing identity is required'' [])
          else if \<not> hexDigestPattern (Built_CapsuleID built)
          then Inl (Errorf ''Capsule ID must be 64 lowercase hexadecimal characters'' [])
          else if \<not> verifies A (Built_JSON built) (Built_CapsuleID built)
          then Inl (Errorf ''built Capsule does not match Capsule ID'' [])
          else (case hex_DecodeString (Built_CapsuleID built) of
              None \<Rightarrow> Inl (Wrapf ''decode Capsule ID: %w'' [] (External ''encoding/hex: invalid byte''))
            | Some payload \<Rightarrow> signCapsuleID C rnd payload signer (identity_publicKey identity)))"

section \<open>Seal\<close>

record SealInput =
  Seal_Capsule :: Input
  Seal_Payload :: go_any
  Seal_AgentOutput :: go_any
  Seal_Model :: "Model option"
  Seal_Runtime :: string
  Seal_Members :: "SlotMember list option"
  Seal_Identity :: SigningIdentity

fun isAbsentJSONValue :: "go_any \<Rightarrow> bool" where
  "isAbsentJSONValue NilInterface = True"
| "isAbsentJSONValue (GoValue MapKind isnil out) = isnil"
| "isAbsentJSONValue (GoValue PointerKind isnil out) = isnil"
| "isAbsentJSONValue (GoValue SliceKind isnil out) = isnil"
| "isAbsentJSONValue (GoValue OtherKind isnil out) = False"

text \<open>The digest of a value, or the empty string when it is absent.\<close>

definition digest_present :: "aac \<Rightarrow> string \<Rightarrow> go_any \<Rightarrow> string res" where
  "digest_present A fmt val =
     (if isAbsentJSONValue val then Inr ''''
      else (case DigestJSON A val of Inl err \<Rightarrow> Inl (Wrapf fmt [] err) | Inr digest \<Rightarrow> Inr digest))"

definition seal_build :: "aac \<Rightarrow> range_order \<Rightarrow> SealInput \<Rightarrow> BuiltPayload res" where
  "seal_build A rng input =
     (let capsule = (Seal_Capsule input)\<lparr>Input_Model := Seal_Model input\<rparr> in
      case Seal_Members input of
        Some members \<Rightarrow>
          if \<not> isAbsentJSONValue (Seal_Payload input) \<or> \<not> isAbsentJSONValue (Seal_AgentOutput input)
          then Inl (Errorf ''composition Seal must not include payload or agent output'' [])
          else BuildComposition A rng
            (if Seal_Runtime input \<noteq> ''''
             then capsule\<lparr>Input_Compute := Some \<lparr>Compute_AgentInputDigest = '''',
                    Compute_AgentOutputDigest = '''', Compute_Runtime = Seal_Runtime input\<rparr>\<rparr>
             else capsule) members
      | None \<Rightarrow>
          (case digest_present A ''digest agent input: %w'' (Seal_Payload input) of
             Inl err \<Rightarrow> Inl err
           | Inr input_digest \<Rightarrow>
               (case digest_present A ''digest agent output: %w'' (Seal_AgentOutput input) of
                  Inl err \<Rightarrow> Inl err
                | Inr output_digest \<Rightarrow>
                    (let compute = \<lparr>Compute_AgentInputDigest = input_digest,
                           Compute_AgentOutputDigest = output_digest, Compute_Runtime = Seal_Runtime input\<rparr> in
                     Build A rng
                       (if hasComputeAttestation (Some compute)
                        then capsule\<lparr>Input_Compute := Some compute\<rparr> else capsule)))))"

definition Seal :: "aac \<Rightarrow> cose \<Rightarrow> bytes \<Rightarrow> range_order \<Rightarrow> SealInput \<Rightarrow> Result res" where
  "Seal A C rnd rng input =
     (if Input_Model (Seal_Capsule input) \<noteq> None \<or> Input_Compute (Seal_Capsule input) \<noteq> None
      then Inl (Errorf ''SealInput model and compute metadata must use Model and Runtime fields'' [])
      else (case seal_build A rng input of
          Inl err \<Rightarrow> Inl err
        | Inr built \<Rightarrow>
            (case Sign A C rnd built (Seal_Identity input) of
               Inl err \<Rightarrow> Inl err
             | Inr envelope \<Rightarrow>
                 Inr \<lparr>Result_CapsuleID = Built_CapsuleID built, Result_Payload = Built_JSON built,
                      Result_Envelope = envelope\<rparr>)))"

lemmas [go_consts] = PublicKeySize_def PrivateKeySize_def AlgorithmEdDSA_def
lemmas [go_eval] = NewSign1Message_def NewSigningIdentity_def ed25519_Public_def
  NewEd25519SigningIdentity_def byte_of_len_def producerProtectedHeaders_def unsigned_message_def
  signCapsuleID_def Sign_def digest_present_def seal_build_def Seal_def

section \<open>The protected header bytes\<close>

text \<open>
  The headers are a CBOR map of three pairs whose hand-written length bytes are right: the
  content type is 35 bytes, within the one-byte length form, the key is 32 bytes, and the
  whole is 76 bytes, so no length wraps around.
\<close>

lemma length_ContentType: "length ContentType = 35"
  by (simp add: ContentType_def)

lemma headers_length: "length k = PublicKeySize \<Longrightarrow> length (producerProtectedHeaders k) = 76"
  by (simp add: producerProtectedHeaders_def length_ContentType PublicKeySize_def)

lemma headers_inject:
  "producerProtectedHeaders k = producerProtectedHeaders k' \<longleftrightarrow> k = k'"
  by (simp add: producerProtectedHeaders_def)

lemma headers_parse:
  assumes "length k = PublicKeySize"
  shows "producerProtectedHeaders k =
      [CHR 0xA3, CHR 0x03, CHR 0x78, CHR 0x23] @ ContentType @ [CHR 0x04, CHR 0x58, CHR 0x20] @ k @
      [CHR 0x01, CHR 0x27]"
    and "take 32 (drop 42 (producerProtectedHeaders k)) = k"
proof -
  show eq: "producerProtectedHeaders k =
      [CHR 0xA3, CHR 0x03, CHR 0x78, CHR 0x23] @ ContentType @ [CHR 0x04, CHR 0x58, CHR 0x20] @ k @
      [CHR 0x01, CHR 0x27]"
  proof -
    have "byte_of_len 35 = CHR 0x23" "byte_of_len PublicKeySize = CHR 0x20" by code_simp+
    then show ?thesis by (simp add: producerProtectedHeaders_def length_ContentType)
  qed
  show "take 32 (drop 42 (producerProtectedHeaders k)) = k"
    unfolding producerProtectedHeaders_def
    using assms by (simp add: length_ContentType PublicKeySize_def)
qed

section \<open>What is signed\<close>

lemma Sign_InrE:
  assumes "Sign A C rnd built identity = Inr envelope"
  obtains signer payload message verifier where
    "identity_signer identity = Some signer" "length (identity_publicKey identity) = PublicKeySize"
    "hexDigestPattern (Built_CapsuleID built)" "verifies A (Built_JSON built) (Built_CapsuleID built)"
    "hex_DecodeString (Built_CapsuleID built) = Some payload"
    "cose_Sign C rnd (unsigned_message (identity_publicKey identity) payload) signer = Inr message"
    "cose_NewVerifier C AlgorithmEdDSA (identity_publicKey identity) = Inr verifier"
    "cose_Verify C message verifier = None" "cose_MarshalCBOR C message = Inr envelope"
  using assms by (auto simp: Sign_def signCapsuleID_def split: option.splits sum.splits if_splits)

lemma hex_capsule_id:
  assumes "hexDigestPattern cid"
  shows "\<exists>payload. hex_DecodeString cid = Some payload \<and> hex_EncodeToString payload = cid \<and> length payload = 32"
proof -
  obtain t where t: "hex_DecodeString cid = Some t" "hex_EncodeToString t = cid"
    using hex_encode_decode [of cid] assms by (auto simp: hexDigestPattern_def)
  have "2 * length t = 64" using t(2) assms by (metis hexDigestPattern_length length_hex)
  with t show ?thesis by simp
qed

section \<open>What a seal binds\<close>

lemma Seal_InrE:
  assumes "Seal A C rnd rng input = Inr r"
  obtains built where "seal_build A rng input = Inr built"
    "Sign A C rnd built (Seal_Identity input) = Inr (Result_Envelope r)"
    "Result_CapsuleID r = Built_CapsuleID built" "Result_Payload r = Built_JSON built"
    "Input_Model (Seal_Capsule input) = None" "Input_Compute (Seal_Capsule input) = None"
  using assms by (auto simp: Seal_def split: if_splits sum.splits)

text \<open>A digest is never empty, so it is present exactly when the value is.\<close>

lemma digest_present_Inr:
  assumes "hex_ids A" and "digest_present A fmt v = Inr d"
  shows "if isAbsentJSONValue v then d = '''' else DigestJSON A v = Inr d \<and> hexDigestPattern d"
  using assms by (auto simp: digest_present_def DigestJSON_def hex_ids_def split: if_splits sum.splits)

lemma seal_build_plain:
  assumes "seal_build A rng input = Inr b" and "Seal_Members input = None"
  obtains di dout where "digest_present A ''digest agent input: %w'' (Seal_Payload input) = Inr di"
    "digest_present A ''digest agent output: %w'' (Seal_AgentOutput input) = Inr dout"
    "\<exists>i. Build A rng i = Inr b \<and> Input_Model i = Seal_Model input \<and> Input_binding i = Input_binding (Seal_Capsule input) \<and>
       Input_Compute i = (let c = \<lparr>Compute_AgentInputDigest = di, Compute_AgentOutputDigest = dout,
           Compute_Runtime = Seal_Runtime input\<rparr> in
         if hasComputeAttestation (Some c) then Some c else Input_Compute (Seal_Capsule input))"
proof -
  from assms obtain di dout where
    d: "digest_present A ''digest agent input: %w'' (Seal_Payload input) = Inr di"
      "digest_present A ''digest agent output: %w'' (Seal_AgentOutput input) = Inr dout"
    by (auto simp: seal_build_def Let_def split: sum.splits)
  show thesis
    by (rule that [OF d])
      (use assms d in \<open>auto simp: seal_build_def Let_def split: if_splits\<close>)
qed

text \<open>The member of \<open>compute_attestation\<close> under a key, in a payload.\<close>

definition compute_member :: "members \<Rightarrow> string \<Rightarrow> json option" where
  "compute_member payload k =
     (case map_of payload ''model_attestation'' of
        Some (JObj m) \<Rightarrow> (case map_of m ''compute_attestation'' of Some (JObj c) \<Rightarrow> map_of c k | _ \<Rightarrow> None)
      | _ \<Rightarrow> None)"

lemma modelAttestationMap_compute:
  "(case map_option JObj (modelAttestationMap i) of
        Some (JObj m) \<Rightarrow> (case map_of m ''compute_attestation'' of Some (JObj c) \<Rightarrow> map_of c k | _ \<Rightarrow> None)
      | _ \<Rightarrow> None) = map_of (computeAttestationMap (Input_Compute i) (Input_binding i)) k"
proof -
  define m1 where "m1 = (case Input_Model i of None \<Rightarrow> []
    | Some m \<Rightarrow> put_str ''provider'' (Model_Provider m) (put_str ''model_id'' (Model_ModelID m) []))"
  have m1: "map_of m1 ''compute_attestation'' = None"
    by (simp add: m1_def split: option.splits)
  define c where "c = computeAttestationMap (Input_Compute i) (Input_binding i)"
  have "modelAttestationMap i =
      (if put_if (c \<noteq> []) ''compute_attestation'' (JObj c) m1 = [] then None
       else Some (put_if (c \<noteq> []) ''compute_attestation'' (JObj c) m1))"
    by (simp add: modelAttestationMap_def Let_def m1_def c_def)
  moreover have "c \<noteq> [] \<Longrightarrow> put_if (c \<noteq> []) ''compute_attestation'' (JObj c) m1 \<noteq> []"
    by (cases m1) (auto simp: put_if_def)
  ultimately show ?thesis using m1 by (cases "c = []") (simp_all flip: c_def)
qed

lemma Build_compute_member:
  assumes "range_ok rng" and "Build A rng i = Inr b"
  shows "compute_member (Built_Value b) k = map_of (computeAttestationMap (Input_Compute i) (Input_binding i)) k"
proof -
  have "map_of (Built_Value b) ''model_attestation'' = map_option JObj (modelAttestationMap i)"
    using Build_base_member [OF assms, of "''model_attestation''"]
    by (simp add: baseMembers_def base_payload_optional)
  then show ?thesis
    using modelAttestationMap_compute [of k i] by (simp add: compute_member_def)
qed

lemma computeAttestation_digests:
  "map_of (computeAttestationMap (Some c) b) ''agent_input_digest'' =
     (if Compute_AgentInputDigest c = '''' then None else Some (JStr (Compute_AgentInputDigest c)))"
  "map_of (computeAttestationMap (Some c) b) ''agent_output_digest'' =
     (if Compute_AgentOutputDigest c = '''' then None else Some (JStr (Compute_AgentOutputDigest c)))"
  "map_of (computeAttestationMap None b) ''agent_input_digest'' = None"
  "map_of (computeAttestationMap None b) ''agent_output_digest'' = None"
  by (simp_all add: computeAttestationMap_def Let_def split: option.splits)


lemma computeAttestationMap_carried:
  "map_of (computeAttestationMap c (Some (carried_binding artifact t))) ''carried_input_digest'' =
     Some (JStr (rawDigest artifact))"
  "map_of (computeAttestationMap c (Some (carried_binding artifact t))) ''carried_artifact'' =
     Some (JObj [(''type'', JStr t), (''digest_alg'', JStr ''SHA-256''), (''digest'', JStr (rawDigest artifact))])"
  by (simp_all add: computeAttestationMap_def carried_binding_def Let_def digestReferenceMap_def
      put_str_def put_if_def digestAlgorithmSHA256_def)

lemma seal_digest_members:
  assumes rng: "range_ok rng" and hex: "hex_ids A" and build: "seal_build A rng input = Inr b"
    and plain: "Seal_Members input = None" and compute: "Input_Compute (Seal_Capsule input) = None"
  shows "if isAbsentJSONValue (Seal_Payload input)
      then compute_member (Built_Value b) ''agent_input_digest'' = None
      else \<exists>d. DigestJSON A (Seal_Payload input) = Inr d \<and>
        compute_member (Built_Value b) ''agent_input_digest'' = Some (JStr d)"
    and "if isAbsentJSONValue (Seal_AgentOutput input)
      then compute_member (Built_Value b) ''agent_output_digest'' = None
      else \<exists>d. DigestJSON A (Seal_AgentOutput input) = Inr d \<and>
        compute_member (Built_Value b) ''agent_output_digest'' = Some (JStr d)"
proof -
  obtain di dout i where d: "digest_present A ''digest agent input: %w'' (Seal_Payload input) = Inr di"
      "digest_present A ''digest agent output: %w'' (Seal_AgentOutput input) = Inr dout"
    and i: "Build A rng i = Inr b"
      "Input_Compute i = (let c = \<lparr>Compute_AgentInputDigest = di, Compute_AgentOutputDigest = dout,
           Compute_Runtime = Seal_Runtime input\<rparr> in if hasComputeAttestation (Some c) then Some c else None)"
  proof (rule seal_build_plain [OF build plain], elim exE conjE)
    fix di dout i
    assume "digest_present A ''digest agent input: %w'' (Seal_Payload input) = Inr di"
      "digest_present A ''digest agent output: %w'' (Seal_AgentOutput input) = Inr dout"
      "Build A rng i = Inr b"
      "Input_Compute i = (let c = \<lparr>Compute_AgentInputDigest = di, Compute_AgentOutputDigest = dout,
           Compute_Runtime = Seal_Runtime input\<rparr>
         in if hasComputeAttestation (Some c) then Some c else Input_Compute (Seal_Capsule input))"
    then show thesis unfolding compute by (rule that)
  qed
  have "compute_member (Built_Value b) ''agent_input_digest'' = (if di = '''' then None else Some (JStr di))"
    and "compute_member (Built_Value b) ''agent_output_digest'' = (if dout = '''' then None else Some (JStr dout))"
    unfolding Build_compute_member [OF rng i(1)] i(2)
    by (simp_all add: Let_def computeAttestation_digests hasComputeAttestation_def)
  with digest_present_Inr [OF hex d(1)] digest_present_Inr [OF hex d(2)]
  show "if isAbsentJSONValue (Seal_Payload input)
      then compute_member (Built_Value b) ''agent_input_digest'' = None
      else \<exists>d. DigestJSON A (Seal_Payload input) = Inr d \<and>
        compute_member (Built_Value b) ''agent_input_digest'' = Some (JStr d)"
    and "if isAbsentJSONValue (Seal_AgentOutput input)
      then compute_member (Built_Value b) ''agent_output_digest'' = None
      else \<exists>d. DigestJSON A (Seal_AgentOutput input) = Inr d \<and>
        compute_member (Built_Value b) ''agent_output_digest'' = Some (JStr d)"
    by (auto split: if_splits)
qed

end
