(* ===== verification/Samples.thy ===== *)
theory Samples
  imports Sign
begin

text \<open>
  Concrete instances for the evaluated examples: a small implementation of the imported AAC
  module that has every documented behaviour the development relies on, a COSE library
  whose signatures are the signed bytes with the public key, and inputs of each kind.
\<close>

section \<open>An AAC module\<close>

definition sample_hex :: "nat \<Rightarrow> string" where
  "sample_hex n = replicate 64 (hex_nibble (n mod 16))"

definition sample_finding :: finding where
  "sample_finding = \<lparr>Finding_Check = Some 1, Finding_Severity = ''error'',
     Finding_Code = ''capsule_id'', Finding_Detail = ''missing''\<rparr>"

definition sample_verify :: "members \<Rightarrow> registries \<Rightarrow> verification" where
  "sample_verify m R = (case map_of m ''capsule_id'' of
       Some (JStr cid) \<Rightarrow>
         \<lparr>Verification_OK = hexDigestPattern cid, Verification_CapsuleID = Some cid, Verification_Findings = []\<rparr>
     | _ \<Rightarrow> \<lparr>Verification_OK = False, Verification_CapsuleID = None, Verification_Findings = [sample_finding]\<rparr>)"

definition sample_envelope_verify :: "string \<Rightarrow> bytes \<Rightarrow> envelope_verification" where
  "sample_envelope_verify cid data =
     (if length data = 96 \<and> take 64 data = cid
      then \<lparr>Envelope_OK = True, Envelope_PublicKey = drop 64 data, Envelope_Findings = []\<rparr>
      else \<lparr>Envelope_OK = False, Envelope_PublicKey = [], Envelope_Findings = [sample_finding]\<rparr>)"

definition sample_aac :: aac where
  "sample_aac =
     \<lparr>ComputeCapsuleID = (\<lambda>m. Inr (sample_hex (length m))),
      JCS = (\<lambda>v. Inr (print_json v)),
      JSONDigest = (\<lambda>v. Inr (sample_hex (length (print_json v)))),
      IsFloat = (\<lambda>n. CHR ''.'' \<in> set n \<or> CHR ''e'' \<in> set n \<or> CHR ''E'' \<in> set n),
      IsUnsafeInt = (\<lambda>n. 15 < length n),
      verify_Verify = sample_verify,
      envelope_Verify = sample_envelope_verify\<rparr>"

lemma sample_hex_pattern: "hexDigestPattern (sample_hex n)"
  by (auto simp: hexDigestPattern_def sample_hex_def intro!: lower_hex_nibble)

lemma sample_hex_ids: "hex_ids sample_aac"
  by (simp add: hex_ids_def sample_aac_def sample_hex_pattern)

lemma json_eq_refl: "keys_ok v \<Longrightarrow> json_eq v v"
proof (induction v)
  case (JObj m)
  have "json_eq (snd kv) (snd kw)" if "kv \<in> set m" "kw \<in> set m" "fst kv = fst kw" for kv kw
  proof -
    obtain k v where kv: "kv = (k, v)" by (cases kv)
    have "kv = kw"
      using JObj.prems that by (metis eq_key_imp_eq_value keys_ok.simps(2) prod.collapse)
    moreover have "keys_ok v" using JObj.prems that(1) kv by auto
    ultimately show ?thesis using JObj.IH [of kv v] that(1) kv by auto
  qed
  then show ?case by simp
next
  case (JArr vs)
  then show ?case by (auto simp: list_all2_same)
qed auto

lemma sample_jcs_lossless: "jcs_lossless sample_aac"
  unfolding jcs_lossless_def
proof (intro allI impI)
  fix v enc
  assume "json_ok v" "json_depth v \<le> maxJSONDepth" "JCS sample_aac v = Inr enc"
  then have "decodeStrictJSON enc = Inr v" by (auto simp: sample_aac_def decode_print_json)
  with json_eq_refl [OF json_ok_keys [OF \<open>json_ok v\<close>]]
  show "\<exists>w. decodeStrictJSON enc = Inr w \<and> json_eq v w" by blast
qed

lemma sample_jcs_faithful: "jcs_faithful sample_aac"
  unfolding jcs_faithful_def
proof (intro allI impI)
  fix v enc w
  assume "json_ok v" "JCS sample_aac v = Inr enc" "decodeStrictJSON enc = Inr w"
  then have "w = v"
    using decode_print_json [of v] decode_print_json_deep [of v]
    by (cases "json_depth v \<le> maxJSONDepth") (auto simp: sample_aac_def)
  with json_eq_refl [OF json_ok_keys [OF \<open>json_ok v\<close>]] show "json_eq v w" by simp
qed

lemma sample_verify_by_value: "verify_by_value sample_aac"
  unfolding verify_by_value_def
proof (intro allI impI)
  fix m n R assume eq: "json_eq (JObj m) (JObj n)"
  note str = json_eq_string [OF eq, of "''capsule_id''"]
  have "sample_verify m R = sample_verify n R"
    using str unfolding sample_verify_def by (force split: option.splits json.splits)
  then show "verify_Verify sample_aac m R = verify_Verify sample_aac n R" by (simp add: sample_aac_def)
qed

lemma sample_verify_reports_id: "verify_reports_id sample_aac"
  by (auto simp: verify_reports_id_def sample_aac_def sample_verify_def split: option.splits json.splits)

section \<open>Inputs\<close>

definition sample_input :: Input where
  "sample_input =
     \<lparr>Input_ActionID = ''act-1'', Input_ActionType = ActionTypeDecide, Input_Operator = ''op'',
      Input_Developer = ''dev'', Input_Timestamp = 63902880000123456789, Input_EpochID = '''',
      Input_Domain = '''', Input_Provenance = '''',
      Input_Disposition = Some \<lparr>Disposition_Decision = DecisionAccept, Disposition_Approver = ApproverHuman,
        Disposition_HumanDisposed = True, Disposition_VerdictClass = VerdictExecuted, Disposition_ReasonDigest = ''''\<rparr>,
      Input_Effect = Some \<lparr>Effect_Type = ''write_order'', Effect_Status = EffectConfirmed,
        Effect_IrreversibilityClass = IrreversibilityTwoWay, Effect_EffectAttestation = AttestationGateExecuted,
        Effect_RequestDigest = '''', Effect_ResponseDigest = sample_hex 3, Effect_ExternalRef = ''''\<rparr>,
      Input_Chain = None,
      Input_References = Some [\<lparr>Reference_Type = ''t'', Reference_DigestAlg = ''SHA-256'', Reference_Digest = ''d'',
        Reference_CitationPurpose = ''acted_on'',
        Reference_LogCoordinates = Some (GoValue MapKind False (Inr ''{\"leaf_index\":7}''))\<rparr>],
      Input_Model = None, Input_Compute = None, Input_binding = None, Input_ProvenanceMode = None,
      Input_Extensions = [],
      Input_specVersion = ''''\<rparr>"


lemma sample_hex_nonempty [simp]: "sample_hex n \<noteq> []"
  by (simp add: sample_hex_def)

lemma sample_input_ok: "input_ok sample_input"
  using sample_hex_pattern [of 3]
  by (simp add: input_ok_def sample_input_def go_consts blank_Cons between_def disposition_ok_def
      effect_ok_def evidence_table_def digest_field_ok_def)

lemma sample_decode:
  "decodeStrictJSON ''{\"leaf_index\":7}'' = Inr (JObj [(''leaf_index'', JNum ''7'')])"
proof -
  have p: "print_json (JObj [(''leaf_index'', JNum ''7'')]) = ''{\"leaf_index\":7}''"
    by (simp add: print_string_def print_char_def)
  show ?thesis
    by (subst p [symmetric], rule decode_print_json)
      (simp_all add: number_text_def lex_number_defs digit_def between_def maxJSONDepth_def)
qed

text \<open>The sample input with one extension, built.\<close>

definition with_settlement :: "json \<Rightarrow> Input" where
  "with_settlement v = sample_input
     \<lparr>Input_Extensions := [\<lparr>Extension_Name = ''settlement'', Extension_Value = print_json v\<rparr>]\<rparr>"

definition sample_reference :: json where
  "sample_reference = JObj [(''type'', JStr ''t''), (''digest_alg'', JStr ''SHA-256''), (''digest'', JStr ''d''),
     (''citation_purpose'', JStr ''acted_on''), (''log_coordinates'', JObj [(''leaf_index'', JNum ''7'')])]"

definition sample_profile :: "json \<Rightarrow> members" where
  "sample_profile v = AList.update ''references'' (JArr [sample_reference]) (base_payload (with_settlement v))"

definition sample_payload :: "json \<Rightarrow> members" where
  "sample_payload v = AList.update ''settlement'' v (sample_profile v)"

definition sample_built :: "json \<Rightarrow> BuiltPayload" where
  "sample_built v =
     (let p = sample_payload v; cid = sample_hex (length p); payload = AList.update ''capsule_id'' (JStr cid) p
      in \<lparr>Built_CapsuleID = cid, Built_Value = payload, Built_JSON = print_json (JObj payload)\<rparr>)"

lemma sample_build:
  assumes v: "json_ok v" "json_depth v \<le> maxJSONDepth" "v \<noteq> JNull" "numbers_ok sample_aac v"
  shows "Build sample_aac in_order (with_settlement v) = Inr (sample_built v)"
proof -
  let ?i = "with_settlement v"
  have refs: "profile_payload ?i = Inr (sample_profile v)"
    by (simp add: profile_payload_def sample_profile_def sample_reference_def with_settlement_def
        sample_input_def reference_value_def marshalDigestValue_def sample_decode map_defs)
  have name: "extensionNamePattern ''settlement''"
    by (simp add: extensionNamePattern_def between_def)
  have fresh: "''settlement'' \<notin> set (keys (sample_profile v))" "''settlement'' \<notin> set baseMembers"
    using profile_payload_keys [OF refs] by (auto simp: baseMembers_def simp del: set_map)
  have "extensionValue sample_aac in_order
      \<lparr>Extension_Name = ''settlement'', Extension_Value = print_json v\<rparr> (sample_profile v) = Inr v"
    using name fresh v by (simp add: extensionValue_Inr_iff extension_ok_def decode_print_json del: set_map)
  then have p: "add_extensions sample_aac in_order (Input_Extensions ?i) (sample_profile v) = Inr (sample_payload v)"
    by (simp add: with_settlement_def sample_payload_def)
  have shape: "shape_ok (JObj (sample_payload v))"
    using add_extensions_shape [OF range_ok_in_order p shape_profile_payload [OF refs]] .
  have "text_ok (JObj (sample_payload v))"
    using hexDigestPattern_utf8 [OF sample_hex_pattern [of 3]] v(1) json_ok_iff [of v]
    by (simp add: sample_payload_def sample_profile_def sample_reference_def base_payload_def
        with_settlement_def sample_input_def map_defs modelAttestationMap_def go_consts)
  then have utf: "validatePayloadText in_order (JObj (sample_payload v)) ''$'' = None"
    using validatePayloadText_None_iff [OF range_ok_in_order shape_ok_keys [OF shape]] by simp
  have valid: "validateInput in_order ?i = None"
    using sample_input_ok by (simp add: validateInput_None_iff with_settlement_def input_ok_def)
  show ?thesis
    by (rule Build_InrI [OF valid refs p utf])
      (simp_all add: sample_built_def Let_def sample_aac_def verifyClass1_def sample_verify_def sample_hex_pattern)
qed

definition sample_settlement :: json where
  "sample_settlement = JObj [(''amount'', JNum ''12'')]"

lemma sample_settlement_ok:
  "json_ok sample_settlement" "json_depth sample_settlement \<le> maxJSONDepth" "sample_settlement \<noteq> JNull"
  "numbers_ok sample_aac sample_settlement"
  by (simp_all add: sample_settlement_def number_text_def lex_number_defs digit_def between_def
      maxJSONDepth_def sample_aac_def)

lemmas sample_settlement_build = sample_build [OF sample_settlement_ok]

lemma sample_built_depth: "json_depth (JObj (Built_Value (sample_built sample_settlement))) \<le> maxJSONDepth"
  by (simp add: sample_built_def Let_def sample_settlement_def sample_payload_def sample_profile_def
      sample_reference_def base_payload_def with_settlement_def sample_input_def map_defs
      modelAttestationMap_def go_consts maxJSONDepth_def)

text \<open>A value nested as deep as the decoder admits.\<close>

fun nest :: "nat \<Rightarrow> json" where
  "nest 0 = JArr []"
| "nest (Suc n) = JArr [nest n]"

lemma nest_ok: "json_ok (nest n)" "numbers_ok A (nest n)" "nest n \<noteq> JNull" "json_depth (nest n) = Suc n"
  by (induction n) auto


section \<open>Compositions and signatures\<close>

lemma sample_verifies:
  "verifies sample_aac (Built_JSON (sample_built sample_settlement)) (Built_CapsuleID (sample_built sample_settlement))"
  by (rule Build_verifies_within_depth [OF range_ok_in_order sample_hex_ids sample_jcs_lossless
        sample_verify_by_value sample_verify_reports_id sample_settlement_build sample_built_depth])

text \<open>A second Capsule, without the chain of the first one's extension, under another identifier.\<close>

definition sample_capsule :: "string \<Rightarrow> BuiltPayload" where
  "sample_capsule cid =
     (let m = [(''format_version'', JStr FormatVersion), (''canonicalization_id'', JStr CanonicalizationID),
               (''capsule_id'', JStr cid)]
      in \<lparr>Built_CapsuleID = cid, Built_Value = m, Built_JSON = print_json (JObj m)\<rparr>)"

lemma sample_capsule_verifies:
  assumes "hexDigestPattern cid"
  shows "verifies sample_aac (Built_JSON (sample_capsule cid)) cid"
proof -
  let ?m = "[(''format_version'', JStr FormatVersion), (''canonicalization_id'', JStr CanonicalizationID),
     (''capsule_id'', JStr cid)]"
  have "decodeStrictJSON (print_json (JObj ?m)) = Inr (JObj ?m)"
    using hexDigestPattern_utf8 [OF assms]
    by (intro decode_print_json) (simp_all add: go_consts maxJSONDepth_def)
  then show ?thesis
    using assms by (simp add: verifies_iff DecodePayload_Inr_iff sample_capsule_def Let_def
        verifyClass1_def sample_aac_def sample_verify_def)
qed

lemma sample_capsule_id [simp]: "Built_CapsuleID (sample_capsule cid) = cid"
  by (simp add: sample_capsule_def Let_def)

definition sample_members :: "SlotMember list" where
  "sample_members = [Audit (MemberBuilt (sample_capsule (sample_hex 5))), Who (MemberBuilt (sample_capsule (sample_hex 6)))]"

lemma sample_hex_neq: "sample_hex 5 \<noteq> sample_hex 6"
  by (simp add: sample_hex_def hex_nibble_def)

lemma sample_composition_ok: "composition_ok sample_aac sample_members"
  using sample_hex_neq
  by (simp add: composition_ok_def sample_members_def member_ok_def Audit_def Who_def newSlotMember_def
      isCompositionSlot_def compositionSlots_def sample_hex_pattern sample_capsule_verifies go_consts)

text \<open>
  A COSE library: a signature is the key followed by the payload, and the encoded message is
  the payload in hexadecimal followed by the key.
\<close>

definition sample_cose :: cose where
  "sample_cose =
     \<lparr>cose_NewSigner = (\<lambda>alg k. Inr \<lparr>Signer_Algorithm = alg, Signer_handle = k\<rparr>),
      cose_Sign = (\<lambda>rnd m s. case Message_Payload m of
          None \<Rightarrow> Inl (External ''no payload'')
        | Some p \<Rightarrow> Inr (m\<lparr>Message_Signature := drop 32 (Signer_handle s) @ p\<rparr>)),
      cose_NewVerifier = (\<lambda>alg k. Inr k),
      cose_Verify = (\<lambda>m v. if Some (Message_Signature m) = map_option (\<lambda>p. v @ p) (Message_Payload m)
          then None else Some (External ''signature'')),
      cose_MarshalCBOR = (\<lambda>m. Inr (hex_EncodeToString (drop 32 (Message_Signature m)) @ take 32 (Message_Signature m)))\<rparr>"

definition sample_key :: bytes where
  "sample_key = replicate 64 CHR ''k''"

definition sample_identity :: SigningIdentity where
  "sample_identity =
     \<lparr>identity_signer = Some \<lparr>Signer_Algorithm = AlgorithmEdDSA, Signer_handle = sample_key\<rparr>,
      identity_publicKey = ed25519_Public sample_key\<rparr>"

lemma sample_identity: "NewEd25519SigningIdentity sample_cose sample_key = Inr sample_identity"
  by (simp add: NewEd25519SigningIdentity_def NewSigningIdentity_def sample_cose_def sample_identity_def
      sample_key_def PrivateKeySize_def PublicKeySize_def ed25519_Public_def)

lemma sample_sign: "is_ok (Sign sample_aac sample_cose [] (sample_capsule (sample_hex 5)) sample_identity)"
proof -
  obtain p where "hex_DecodeString (sample_hex 5) = Some p"
    using hex_capsule_id [OF sample_hex_pattern [of 5]] by blast
  then show ?thesis
    by (simp add: Sign_def sample_identity_def sample_key_def ed25519_Public_def PublicKeySize_def
        sample_hex_pattern sample_capsule_verifies signCapsuleID_def sample_cose_def
        unsigned_message_def Let_def)
qed

section \<open>Inputs without references and extensions\<close>

definition plain_built :: "Input \<Rightarrow> BuiltPayload" where
  "plain_built i =
     (let p = base_payload i; cid = sample_hex (length p); payload = AList.update ''capsule_id'' (JStr cid) p
      in \<lparr>Built_CapsuleID = cid, Built_Value = payload, Built_JSON = print_json (JObj payload)\<rparr>)"

lemma plain_build:
  assumes rng: "range_ok rng" and i: "input_ok i" "Input_References i = None" "Input_Extensions i = []"
    "text_ok (JObj (base_payload i))"
  shows "Build sample_aac rng i = Inr (plain_built i)"
proof (rule Build_InrI)
  show "validateInput rng i = None" using i by (simp add: validateInput_None_iff rng)
  show "profile_payload i = Inr (base_payload i)" using i by (simp add: profile_payload_def)
  show "add_extensions sample_aac rng (Input_Extensions i) (base_payload i) = Inr (base_payload i)"
    using i by simp
  show "validatePayloadText rng (JObj (base_payload i)) ''$'' = None"
    using i(4) validatePayloadText_None_iff [OF rng shape_ok_keys [OF shape_base_payload]] by blast
qed (simp_all add: plain_built_def Let_def sample_aac_def verifyClass1_def sample_verify_def sample_hex_pattern)

definition plain_input :: Input where
  "plain_input = sample_input\<lparr>Input_References := None\<rparr>"

lemma plain_input_ok:
  "input_ok plain_input" "Input_References plain_input = None" "Input_Extensions plain_input = []"
  "input_ok (plain_input\<lparr>Input_binding := bnd\<rparr>)"
  "compute_ok c \<Longrightarrow> input_ok (plain_input\<lparr>Input_Compute := Some c\<rparr>)"
proof -
  show ok: "input_ok plain_input"
    using sample_input_ok by (simp add: plain_input_def input_ok_def)
  show "Input_References plain_input = None" "Input_Extensions plain_input = []"
    by (simp_all add: plain_input_def sample_input_def)
  have "Input_Compute plain_input = None" "Input_binding plain_input = None"
    by (simp_all add: plain_input_def sample_input_def)
  with ok show "input_ok (plain_input\<lparr>Input_binding := bnd\<rparr>)"
    and "compute_ok c \<Longrightarrow> input_ok (plain_input\<lparr>Input_Compute := Some c\<rparr>)"
    by (simp_all add: input_ok_def hasAuthoredDigests_def)
qed

lemmas plain_input_eval = base_payload_def plain_input_def sample_input_def map_defs
  modelAttestationMap_def computeAttestationMap_def go_consts Let_def

definition carried_input :: Input where
  "carried_input = plain_input\<lparr>Input_binding := Some (carried_binding ''artifact'' ''text'')\<rparr>"

lemma sample_received: "Received sample_aac in_order plain_input ''artifact'' ''text'' = Inr (plain_built carried_input)"
proof -
  have "text_ok (JObj (base_payload carried_input))"
    using hexDigestPattern_utf8 [OF sample_hex_pattern [of 3]]
      hexDigestPattern_utf8 [OF rawDigest_pattern [of "''artifact''"]]
    by (simp add: carried_input_def carried_binding_def plain_input_eval)
  then have "Build sample_aac in_order carried_input = Inr (plain_built carried_input)"
    by (intro plain_build) (simp_all add: carried_input_def plain_input_ok)
  then show ?thesis by (simp add: Received_def carried_input_def blank_Cons between_def)
qed

text \<open>A seal of an agent call, with a payload and no agent output.\<close>

definition sample_seal :: SealInput where
  "sample_seal =
     \<lparr>Seal_Capsule = plain_input,
      Seal_Payload = GoValue MapKind False (Inr ''{\"leaf_index\":7}''),
      Seal_AgentOutput = GoValue PointerKind True (Inr ''null''),
      Seal_Model = None, Seal_Runtime = '''', Seal_Members = None, Seal_Identity = sample_identity\<rparr>"

definition sealed_input :: Input where
  "sealed_input = plain_input\<lparr>Input_Compute := Some \<lparr>Compute_AgentInputDigest = sample_hex 16,
     Compute_AgentOutputDigest = '''', Compute_Runtime = ''''\<rparr>\<rparr>"

lemma sealed_build: "Build sample_aac in_order sealed_input = Inr (plain_built sealed_input)"
proof -
  have "text_ok (JObj (base_payload sealed_input))"
    using hexDigestPattern_utf8 [OF sample_hex_pattern [of 3]] hexDigestPattern_utf8 [OF sample_hex_pattern [of 16]]
    by (simp add: sealed_input_def plain_input_eval)
  then show ?thesis
    by (intro plain_build)
      (simp_all add: sealed_input_def plain_input_ok compute_ok_def optional_text_def digest_field_ok_def sample_hex_pattern)
qed

lemma sample_seal_build: "seal_build sample_aac in_order sample_seal = Inr (plain_built sealed_input)"
proof -
  have "length (print_json (JObj [(''leaf_index'', JNum ''7'')])) = 16"
    by (simp add: print_string_def print_char_def)
  then have d: "digest_present sample_aac fmt (Seal_Payload sample_seal) = Inr (sample_hex 16)"
    "digest_present sample_aac fmt (Seal_AgentOutput sample_seal) = Inr ''''" for fmt
    by (simp_all add: digest_present_def sample_seal_def DigestJSON_def marshalDigestValue_def
        sample_decode sample_aac_def)
  have "(Seal_Capsule sample_seal)\<lparr>Input_Model := Seal_Model sample_seal\<rparr> = plain_input"
    by (simp add: sample_seal_def plain_input_def sample_input_def)
  then show ?thesis
    using d sealed_build unfolding seal_build_def
    by (simp add: sample_seal_def sealed_input_def hasComputeAttestation_def)
qed

lemma sealed_depth: "json_depth (JObj (Built_Value (plain_built sealed_input))) \<le> maxJSONDepth"
  by (simp add: plain_built_def sealed_input_def plain_input_eval maxJSONDepth_def)

lemma sample_seal_ok: "\<exists>r. Seal sample_aac sample_cose [] in_order sample_seal = Inr r"
proof -
  let ?b = "plain_built sealed_input"
  have "verifies sample_aac (Built_JSON ?b) (Built_CapsuleID ?b)"
    by (rule Build_verifies_within_depth [OF range_ok_in_order sample_hex_ids sample_jcs_lossless
        sample_verify_by_value sample_verify_reports_id sealed_build sealed_depth])
  moreover have hex: "hexDigestPattern (Built_CapsuleID ?b)"
    by (simp add: plain_built_def Let_def sample_hex_pattern)
  moreover obtain p where "hex_DecodeString (Built_CapsuleID ?b) = Some p"
    using hex_capsule_id [OF hex] by blast
  ultimately have "is_ok (Sign sample_aac sample_cose [] ?b sample_identity)"
    by (simp add: Sign_def sample_identity_def sample_key_def ed25519_Public_def PublicKeySize_def
        signCapsuleID_def sample_cose_def unsigned_message_def Let_def)
  moreover have "Input_Model plain_input = None" "Input_Compute plain_input = None"
    by (simp_all add: plain_input_def sample_input_def)
  moreover have "Seal_Identity sample_seal = sample_identity" "Seal_Capsule sample_seal = plain_input"
    by (simp_all add: sample_seal_def)
  ultimately show ?thesis
    by (cases "Sign sample_aac sample_cose [] ?b sample_identity")
      (simp_all add: Seal_def sample_seal_build)
qed

end
