(* ===== verification/Base64.thy ===== *)
theory Base64
  imports GoText
begin

text \<open>
  Standard base64 with padding (\<open>encoding/base64.StdEncoding\<close>), the form in which
  \<open>encoding/json/v2\<close> writes and reads a \<open>[]byte\<close>. Three bytes become four characters of
  six bits each; decoding refuses every character outside the alphabet (version 2 also
  refuses the line breaks that the package alone would skip).
\<close>

section \<open>The alphabet\<close>

definition b64_char :: "nat \<Rightarrow> char" where
  "b64_char n =
     char_of (if n < 26 then 65 + n else if n < 52 then 71 + n else if n < 62 then n - 4
              else if n = 62 then 43 else 47)"

definition b64_value :: "char \<Rightarrow> nat option" where
  "b64_value c =
     (if between 65 c 90 then Some (byte c - 65)
      else if between 97 c 122 then Some (byte c - 71)
      else if between 48 c 57 then Some (byte c + 4)
      else if byte c = 43 then Some 62
      else if byte c = 47 then Some 63
      else None)"

definition b64_pad :: char where
  "b64_pad = CHR ''=''"

lemma byte_b64_char:
  "n < 64 \<Longrightarrow> byte (b64_char n) =
     (if n < 26 then 65 + n else if n < 52 then 71 + n else if n < 62 then n - 4
      else if n = 62 then 43 else 47)"
  by (simp add: b64_char_def)

lemma b64_value_char [simp]: "n < 64 \<Longrightarrow> b64_value (b64_char n) = Some n"
  by (auto simp: b64_value_def byte_b64_char between_def)

lemma b64_char_not_pad [simp]: "n < 64 \<Longrightarrow> b64_char n \<noteq> b64_pad"
  using byte_b64_char [of n] by (auto simp: b64_pad_def split: if_splits)

text \<open>Characters of the alphabet are printable ASCII, none needs an escape in JSON.\<close>

definition plain_char :: "char \<Rightarrow> bool" where
  "plain_char c \<longleftrightarrow> 32 \<le> byte c \<and> byte c < 127 \<and> byte c \<noteq> 34 \<and> byte c \<noteq> 92"

lemma plain_b64_char: "n < 64 \<Longrightarrow> plain_char (b64_char n)"
  by (auto simp: plain_char_def byte_b64_char)

lemma plain_b64_pad: "plain_char b64_pad"
  by (simp add: plain_char_def b64_pad_def)

section \<open>Encoding\<close>

fun b64_encode :: "bytes \<Rightarrow> string" where
  "b64_encode [] = []"
| "b64_encode [a] = [b64_char (byte a div 4), b64_char (byte a mod 4 * 16), b64_pad, b64_pad]"
| "b64_encode [a, b] =
     [b64_char (byte a div 4), b64_char (byte a mod 4 * 16 + byte b div 16),
      b64_char (byte b mod 16 * 4), b64_pad]"
| "b64_encode (a # b # c # s) =
     b64_char (byte a div 4) # b64_char (byte a mod 4 * 16 + byte b div 16) #
     b64_char (byte b mod 16 * 4 + byte c div 64) # b64_char (byte c mod 64) # b64_encode s"

lemma length_b64_encode: "length (b64_encode s) = 4 * ((length s + 2) div 3)"
proof (induction s rule: b64_encode.induct)
  case (4 a b c s)
  have "(5 + length s) div 3 = Suc (Suc (Suc (length s)) div 3)" by simp
  with 4 show ?case by simp
qed simp_all

lemma byte_div4 [simp]: "byte a div 4 < 64"
  by (simp add: div_less_iff_less_mult)

lemma byte_div16 [simp]: "byte a mod 4 * 16 + byte b div 16 < 64"
proof -
  have "byte b div 16 < 16" by (simp add: div_less_iff_less_mult)
  moreover have "byte a mod 4 < 4" by simp
  ultimately show ?thesis by linarith
qed

lemma byte_div64 [simp]: "byte b mod 16 * 4 + byte c div 64 < 64"
proof -
  have "byte c div 64 < 4" by (simp add: div_less_iff_less_mult)
  moreover have "byte b mod 16 < 16" by simp
  ultimately show ?thesis by linarith
qed

lemma byte_shift [simp]: "byte a mod 4 * 16 < 64" "byte b mod 16 * 4 < 64"
proof -
  have "byte a mod 4 < 4" "byte b mod 16 < 16" by simp_all
  then show "byte a mod 4 * 16 < 64" "byte b mod 16 * 4 < 64" by linarith+
qed

lemma plain_b64_encode: "c \<in> set (b64_encode s) \<Longrightarrow> plain_char c"
  by (induction s rule: b64_encode.induct) (auto simp: plain_b64_char plain_b64_pad)

section \<open>Decoding\<close>

definition b64_three :: "nat \<Rightarrow> nat \<Rightarrow> nat \<Rightarrow> nat \<Rightarrow> bytes" where
  "b64_three w x y z =
     [char_of (w * 4 + x div 16), char_of (x mod 16 * 16 + y div 4), char_of (y mod 4 * 64 + z)]"

fun b64_decode :: "string \<Rightarrow> bytes option" where
  "b64_decode [] = Some []"
| "b64_decode (a # b # c # d # s) =
     (case (b64_value a, b64_value b) of
        (Some w, Some x) \<Rightarrow>
          if c = b64_pad \<and> d = b64_pad \<and> s = [] then Some (take 1 (b64_three w x 0 0))
          else (case b64_value c of
              None \<Rightarrow> None
            | Some y \<Rightarrow>
                if d = b64_pad \<and> s = [] then Some (take 2 (b64_three w x y 0))
                else (case (b64_value d, b64_decode s) of
                    (Some z, Some t) \<Rightarrow> Some (b64_three w x y z @ t)
                  | _ \<Rightarrow> None))
      | _ \<Rightarrow> None)"
| "b64_decode _ = None"

lemma rejoin_first: "(byte a div 4) * 4 + (byte a mod 4 * 16 + n) div 16 = byte a" if "n < 16"
proof -
  have "(byte a mod 4 * 16 + n) div 16 = byte a mod 4" using that by simp
  then show ?thesis by simp
qed

lemma rejoin_second: "(m * 16 + byte b div 16) mod 16 * 16 + (byte b mod 16 * 4 + n) div 4 = byte b" if "n < 4"
proof -
  have "byte b div 16 < 16" by (simp add: div_less_iff_less_mult)
  then have "(m * 16 + byte b div 16) mod 16 = byte b div 16" by simp
  moreover have "(byte b mod 16 * 4 + n) div 4 = byte b mod 16" using that by simp
  ultimately show ?thesis by simp
qed

lemma rejoin_third: "(m * 4 + byte c div 64) mod 4 * 64 + byte c mod 64 = byte c"
proof -
  have "byte c div 64 < 4" by (simp add: div_less_iff_less_mult)
  then show ?thesis by simp
qed

lemma b64_decode_encode [simp]: "b64_decode (b64_encode s) = Some s"
proof (induction s rule: b64_encode.induct)
  case (2 a)
  have "take 1 (b64_three (byte a div 4) (byte a mod 4 * 16) 0 0) = [a]"
    using rejoin_first [of 0 a] by (simp add: b64_three_def)
  then show ?case by simp
next
  case (3 a b)
  have "byte b div 16 < 16" by (simp add: div_less_iff_less_mult)
  then have "take 2 (b64_three (byte a div 4) (byte a mod 4 * 16 + byte b div 16) (byte b mod 16 * 4) 0) = [a, b]"
    using rejoin_first [of "byte b div 16" a] rejoin_second [of 0 "byte a mod 4" b]
    by (simp add: b64_three_def numeral_2_eq_2)
  then show ?case by simp
next
  case (4 a b c s)
  have "byte b div 16 < 16" "byte c div 64 < 4" by (simp_all add: div_less_iff_less_mult)
  then have "b64_three (byte a div 4) (byte a mod 4 * 16 + byte b div 16)
      (byte b mod 16 * 4 + byte c div 64) (byte c mod 64) = [a, b, c]"
    using rejoin_first [of "byte b div 16" a] rejoin_second [of "byte c div 64" "byte a mod 4" b]
      rejoin_third [of "byte b mod 16" c]
    by (simp add: b64_three_def)
  with 4 show ?case by simp
qed simp

lemma b64_encode_inject: "b64_encode s = b64_encode t \<longleftrightarrow> s = t"
  by (metis b64_decode_encode option.inject)

end
