(* ===== verification/JsonV2.thy ===== *)
theory JsonV2
  imports JsonFacts Base64
begin

text \<open>
  What the artifact packages use of \<open>encoding/json/v2\<close>: the text of string literals and of
  the values built from them, and a reader for a whole JSON text. The reader differs from
  the token stream of version 1: it refuses lone surrogates and duplicate names at every
  level, and its depth limit is 10000. Reading an object reports the members read before
  an error as well, because \<open>Unmarshal\<close> has assigned them to the target by then.
\<close>

section \<open>Writing\<close>

definition v2_escape :: "char \<Rightarrow> string" where
  "v2_escape c =
     (if byte c = 8 then [CHR 0x5C, CHR ''b'']
      else if byte c = 12 then [CHR 0x5C, CHR ''f'']
      else if byte c = 10 then [CHR 0x5C, CHR ''n'']
      else if byte c = 13 then [CHR 0x5C, CHR ''r'']
      else if byte c = 9 then [CHR 0x5C, CHR ''t'']
      else print_char c)"

definition v2_quote :: "string \<Rightarrow> string" where
  "v2_quote s = CHR 0x22 # concat (map v2_escape s) @ [CHR 0x22]"

fun v2_print :: "json \<Rightarrow> string" where
  "v2_print JNull = ''null''"
| "v2_print (JBool b) = (if b then ''true'' else ''false'')"
| "v2_print (JNum n) = n"
| "v2_print (JStr s) = v2_quote s"
| "v2_print (JArr vs) = CHR ''['' # join_comma (map v2_print vs) @ [CHR '']'']"
| "v2_print (JObj m) =
     CHR ''{'' # join_comma (map (\<lambda>kv. v2_quote (fst kv) @ CHR '':'' # v2_print (snd kv)) m) @ [CHR ''}'']"

abbreviation v2_member :: "string \<times> json \<Rightarrow> string" where
  "v2_member kv \<equiv> v2_quote (fst kv) @ CHR '':'' # v2_print (snd kv)"

section \<open>Reading\<close>

text \<open>Every escaped surrogate in the raw text of a literal is part of a pair.\<close>

function paired :: "string \<Rightarrow> bool" where
  "paired [] = True"
| "paired (c # s) =
     (if byte c = 92 then
        (case s of
           [] \<Rightarrow> True
         | e # t \<Rightarrow>
             if byte e = 117 then
               (case hex4 t of
                  None \<Rightarrow> False
                | Some (n, r) \<Rightarrow>
                    if \<not> surrogate n then paired r
                    else (case r of
                        x # y # u \<Rightarrow>
                          if byte x = 92 \<and> byte y = 117 \<and> n < 0xDC00 then
                            (case hex4 u of
                               Some (k, q) \<Rightarrow> 0xDC00 \<le> k \<and> k \<le> 0xDFFF \<and> paired q
                             | None \<Rightarrow> False)
                          else False
                      | _ \<Rightarrow> False))
             else paired t)
      else paired s)"
  by pat_completeness auto
termination
  by (relation "measure length") (auto dest!: hex4_shrinks)

definition v2_string :: "string scanner" where
  "v2_string t = (case lex_string t of
       None \<Rightarrow> None
     | Some (x, r) \<Rightarrow>
         (let raw = take (length t - length r - 1) t in
          if utf8_valid raw \<and> paired raw then Some (x, r) else None))"

definition v2_max_depth :: nat where
  "v2_max_depth = 10000"

text \<open>A member name with the comma before it, if it is not the first, and the colon after it.\<close>

definition v2_name :: "bool \<Rightarrow> string scanner" where
  "v2_name first s =
     (case (if first then s else (case s of c # t \<Rightarrow> if c = CHR '','' then skip_space t else [] | [] \<Rightarrow> [])) of
        [] \<Rightarrow> None
      | e # u \<Rightarrow>
          if e \<noteq> CHR 0x22 then None
          else (case v2_string u of
              None \<Rightarrow> None
            | Some (k, r) \<Rightarrow>
                (case skip_space r of
                   [] \<Rightarrow> None
                 | b # q \<Rightarrow> if b = CHR '':'' then Some (k, q) else None)))"

definition v2_scalar :: "json scanner" where
  "v2_scalar s = (case s of
       [] \<Rightarrow> None
     | c # t \<Rightarrow>
         if c = CHR 0x22 then map_option (\<lambda>(x, r). (JStr x, r)) (v2_string t)
         else if c = CHR ''t'' then map_option (\<lambda>r. (JBool True, r)) (match ''rue'' t)
         else if c = CHR ''f'' then map_option (\<lambda>r. (JBool False, r)) (match ''alse'' t)
         else if c = CHR ''n'' then map_option (\<lambda>r. (JNull, r)) (match ''ull'' t)
         else map_option (\<lambda>(n, r). (JNum n, r)) (lex_number s))"

text \<open>
  \<open>v2_members\<close> returns the members read and the rest of the input after the closing brace,
  or no rest where the text is in error. The flag tells the first member from later ones.
\<close>

function v2_value :: "nat \<Rightarrow> nat \<Rightarrow> string \<Rightarrow> (json \<times> string) option"
  and v2_members :: "nat \<Rightarrow> nat \<Rightarrow> bool \<Rightarrow> members \<Rightarrow> string \<Rightarrow> members \<times> string option"
  and v2_elements :: "nat \<Rightarrow> nat \<Rightarrow> bool \<Rightarrow> json list \<Rightarrow> string \<Rightarrow> (json list \<times> string) option"
where
  "v2_value 0 d s = None"
| "v2_value (Suc f) d s =
     (case skip_space s of
        [] \<Rightarrow> None
      | c # t \<Rightarrow>
          if c = CHR ''{'' then
            (if v2_max_depth \<le> d then None
             else (case v2_members f (Suc d) True [] t of
                 (m, None) \<Rightarrow> None
               | (m, Some r) \<Rightarrow> Some (JObj m, r)))
          else if c = CHR ''['' then
            (if v2_max_depth \<le> d then None
             else (case v2_elements f (Suc d) True [] t of
                 None \<Rightarrow> None
               | Some (vs, r) \<Rightarrow> Some (JArr vs, r)))
          else v2_scalar (c # t))"
| "v2_members 0 d first acc s = (acc, None)"
| "v2_members (Suc f) d first acc s =
     (case skip_space s of
        [] \<Rightarrow> (acc, None)
      | c # t \<Rightarrow>
          if c = CHR ''}'' then (acc, Some t)
          else (case v2_name first (c # t) of
              None \<Rightarrow> (acc, None)
            | Some (k, q) \<Rightarrow>
                if has_key acc k then (acc, None)
                else (case v2_value f d q of
                    None \<Rightarrow> (acc, None)
                  | Some (v, w) \<Rightarrow> v2_members f d False (acc @ [(k, v)]) w)))"
| "v2_elements 0 d first acc s = None"
| "v2_elements (Suc f) d first acc s =
     (case skip_space s of
        [] \<Rightarrow> None
      | c # t \<Rightarrow>
          if c = CHR '']'' then Some (acc, t)
          else if \<not> first \<and> c \<noteq> CHR '','' then None
          else (case v2_value f d (if first then c # t else t) of
              None \<Rightarrow> None
            | Some (v, w) \<Rightarrow> v2_elements f d False (acc @ [v]) w))"
  by pat_completeness auto
termination
  by (relation "measure (\<lambda>x. case x of Inl (f, _) \<Rightarrow> f | Inr (Inl (f, _)) \<Rightarrow> f | Inr (Inr (f, _)) \<Rightarrow> f)") simp_all

definition v2_fuel :: "string \<Rightarrow> nat" where
  "v2_fuel s = 2 * length s + 2"

lemmas [go_eval] = v2_escape_def v2_quote_def v2_string_def v2_name_def v2_scalar_def v2_fuel_def v2_max_depth_def

section \<open>The fuel is enough\<close>

lemma v2_string_shrinks: "v2_string t = Some (x, r) \<Longrightarrow> length r < length t"
  by (auto simp: v2_string_def Let_def dest: lex_string_shrinks split: option.splits prod.splits if_splits)

lemma skip_space_ConsD: "skip_space s = c # t \<Longrightarrow> length t < length s"
  using skip_space_length [of s] by simp

lemma match_shrinks: "match p s = Some r \<Longrightarrow> length r \<le> length s"
  by (auto simp: match_append)

lemma v2_scalar_shrinks: "v2_scalar s = Some (v, r) \<Longrightarrow> length r < length s"
  by (auto simp: v2_scalar_def dest!: v2_string_shrinks match_shrinks lex_number_shrinks
      split: list.splits if_splits)

lemma v2_name_shrinks:
  assumes "v2_name first s = Some (k, q)"
  shows "length q < length s"
proof -
  define s' where "s' = (if first then s else (case s of c # t \<Rightarrow> if c = CHR '','' then skip_space t else [] | [] \<Rightarrow> []))"
  have le: "length s' \<le> length s"
    using skip_space_length [of "tl s"] by (auto simp: s'_def split: list.splits)
  from assms obtain e u r b where *: "s' = e # u" "v2_string u = Some (k, r)" "skip_space r = b # q"
    unfolding v2_name_def s'_def [symmetric] by (auto split: list.splits option.splits if_splits)
  with v2_string_shrinks [OF *(2)] skip_space_ConsD [OF *(3)] le show ?thesis by simp
qed

lemma v2_shrinks:
  "v2_value f d s = Some (v, r) \<Longrightarrow> length r < length s"
  "v2_members f d first acc s = (m, Some r) \<Longrightarrow> length r < length s"
  "v2_elements f d first vs s = Some (ws, r) \<Longrightarrow> length r < length s"
proof (induction f d s and f d first acc s and f d first vs s arbitrary: v r and m r and ws r
    rule: v2_value_v2_members_v2_elements.induct)
  case (2 f d s)
  then show ?case
    by (fastforce dest: skip_space_ConsD v2_scalar_shrinks split: list.splits if_splits prod.splits option.splits)
next
  case (4 f d first acc s)
  then obtain c t where ct: "skip_space s = c # t" by (auto split: list.splits)
  then have lt: "length t < length s" by (rule skip_space_ConsD)
  show ?case
  proof (cases "c = CHR ''}''")
    case True
    with 4 ct lt show ?thesis by simp
  next
    case False
    with "4.prems" ct obtain k q v w where step: "v2_name first (c # t) = Some (k, q)" "\<not> has_key acc k"
      "v2_value f d q = Some (v, w)" "v2_members f d False (acc @ [(k, v)]) w = (m, Some r)"
      by (auto split: option.splits prod.splits if_splits)
    have "length q < length (c # t)" using v2_name_shrinks [OF step(1)] .
    moreover have "length w < length q" using "4.IH"(1) [OF ct False step(1) refl step(2,3)] .
    moreover have "length r < length w"
      using "4.IH"(2) [OF ct False step(1) refl step(2,3) refl step(4)] .
    ultimately show ?thesis using lt by simp
  qed
next
  case (6 f d first vs s)
  then obtain c t where ct: "skip_space s = c # t" by (auto split: list.splits)
  then have lt: "length t < length s" by (rule skip_space_ConsD)
  show ?case
  proof (cases "c = CHR '']''")
    case True
    with 6 ct lt show ?thesis by simp
  next
    case False
    with "6.prems" ct obtain v w where sep: "\<not> (\<not> first \<and> c \<noteq> CHR '','')"
      and step: "v2_value f d (if first then c # t else t) = Some (v, w)"
      "v2_elements f d False (vs @ [v]) w = Some (ws, r)"
      by (auto split: option.splits prod.splits if_splits)
    have "length w < length (if first then c # t else t)" using "6.IH"(1) [OF ct False sep step(1)] .
    moreover have "length r < length w" using "6.IH"(2) [OF ct False sep step(1) refl step(2)] .
    ultimately show ?thesis using lt by (auto split: if_splits)
  qed
qed simp_all

lemma v2_fuel_irrelevant:
  "2 * length s < f \<Longrightarrow> 2 * length s < g \<Longrightarrow> v2_value f d s = v2_value g d s"
  "2 * length s < f \<Longrightarrow> 2 * length s < g \<Longrightarrow> v2_members f d first acc s = v2_members g d first acc s"
  "2 * length s + 1 < f \<Longrightarrow> 2 * length s + 1 < g \<Longrightarrow> v2_elements f d first vs s = v2_elements g d first vs s"
proof (induction f d s and f d first acc s and f d first vs s arbitrary: g and g and g
    rule: v2_value_v2_members_v2_elements.induct)
  case (2 f d s)
  from "2.prems"(2) obtain h where g: "g = Suc h" by (cases g) simp_all
  show ?case
  proof (cases "skip_space s")
    case (Cons c t)
    then have lt: "length t < length s" by (rule skip_space_ConsD)
    show ?thesis
    proof (cases "v2_max_depth \<le> d")
      case False
      have "c = CHR ''{'' \<Longrightarrow> v2_members f (Suc d) True [] t = v2_members h (Suc d) True [] t"
        by (rule "2.IH"(1) [OF Cons _ False]) (use 2 g lt in simp_all)
      moreover have "c = CHR ''['' \<Longrightarrow> v2_elements f (Suc d) True [] t = v2_elements h (Suc d) True [] t"
        by (rule "2.IH"(2) [OF Cons _ _ False]) (use 2 g lt in simp_all)
      ultimately show ?thesis using Cons g by simp
    qed (simp add: Cons g)
  qed (simp add: g)
next
  case (4 f d first acc s)
  from "4.prems"(2) obtain h where g: "g = Suc h" by (cases g) simp_all
  show ?case
  proof (cases "skip_space s")
    case (Cons c t)
    then have lt: "length t < length s" by (rule skip_space_ConsD)
    show ?thesis
    proof (cases "v2_name first (c # t)")
      case (Some kq)
      obtain k q where kq: "kq = (k, q)" by (cases kq)
      have q: "length q < length s" using v2_name_shrinks [OF Some [unfolded kq]] lt by simp
      show ?thesis
      proof (cases "c = CHR ''}'' \<or> has_key acc k")
        case False
        then have no: "c \<noteq> CHR ''}''" "\<not> has_key acc k" by simp_all
        have bounds: "2 * length q < f" "2 * length q < h" using "4.prems" g q by linarith+
        have val: "v2_value f d q = v2_value h d q"
          by (rule "4.IH"(1) [OF Cons no(1) Some kq [symmetric] no(2) bounds])
        show ?thesis
        proof (cases "v2_value f d q")
          case None
          with val no Some kq show ?thesis by (simp add: g Cons)
        next
          case (Some vw)
          obtain v w where vw: "vw = (v, w)" by (cases vw)
          have w: "length w < length q" using v2_shrinks(1) [OF Some [unfolded vw]] .
          have "v2_members f d False (acc @ [(k, v)]) w = v2_members h d False (acc @ [(k, v)]) w"
            by (rule "4.IH"(2) [OF Cons no(1) \<open>v2_name first (c # t) = Some kq\<close> kq [symmetric] no(2) Some vw [symmetric]])
              (use bounds w in linarith)+
          then show ?thesis
            using val [symmetric] Some vw no \<open>v2_name first (c # t) = Some kq\<close> kq
              by (simp add: g Cons)
        qed
      qed (auto simp: g Cons Some kq)
    qed (simp add: g Cons)
  qed (simp add: g)
next
  case (6 f d first vs s)
  from "6.prems"(2) obtain h where g: "g = Suc h" by (cases g) simp_all
  show ?case
  proof (cases "skip_space s")
    case (Cons c t)
    then have lt: "length t < length s" by (rule skip_space_ConsD)
    let ?u = "if first then c # t else t"
    show ?thesis
    proof (cases "c = CHR '']'' \<or> \<not> first \<and> c \<noteq> CHR '',''")
      case False
      then have no: "c \<noteq> CHR '']''" "\<not> (\<not> first \<and> c \<noteq> CHR '','')" by simp_all
      have len: "length ?u \<le> length s" using lt by (cases first) (use Cons skip_space_length [of s] in simp_all)
      have u: "2 * length ?u < f" "2 * length ?u < h" using len "6.prems" g by linarith+
      have val: "v2_value f d ?u = v2_value h d ?u"
        by (rule "6.IH"(1) [OF Cons no u])
      show ?thesis
      proof (cases "v2_value f d ?u")
        case None
        with val no show ?thesis by (simp add: g Cons)
      next
        case (Some vw)
        obtain v w where vw: "vw = (v, w)" by (cases vw)
        have w: "length w < length ?u" using v2_shrinks(1) [OF Some [unfolded vw]] .
        have "v2_elements f d False (vs @ [v]) w = v2_elements h d False (vs @ [v]) w"
          by (rule "6.IH"(2) [OF Cons no Some vw [symmetric]]) (use u w in linarith)+
        then show ?thesis
          using val [symmetric] Some vw no
            by (simp only: g v2_elements.simps(2) Cons list.case if_False option.case prod.case)
      qed
    qed (auto simp: g Cons)
  qed (simp add: g)
qed simp_all

section \<open>Reading what was written\<close>

text \<open>The values the artifact records are made of: strings, arrays and objects.\<close>

fun textual :: "json \<Rightarrow> bool" where
  "textual (JStr s) = utf8_valid s"
| "textual (JArr vs) = (\<forall>v \<in> set vs. textual v)"
| "textual (JObj m) = (distinct (keys m) \<and> (\<forall>(k, v) \<in> set m. utf8_valid k \<and> textual v))"
| "textual _ = False"

lemma lex_string_escape:
  "lex_string (v2_escape c @ t) = (case lex_string t of None \<Rightarrow> None | Some (x, r) \<Rightarrow> Some (c # x, r))"
proof (cases "byte c \<in> {8, 9, 10, 12, 13}")
  case True
  then obtain n :: nat where "n \<in> {8, 9, 10, 12, 13}" "c = char_of n"
    by (rule that [of "byte c"]) simp
  then show ?thesis
    by (auto simp: v2_escape_def simple_escape_def lex_string.simps(2) split: option.splits)
next
  case False
  then have "v2_escape c = print_char c" by (simp add: v2_escape_def)
  then show ?thesis by (simp only: lex_string_print_char)
qed

lemma lex_string_quoted: "lex_string (concat (map v2_escape s) @ CHR 0x22 # t) = Some (s, t)"
  by (induction s) (auto simp: lex_string.simps(2) lex_string_escape)

lemma hex4_control:
  assumes "n < 256"
  shows "hex4 (CHR ''0'' # CHR ''0'' # hex_char (n div 16) # hex_char (n mod 16) # t) = Some (n, t)"
proof -
  have "n div 16 < 16" "n mod 16 < 16" using assms by (simp_all add: div_less_iff_less_mult)
  moreover have "hex_digit CHR ''0'' = Some 0" by (simp add: hex_digit_def between_def)
  ultimately show ?thesis by (simp add: hex4_def hex_digit_hex_char mult.commute)
qed

lemma paired_escape: "paired (v2_escape c @ t) = paired t"
proof -
  consider "byte c \<in> {8, 9, 10, 12, 13, 34, 92}" | "byte c < 32" "byte c \<notin> {8, 9, 10, 12, 13}"
    | "byte c \<ge> 32" "byte c \<noteq> 34" "byte c \<noteq> 92"
    by fastforce
  then show ?thesis
  proof cases
    case 1
    then show ?thesis by (auto simp: v2_escape_def print_char_def)
  next
    case 2
    then have "v2_escape c = CHR 0x5C # ''u00'' @ [hex_char (byte c div 16), hex_char (byte c mod 16)]"
      by (simp add: v2_escape_def print_char_def)
    with 2 hex4_control [of "byte c" t] show ?thesis by (simp add: surrogate_def)
  next
    case 3
    then show ?thesis by (simp add: v2_escape_def print_char_def)
  qed
qed

lemma paired_quoted: "paired (concat (map v2_escape s))"
  by (induction s) (auto simp: paired_escape)

lemma v2_string_quoted:
  assumes "utf8_valid s"
  shows "v2_string (concat (map v2_escape s) @ CHR 0x22 # r) = Some (s, r)"
proof -
  have "utf8_valid (concat (map v2_escape s))"
    by (rule escape_utf8 [OF _ _ assms])
      (auto simp: v2_escape_def print_char_def hex_char_def split: if_splits)
  with paired_quoted [of s] show ?thesis
    by (simp add: v2_string_def lex_string_quoted)
qed

definition v2_fits :: "nat \<Rightarrow> json \<Rightarrow> bool" where
  "v2_fits d v \<longleftrightarrow> d + json_depth v \<le> v2_max_depth"

text \<open>A value reads back, whatever follows it and however much fuel beyond its text is left.\<close>

definition v2_reads :: "json \<Rightarrow> bool" where
  "v2_reads v \<longleftrightarrow> (\<forall>f d r. textual v \<longrightarrow> v2_fits d v \<longrightarrow> 2 * length (v2_print v @ r) < f \<longrightarrow>
     v2_value f d (v2_print v @ r) = Some (v, r))"

lemma v2_readsD:
  "v2_reads v \<Longrightarrow> textual v \<Longrightarrow> v2_fits d v \<Longrightarrow> 2 * length (v2_print v @ r) < f \<Longrightarrow>
     v2_value f d (v2_print v @ r) = Some (v, r)"
  by (simp add: v2_reads_def)

lemma v2_print_head:
  assumes "textual v"
  obtains c t where "v2_print v = c # t" "\<not> json_space c" "c \<noteq> CHR '']''" "c \<noteq> CHR '',''"
proof -
  consider s where "v = JStr s" | vs where "v = JArr vs" | m where "v = JObj m"
    using assms by (cases v) auto
  then show thesis
  proof cases
    case 1
    then show thesis by (intro that [of "CHR 0x22"]) (simp_all add: v2_quote_def json_space_def)
  next
    case 2
    then show thesis by (intro that [of "CHR ''[''"]) (simp_all add: json_space_def)
  next
    case 3
    then show thesis by (intro that [of "CHR ''{''"]) (simp_all add: json_space_def)
  qed
qed

lemma v2_elements_print:
  assumes "\<forall>v \<in> set vs. v2_reads v \<and> textual v \<and> v2_fits d v"
    and "s = (if first then join_comma (map v2_print vs)
              else concat (map (\<lambda>y. CHR '','' # y) (map v2_print vs))) @ CHR '']'' # r"
    and "2 * length s + 1 < f"
  shows "v2_elements f d first acc s = Some (acc @ vs, r)"
  using assms
proof (induction vs arbitrary: f first acc s)
  case Nil
  then obtain g where "f = Suc g" by (cases f) auto
  with Nil show ?case by (simp add: json_space_def)
next
  case (Cons v vs)
  then obtain g where g: "f = Suc g" by (cases f) auto
  define w where "w = concat (map (\<lambda>y. CHR '','' # y) (map v2_print vs)) @ CHR '']'' # r"
  have v: "v2_reads v" "textual v" "v2_fits d v" using Cons.prems(1) by auto
  obtain c t where ct: "v2_print v = c # t" "\<not> json_space c" "c \<noteq> CHR '']''" "c \<noteq> CHR '',''"
    using v(2) by (rule v2_print_head)
  have s: "s = (if first then v2_print v @ w else CHR '','' # v2_print v @ w)"
    using Cons.prems(2) by (simp add: w_def)
  have fuel: "2 * length (v2_print v @ w) < g" using Cons.prems(3) s g by (cases first) simp_all
  have val: "v2_value g d (v2_print v @ w) = Some (v, w)"
    by (rule v2_readsD [OF v fuel])
  have rest: "v2_elements g d False (acc @ [v]) w = Some ((acc @ [v]) @ vs, r)"
    by (rule Cons.IH) (use Cons.prems(1) fuel ct in \<open>simp_all add: w_def\<close>)
  show ?case
  proof (cases first)
    case True
    with s ct g val rest show ?thesis by simp
  next
    case False
    with s g val rest show ?thesis by (simp add: json_space_def)
  qed
qed

lemma v2_name_quoted:
  assumes "utf8_valid k"
  shows "v2_name first ((if first then [] else [CHR '','']) @ v2_quote k @ CHR '':'' # r) = Some (k, r)"
  using assms
  by (simp add: v2_name_def v2_quote_def v2_string_quoted json_space_def)

lemma v2_members_print:
  assumes "\<forall>(k, v) \<in> set m. v2_reads v \<and> textual v \<and> v2_fits d v \<and> utf8_valid k"
    and "s = (if first then join_comma (map v2_member m)
              else concat (map (\<lambda>y. CHR '','' # y) (map v2_member m))) @ CHR ''}'' # r"
    and "2 * length s < f" and "distinct (keys (acc @ m))"
  shows "v2_members f d first acc s = (acc @ m, Some r)"
  using assms
proof (induction m arbitrary: f first acc s)
  case Nil
  then obtain g where "f = Suc g" by (cases f) auto
  with Nil show ?case by (simp add: json_space_def)
next
  case (Cons kv m)
  then obtain g where g: "f = Suc g" by (cases f) auto
  obtain k v where kv: "kv = (k, v)" by (cases kv)
  define w where "w = concat (map (\<lambda>y. CHR '','' # y) (map v2_member m)) @ CHR ''}'' # r"
  have v: "v2_reads v" "textual v" "v2_fits d v" and k: "utf8_valid k" using Cons.prems(1) kv by auto
  have s: "s = (if first then [] else [CHR '','']) @ v2_quote k @ CHR '':'' # v2_print v @ w"
    using Cons.prems(2) kv by (cases first) (simp_all add: w_def)
  obtain c t where ct: "s = c # t" "\<not> json_space c" "c \<noteq> CHR ''}''"
    using s by (cases first) (simp_all add: v2_quote_def json_space_def)
  have fuel: "2 * length (v2_print v @ w) < g" using Cons.prems(3) s g by simp
  have name: "v2_name first (c # t) = Some (k, v2_print v @ w)"
    using v2_name_quoted [OF k, of first "v2_print v @ w"] s ct(1) by simp
  have val: "v2_value g d (v2_print v @ w) = Some (v, w)"
    by (rule v2_readsD [OF v fuel])
  have rest: "v2_members g d False (acc @ [(k, v)]) w = ((acc @ [(k, v)]) @ m, Some r)"
    by (rule Cons.IH) (use Cons.prems(1,4) kv fuel in \<open>simp_all add: w_def\<close>)
  have "\<not> has_key acc k" using Cons.prems(4) kv by (auto simp: has_key_def)
  with g ct name val rest kv show ?case by simp
qed

lemma v2_reads: "v2_reads v"
proof (induction v)
  case (JArr vs)
  show ?case unfolding v2_reads_def
  proof (intro allI impI)
    fix f d r
    assume a: "textual (JArr vs)" "v2_fits d (JArr vs)" "2 * length (v2_print (JArr vs) @ r) < f"
    then obtain g where g: "f = Suc g" by (cases f) auto
    have d: "d < v2_max_depth" "\<forall>v \<in> set vs. v2_fits (Suc d) v"
      using a(2) depth_arr_iff [of "v2_max_depth - d" vs] by (simp_all add: v2_fits_def) fastforce
    have "v2_elements g (Suc d) True [] (join_comma (map v2_print vs) @ CHR '']'' # r) = Some ([] @ vs, r)"
      by (rule v2_elements_print) (use a JArr d g in auto)
    with d g show "v2_value f d (v2_print (JArr vs) @ r) = Some (JArr vs, r)"
      by (simp add: json_space_def)
  qed
next
  case (JObj m)
  show ?case unfolding v2_reads_def
  proof (intro allI impI)
    fix f d r
    assume a: "textual (JObj m)" "v2_fits d (JObj m)" "2 * length (v2_print (JObj m) @ r) < f"
    then obtain g where g: "f = Suc g" by (cases f) auto
    have d: "d < v2_max_depth" "\<forall>(k, v) \<in> set m. v2_fits (Suc d) v"
      using a(2) depth_obj_iff [of "v2_max_depth - d" m] by (simp_all add: v2_fits_def) fastforce
    have "v2_members g (Suc d) True [] (join_comma (map v2_member m) @ CHR ''}'' # r) = ([] @ m, Some r)"
      by (rule v2_members_print) (use a JObj d g in \<open>auto 0 3\<close>)
    with d g show "v2_value f d (v2_print (JObj m) @ r) = Some (JObj m, r)"
      by (simp add: json_space_def)
  qed
qed (auto simp: v2_reads_def gr0_conv_Suc v2_scalar_def v2_quote_def v2_string_quoted json_space_def
    dest!: less_imp_Suc_add)

text \<open>Nothing that is written has a control character: a printed value is one line of text.\<close>

lemma v2_escape_clean: "c \<in> set (v2_escape b) \<Longrightarrow> 32 \<le> byte c"
  by (auto simp: v2_escape_def print_char_def hex_char_def split: if_splits)

lemma v2_quote_clean: "c \<in> set (v2_quote s) \<Longrightarrow> 32 \<le> byte c"
  by (auto simp: v2_quote_def v2_escape_clean)

lemma join_comma_set: "set (join_comma xs) \<subseteq> insert (CHR '','') (\<Union> (set ` set xs))"
  by (cases xs) auto

lemma join_comma_clean:
  "c \<in> set (join_comma xs) \<Longrightarrow> (\<And>x d. x \<in> set xs \<Longrightarrow> d \<in> set x \<Longrightarrow> 32 \<le> byte d) \<Longrightarrow> 32 \<le> byte c"
  using join_comma_set [of xs] by fastforce

lemma v2_print_clean: "textual v \<Longrightarrow> c \<in> set (v2_print v) \<Longrightarrow> 32 \<le> byte c"
proof (induction v arbitrary: c)
  case (JArr vs)
  have "32 \<le> byte c" if "c \<in> set (join_comma (map v2_print vs))"
    by (rule join_comma_clean [OF that]) (use JArr in auto)
  with JArr.prems(2) show ?case by auto
next
  case (JObj m)
  have member: "32 \<le> byte d" if "(k, v) \<in> set m" "d \<in> set (v2_quote k) \<or> d = CHR '':'' \<or> d \<in> set (v2_print v)" for k v d
  proof -
    have "textual v" using JObj.prems(1) that(1) by auto
    with JObj.IH [of "(k, v)" v d] that v2_quote_clean [of d k] show ?thesis by auto
  qed
  have "32 \<le> byte c" if "c \<in> set (join_comma (map v2_member m))"
  proof (rule join_comma_clean [OF that])
    fix x d assume "x \<in> set (map v2_member m)" "d \<in> set x"
    then obtain k v where "(k, v) \<in> set m" "x = v2_member (k, v)" by auto
    with member [of k v d] \<open>d \<in> set x\<close> show "32 \<le> byte d" by auto
  qed
  with JObj.prems(2) show ?case by auto
qed (auto simp: v2_quote_clean)

end
