(* ===== verification/RecordJson.thy ===== *)
theory RecordJson
  imports JsonV2 Constants
begin

text \<open>
  The records of \<open>artifact/record.go\<close> and their JSON form, as \<open>encoding/json/v2\<close> writes and
  reads it from the struct tags: the line of the JSONL store and the input of the storage
  checksum. Members appear in the order of the fields; \<open>omitempty\<close> drops a member whose
  encoding is the empty string, so empty content is dropped like nil content.
\<close>

section \<open>Records\<close>

type_synonym DigestField = string
type_synonym RetentionState = string

definition PayloadDigest :: DigestField where
  "PayloadDigest = ''model_attestation.compute_attestation.agent_input_digest''"
definition AgentOutputDigest :: DigestField where
  "AgentOutputDigest = ''model_attestation.compute_attestation.agent_output_digest''"
definition EffectRequestDigest :: DigestField where
  "EffectRequestDigest = ''effect.request_digest''"
definition EffectResponseDigest :: DigestField where
  "EffectResponseDigest = ''effect.response_digest''"

definition Present :: RetentionState where "Present = ''present''"
definition Purged :: RetentionState where "Purged = ''purged''"
definition NeverRetained :: RetentionState where "NeverRetained = ''never_retained''"

lemmas [go_consts] = PayloadDigest_def AgentOutputDigest_def EffectRequestDigest_def
  EffectResponseDigest_def Present_def Purged_def NeverRetained_def

lemma states_distinct [simp]:
  "Present \<noteq> Purged" "Purged \<noteq> Present" "Present \<noteq> NeverRetained" "NeverRetained \<noteq> Present"
  "Purged \<noteq> NeverRetained" "NeverRetained \<noteq> Purged"
  by (simp_all add: Present_def Purged_def NeverRetained_def)

text \<open>\<open>Content\<close> is an option because the code tells a nil slice from an empty one.\<close>

record Artifact =
  Artifact_Name :: string
  Artifact_Binding :: DigestField
  Artifact_Content :: "bytes option"
  Artifact_State :: RetentionState
  Artifact_ContentSHA256 :: string

record Record =
  Record_CapsuleID :: string
  Record_Capsule :: bytes
  Record_ProducerEnvelope :: bytes
  Record_Artifacts :: "Artifact list"

definition zero_artifact :: Artifact where
  "zero_artifact = \<lparr>Artifact_Name = '''', Artifact_Binding = '''', Artifact_Content = None,
     Artifact_State = '''', Artifact_ContentSHA256 = ''''\<rparr>"

definition zero_record :: Record where
  "zero_record = \<lparr>Record_CapsuleID = '''', Record_Capsule = '''', Record_ProducerEnvelope = '''',
     Record_Artifacts = []\<rparr>"

section \<open>Writing\<close>

definition text_member :: "string \<Rightarrow> string \<Rightarrow> members" where
  "text_member k s = (if s = '''' then [] else [(k, JStr s)])"

definition artifact_json :: "Artifact \<Rightarrow> json" where
  "artifact_json a = JObj
     ([(''name'', JStr (Artifact_Name a))] @
      text_member ''binding'' (Artifact_Binding a) @
      (case Artifact_Content a of None \<Rightarrow> [] | Some c \<Rightarrow> text_member ''content'' (b64_encode c)) @
      [(''state'', JStr (Artifact_State a))] @
      text_member ''content_sha256'' (Artifact_ContentSHA256 a))"

definition record_json :: "Record \<Rightarrow> json" where
  "record_json r = JObj
     [(''capsule_id'', JStr (Record_CapsuleID r)),
      (''capsule'', JStr (b64_encode (Record_Capsule r))),
      (''producer_envelope'', JStr (b64_encode (Record_ProducerEnvelope r))),
      (''artifacts'', JArr (map artifact_json (Record_Artifacts r)))]"

text \<open>Marshalling fails on a string that is not UTF-8.\<close>

definition artifact_utf8 :: "Artifact \<Rightarrow> bool" where
  "artifact_utf8 a \<longleftrightarrow> utf8_valid (Artifact_Name a) \<and> utf8_valid (Artifact_Binding a) \<and>
     utf8_valid (Artifact_State a) \<and> utf8_valid (Artifact_ContentSHA256 a)"

definition record_utf8 :: "Record \<Rightarrow> bool" where
  "record_utf8 r \<longleftrightarrow> utf8_valid (Record_CapsuleID r) \<and> (\<forall>a \<in> set (Record_Artifacts r). artifact_utf8 a)"

definition marshalRecord :: "Record \<Rightarrow> bytes res" where
  "marshalRecord r =
     (if record_utf8 r then Inr (v2_print (record_json r))
      else Inl (External ''jsontext: invalid UTF-8''))"

section \<open>Reading\<close>

text \<open>A missing member and a null leave the zero value; a value of another kind is an error.\<close>

fun text_of :: "json option \<Rightarrow> string option" where
  "text_of None = Some ''''"
| "text_of (Some JNull) = Some ''''"
| "text_of (Some (JStr s)) = Some s"
| "text_of (Some _) = None"

fun content_of :: "json option \<Rightarrow> bytes option option" where
  "content_of None = Some None"
| "content_of (Some JNull) = Some None"
| "content_of (Some (JStr s)) = map_option Some (b64_decode s)"
| "content_of (Some _) = None"

definition bytes_of :: "json option \<Rightarrow> bytes option" where
  "bytes_of v = map_option (\<lambda>c. case c of None \<Rightarrow> '''' | Some b \<Rightarrow> b) (content_of v)"

fun artifact_of :: "json \<Rightarrow> Artifact option" where
  "artifact_of JNull = Some zero_artifact"
| "artifact_of (JObj m) =
     (case (text_of (map_of m ''name''), text_of (map_of m ''binding''), content_of (map_of m ''content''),
            text_of (map_of m ''state''), text_of (map_of m ''content_sha256'')) of
        (Some name, Some binding, Some content, Some state, Some sha) \<Rightarrow>
          Some \<lparr>Artifact_Name = name, Artifact_Binding = binding, Artifact_Content = content,
            Artifact_State = state, Artifact_ContentSHA256 = sha\<rparr>
      | _ \<Rightarrow> None)"
| "artifact_of _ = None"

fun each :: "('a \<Rightarrow> 'b option) \<Rightarrow> 'a list \<Rightarrow> 'b list option" where
  "each f [] = Some []"
| "each f (x # xs) = (case f x of None \<Rightarrow> None | Some y \<Rightarrow> map_option ((#) y) (each f xs))"

fun artifacts_of :: "json option \<Rightarrow> Artifact list option" where
  "artifacts_of None = Some []"
| "artifacts_of (Some JNull) = Some []"
| "artifacts_of (Some (JArr vs)) = each artifact_of vs"
| "artifacts_of (Some _) = None"

fun record_of :: "json \<Rightarrow> Record option" where
  "record_of JNull = Some zero_record"
| "record_of (JObj m) =
     (case (text_of (map_of m ''capsule_id''), bytes_of (map_of m ''capsule''),
            bytes_of (map_of m ''producer_envelope''), artifacts_of (map_of m ''artifacts'')) of
        (Some cid, Some capsule, Some envelope, Some arts) \<Rightarrow>
          Some \<lparr>Record_CapsuleID = cid, Record_Capsule = capsule, Record_ProducerEnvelope = envelope,
            Record_Artifacts = arts\<rparr>
      | _ \<Rightarrow> None)"
| "record_of _ = None"

text \<open>\<open>jsonv2.Unmarshal\<close>: one value and nothing but white space after it.\<close>

definition v2_parse :: "bytes \<Rightarrow> json option" where
  "v2_parse s = (case v2_value (v2_fuel s) 0 s of
       None \<Rightarrow> None
     | Some (v, r) \<Rightarrow> if skip_space r = [] then Some v else None)"

definition unmarshalRecord :: "bytes \<Rightarrow> Record option" where
  "unmarshalRecord s = (case v2_parse s of None \<Rightarrow> None | Some v \<Rightarrow> record_of v)"

text \<open>
  Unmarshalling a line into a struct with the one field \<open>CapsuleID\<close>: the value of the field
  and whether the call succeeds. The field keeps what was read before an error.
\<close>

definition peek :: "bytes \<Rightarrow> string \<times> bool" where
  "peek s = (case skip_space s of
       [] \<Rightarrow> ('''', False)
     | c # t \<Rightarrow>
         if c = CHR ''{'' then
           (case v2_members (v2_fuel s) 1 True [] t of (m, after) \<Rightarrow>
              (case text_of (map_of m ''capsule_id'') of
                 None \<Rightarrow> ('''', False)
               | Some cid \<Rightarrow> (cid, (case after of None \<Rightarrow> False | Some r \<Rightarrow> skip_space r = []))))
         else ('''', v2_parse s = Some JNull))"

lemmas [go_eval] = zero_artifact_def zero_record_def text_member_def artifact_json_def record_json_def
  artifact_utf8_def record_utf8_def marshalRecord_def bytes_of_def v2_parse_def unmarshalRecord_def peek_def

section \<open>A marshalled record reads back\<close>

text \<open>What the JSON form keeps of an artifact: all but the difference of nil and empty content.\<close>

definition stored_content :: "bytes option \<Rightarrow> bytes option" where
  "stored_content c = (if c = Some '''' then None else c)"

definition stored_artifact :: "Artifact \<Rightarrow> Artifact" where
  "stored_artifact a = a\<lparr>Artifact_Content := stored_content (Artifact_Content a)\<rparr>"

definition stored :: "Record \<Rightarrow> Record" where
  "stored r = r\<lparr>Record_Artifacts := map stored_artifact (Record_Artifacts r)\<rparr>"

lemma b64_utf8 [simp]: "utf8_valid (b64_encode s)"
  using plain_b64_encode by (fastforce intro: utf8_valid_all_ascii simp: plain_char_def)

lemma b64_encode_Nil_iff [simp]: "b64_encode s = [] \<longleftrightarrow> s = []"
  by (cases s rule: b64_encode.cases) simp_all

lemma artifact_of_json: "artifact_of (artifact_json a) = Some (stored_artifact a)"
  by (cases a) (auto simp: artifact_json_def text_member_def stored_artifact_def stored_content_def
      split: option.split)

lemma each_Some: "(\<And>x. x \<in> set xs \<Longrightarrow> f x = Some (g x)) \<Longrightarrow> each f xs = Some (map g xs)"
  by (induction xs) auto

lemma record_of_json: "record_of (record_json r) = Some (stored r)"
proof -
  have "each artifact_of (map artifact_json as) = Some (map stored_artifact as)" for as
    by (induction as) (simp_all add: artifact_of_json)
  then show ?thesis by (cases r) (simp add: record_json_def stored_def bytes_of_def)
qed

lemma textual_artifact: "artifact_utf8 a \<Longrightarrow> textual (artifact_json a)"
  by (auto simp: artifact_utf8_def artifact_json_def text_member_def utf8_valid_all_ascii split: option.split)

lemma textual_record: "record_utf8 r \<Longrightarrow> textual (record_json r)"
  by (auto simp: record_utf8_def record_json_def textual_artifact utf8_valid_all_ascii)

lemma depth_artifact: "json_depth (artifact_json a) \<le> 2"
  by (auto simp: artifact_json_def text_member_def split: option.split)

lemma depth_record: "json_depth (record_json r) \<le> 5"
proof -
  have "json_depth (JArr (map artifact_json (Record_Artifacts r))) \<le> 3"
    by (subst depth_arr_iff) (use depth_artifact in \<open>auto simp: numeral_2_eq_2\<close>)
  then show ?thesis by (simp add: record_json_def)
qed

lemma v2_parse_print:
  assumes "textual v" "json_depth v \<le> v2_max_depth"
  shows "v2_parse (v2_print v) = Some v"
proof -
  have "v2_value (v2_fuel (v2_print v)) 0 (v2_print v @ []) = Some (v, [])"
    by (rule v2_readsD [OF v2_reads]) (use assms in \<open>simp_all add: v2_fits_def v2_fuel_def\<close>)
  then show ?thesis by (simp add: v2_parse_def)
qed

lemma v2_parse_record: "record_utf8 r \<Longrightarrow> v2_parse (v2_print (record_json r)) = Some (record_json r)"
  using depth_record [of r] by (simp add: v2_parse_print textual_record v2_max_depth_def)

lemma unmarshal_marshal: "marshalRecord r = Inr s \<Longrightarrow> unmarshalRecord s = Some (stored r)"
  by (auto simp: marshalRecord_def unmarshalRecord_def v2_parse_record record_of_json split: if_splits)

lemma marshal_inject:
  "marshalRecord r = Inr s \<Longrightarrow> marshalRecord q = Inr s \<Longrightarrow> stored r = stored q"
  by (metis unmarshal_marshal option.inject)

text \<open>The peeked identifier agrees with the record wherever the record is readable.\<close>

lemma peek_unmarshal:
  assumes "unmarshalRecord s = Some r"
  shows "peek s = (Record_CapsuleID r, True)"
proof -
  from assms obtain v q where v: "v2_value (v2_fuel s) 0 s = Some (v, q)" "skip_space q = []" "record_of v = Some r"
    by (auto simp: unmarshalRecord_def v2_parse_def split: option.splits if_splits)
  obtain f where f: "v2_fuel s = Suc f" by (simp add: v2_fuel_def)
  from v(1) f obtain c t where ct: "skip_space s = c # t" by (auto split: list.splits)
  consider "v = JNull" | m where "v = JObj m" using v(3) by (cases v) auto
  then show ?thesis
  proof cases
    case 1
    with v f ct have "c \<noteq> CHR ''{''" by (auto split: if_splits option.splits prod.splits)
    moreover from 1 v(3) have "Record_CapsuleID r = ''''" by (auto simp: zero_record_def)
    moreover have "v2_parse s = Some JNull" using 1 v by (simp add: v2_parse_def)
    ultimately show ?thesis using ct by (simp add: peek_def)
  next
    case 2
    have c: "c = CHR ''{''"
    proof (rule ccontr)
      assume "c \<noteq> CHR ''{''"
      with v(1) f ct 2 show False
        by (auto simp: v2_scalar_def split: if_splits option.splits)
    qed
    with v(1) f ct 2 have "v2_members f (Suc 0) True [] t = (m, Some q)"
      by (auto split: if_splits option.splits prod.splits)
    moreover have "v2_members f (Suc 0) True [] t = v2_members (Suc f) (Suc 0) True [] t"
      by (rule v2_fuel_irrelevant) (use f skip_space_ConsD [OF ct] in \<open>simp_all add: v2_fuel_def\<close>)
    moreover have "text_of (map_of m ''capsule_id'') = Some (Record_CapsuleID r)"
      using v(3) 2 by (auto split: option.splits)
    ultimately show ?thesis using ct c f v(2) by (simp add: peek_def)
  qed
qed

lemma peek_marshal: "marshalRecord r = Inr s \<Longrightarrow> peek s = (Record_CapsuleID r, True)"
  using peek_unmarshal [OF unmarshal_marshal] by (simp add: stored_def)

end
