(* ===== verification/Artifact.thy ===== *)
theory Artifact
  imports RecordJson Sha256 VerifyCapsule
begin

text \<open>
  Artifact records (\<open>artifact/record.go\<close>): verification of a record against the caller's
  trusted keys, the storage checksum, and the preparation of a record for admission. A
  record is immutable except for the purge of its originals, which is here too because
  every store purges the same way.
\<close>

section \<open>Verify\<close>

abbreviation Err :: "sentinel \<Rightarrow> go_error" where
  "Err s \<equiv> Sentinel s"

text \<open>\<open>json.RawMessage\<close>: a marshaller checks the text as version 2 does and rewrites it compactly.\<close>

definition RawMessage :: "bytes \<Rightarrow> go_any" where
  "RawMessage c = GoValue SliceKind False
     (case v2_parse c of
        None \<Rightarrow> Inl (External ''jsontext: invalid value'')
      | Some v \<Rightarrow> Inr (v2_print v))"

fun split_at :: "char \<Rightarrow> string \<Rightarrow> string list" where
  "split_at c [] = [[]]"
| "split_at c (d # s) =
     (if d = c then [] # split_at c s
      else (case split_at c s of [] \<Rightarrow> [[d]] | p # ps \<Rightarrow> (d # p) # ps))"

fun walk :: "json \<Rightarrow> string list \<Rightarrow> json option" where
  "walk v [] = Some v"
| "walk (JObj m) (k # ks) = (case map_of m k of None \<Rightarrow> None | Some w \<Rightarrow> walk w ks)"
| "walk _ (k # ks) = None"

definition DigestFields :: "DigestField list" where
  "DigestFields = [PayloadDigest, AgentOutputDigest, EffectRequestDigest, EffectResponseDigest]"

definition digestAt :: "members \<Rightarrow> DigestField \<Rightarrow> string res" where
  "digestAt capsule field =
     (if field \<notin> set DigestFields
      then Inl (Wrapf ''%w: unsupported digest field %s'' [field] (Err ErrInvalid))
      else (case walk (JObj capsule) (split_at (CHR ''.'') field) of
          None \<Rightarrow> Inl (Wrapf ''%w: missing %s'' [field] (Err ErrInvalid))
        | Some (JStr digest) \<Rightarrow>
            if hexDigestPattern digest then Inr digest
            else Inl (Wrapf ''%w: malformed %s'' [field] (Err ErrInvalid))
        | Some _ \<Rightarrow> Inl (Wrapf ''%w: malformed %s'' [field] (Err ErrInvalid))))"

record ArtifactVerification =
  Check_State :: RetentionState
  Check_Bound :: bool
  Check_Verified :: bool

text \<open>The switch on the retention state: whether the original was verified, or the error.\<close>

definition check_state :: "aac \<Rightarrow> string \<Rightarrow> Artifact \<Rightarrow> bool res" where
  "check_state A committed a =
     (let name = Artifact_Name a; sha = Artifact_ContentSHA256 a in
      if Artifact_State a = Present then
        (case Artifact_Content a of
           None \<Rightarrow> Inl (Wrapf ''%w: missing content for %s'' [name] (Err ErrInvalid))
         | Some c \<Rightarrow>
             if sha \<noteq> '''' \<and> sha \<noteq> rawDigest c then Inl (Wrapf ''%w: %s'' [name] (Err ErrCorrupt))
             else if Artifact_Binding a \<noteq> '''' then
               (case DigestJSON A (RawMessage c) of
                  Inl err \<Rightarrow> Inl (Wrapf ''%w: %s (%s)'' [name, Artifact_Binding a] (Err ErrDigestMismatch))
                | Inr digest \<Rightarrow>
                    if digest \<noteq> committed
                    then Inl (Wrapf ''%w: %s (%s)'' [name, Artifact_Binding a] (Err ErrDigestMismatch))
                    else Inr True)
             else Inr False)
      else if Artifact_State a = Purged then
        (if Artifact_Content a \<noteq> None \<or> \<not> hexDigestPattern sha
         then Inl (Wrapf ''%w: invalid purge tombstone'' [] (Err ErrInvalid)) else Inr False)
      else if Artifact_State a = NeverRetained then
        (if Artifact_Content a \<noteq> None \<or> sha \<noteq> ''''
         then Inl (Wrapf ''%w: never-retained content'' [] (Err ErrInvalid)) else Inr False)
      else Inl (Wrapf ''%w: retention state'' [] (Err ErrInvalid)))"

definition check_artifact ::
  "aac \<Rightarrow> members \<Rightarrow> (string \<times> ArtifactVerification) list \<Rightarrow> Artifact \<Rightarrow> ArtifactVerification res" where
  "check_artifact A capsule results a =
     (if \<not> namePattern (Artifact_Name a) then Inl (Wrapf ''%w: artifact name'' [] (Err ErrInvalid))
      else if has_key results (Artifact_Name a)
      then Inl (Wrapf ''%w: duplicate artifact %s'' [Artifact_Name a] (Err ErrInvalid))
      else (case (if Artifact_Binding a \<noteq> '''' then digestAt capsule (Artifact_Binding a) else Inr '''') of
          Inl err \<Rightarrow> Inl err
        | Inr committed \<Rightarrow>
            (case check_state A committed a of
               Inl err \<Rightarrow> Inl err
             | Inr verified \<Rightarrow> Inr \<lparr>Check_State = Artifact_State a,
                 Check_Bound = (Artifact_Binding a \<noteq> ''''), Check_Verified = verified\<rparr>)))"

fun check_artifacts ::
  "aac \<Rightarrow> members \<Rightarrow> (string \<times> ArtifactVerification) list \<Rightarrow> Artifact list \<Rightarrow>
     (string \<times> ArtifactVerification) list res" where
  "check_artifacts A capsule results [] = Inr results"
| "check_artifacts A capsule results (a # as) =
     (case check_artifact A capsule results a of
        Inl err \<Rightarrow> Inl err
      | Inr check \<Rightarrow> check_artifacts A capsule (results @ [(Artifact_Name a, check)]) as)"

definition authorized :: "bytes list \<Rightarrow> bytes \<Rightarrow> bool" where
  "authorized trusted key = list_ex (\<lambda>k. length k = 32 \<and> k = key) trusted"

text \<open>The text of an inner error that \<open>%v\<close> prints is left out of the model.\<close>

definition Verify :: "aac \<Rightarrow> Record \<Rightarrow> bytes list \<Rightarrow> (string \<times> ArtifactVerification) list res" where
  "Verify A r trusted =
     (if \<not> hexDigestPattern (Record_CapsuleID r) then Inl (Wrapf ''%w: capsule id'' [] (Err ErrInvalid))
      else (case VerifyCapsule A (Record_Capsule r) of (v, err) \<Rightarrow>
        if err \<noteq> None \<or> \<not> Verification_OK v \<or> Verification_CapsuleID v = None \<or>
           Verification_CapsuleID v \<noteq> Some (Record_CapsuleID r)
        then Inl (Wrapf ''%w: capsule verification: %v'' [] (Err ErrInvalid))
        else (case VerifyEnvelope A (Record_CapsuleID r) (Record_ProducerEnvelope r) of (e, err) \<Rightarrow>
          if err \<noteq> None then Inl (Wrapf ''%w: envelope: %v'' [] (Err ErrInvalid))
          else if \<not> authorized trusted (Envelope_PublicKey e) then Inl (Err ErrUntrustedSigner)
          else (case DecodePayload (Record_Capsule r) of
              Inl err \<Rightarrow> Inl err
            | Inr capsule \<Rightarrow> check_artifacts A capsule [] (Record_Artifacts r)))))"

section \<open>StorageChecksum\<close>

text \<open>
  \<open>sort.Slice\<close> leaves the order of equal names open; the model keeps it. Records that
  pass \<open>Verify\<close> have distinct names, and then there is one sorted order (\<open>inventory_unique\<close>).
\<close>

definition inventory_entry :: "Artifact \<Rightarrow> Artifact" where
  "inventory_entry a = a\<lparr>Artifact_Content := None,
     Artifact_State := (if Artifact_State a = Purged then Present else Artifact_State a)\<rparr>"

definition inventory :: "Artifact list \<Rightarrow> Artifact list" where
  "inventory as = sort_key Artifact_Name (map inventory_entry as)"

definition StorageChecksum :: "Record \<Rightarrow> string res" where
  "StorageChecksum r =
     (case marshalRecord (r\<lparr>Record_Artifacts := inventory (Record_Artifacts r)\<rparr>) of
        Inl err \<Rightarrow> Inl err
      | Inr data \<Rightarrow> Inr (rawDigest data))"

section \<open>Prepare\<close>

definition prepare_artifact :: "Artifact \<Rightarrow> Artifact res" where
  "prepare_artifact a =
     (if Artifact_State a = Purged then Inl (Err ErrPurged)
      else if Artifact_State a = Present then
        (let digest = rawDigest (case Artifact_Content a of None \<Rightarrow> '''' | Some c \<Rightarrow> c) in
         if Artifact_ContentSHA256 a \<noteq> '''' \<and> Artifact_ContentSHA256 a \<noteq> digest then Inl (Err ErrCorrupt)
         else Inr (a\<lparr>Artifact_ContentSHA256 := digest\<rparr>))
      else Inr a)"

definition content_length :: "Artifact \<Rightarrow> nat" where
  "content_length a = (case Artifact_Content a of None \<Rightarrow> 0 | Some c \<Rightarrow> length c)"

fun prepare_artifacts :: "nat \<Rightarrow> Artifact list \<Rightarrow> (nat \<times> Artifact list) res" where
  "prepare_artifacts sz [] = Inr (sz, [])"
| "prepare_artifacts sz (a # as) =
     (case prepare_artifact a of
        Inl err \<Rightarrow> Inl err
      | Inr b \<Rightarrow>
          (case prepare_artifacts (sz + content_length a) as of
             Inl err \<Rightarrow> Inl err
           | Inr (n, bs) \<Rightarrow> Inr (n, b # bs)))"

definition max_artifacts :: nat where "max_artifacts = 64"
definition max_envelope :: nat where "max_envelope = 65535"
definition max_record :: nat where "max_record = 8 * 1024 * 1024"

definition Prepare :: "Record \<Rightarrow> Record res" where
  "Prepare r =
     (if max_artifacts < length (Record_Artifacts r) \<or> max_envelope < length (Record_ProducerEnvelope r)
      then Inl (Wrapf ''%w: record limits'' [] (Err ErrInvalid))
      else (case prepare_artifacts (length (Record_Capsule r) + length (Record_ProducerEnvelope r))
              (Record_Artifacts r) of
          Inl err \<Rightarrow> Inl err
        | Inr (sz, arts) \<Rightarrow>
            if max_record < sz then Inl (Wrapf ''%w: record exceeds 8 MiB'' [] (Err ErrInvalid))
            else Inr (r\<lparr>Record_Artifacts := arts\<rparr>)))"

section \<open>Purging originals\<close>

definition purge_artifact :: "Artifact \<Rightarrow> Artifact" where
  "purge_artifact a =
     (if Artifact_State a = Present then a\<lparr>Artifact_Content := None, Artifact_State := Purged\<rparr> else a)"

definition purge_record :: "Record \<Rightarrow> Record" where
  "purge_record r = r\<lparr>Record_Artifacts := map purge_artifact (Record_Artifacts r)\<rparr>"

definition any_purged :: "Record \<Rightarrow> bool" where
  "any_purged r = list_ex (\<lambda>a. Artifact_State a = Purged) (Record_Artifacts r)"

lemmas [go_eval] = RawMessage_def DigestFields_def digestAt_def check_state_def check_artifact_def
  authorized_def Verify_def inventory_entry_def inventory_def StorageChecksum_def prepare_artifact_def
  content_length_def Prepare_def purge_artifact_def purge_record_def any_purged_def
lemmas [go_consts] = max_artifacts_def max_envelope_def max_record_def

end
