(* ===== verification/ArtifactFacts.thy ===== *)
theory ArtifactFacts
  imports Artifact "HOL-Library.Multiset"
begin

text \<open>
  What \<open>Verify\<close>, \<open>Prepare\<close> and \<open>StorageChecksum\<close> promise: a declarative reading of an
  accepted record, what preparation fills in, and the independence of the checksum from
  the order of the inventory and from a purge.
\<close>

section \<open>Accepted records\<close>

definition original_ok :: "aac \<Rightarrow> members \<Rightarrow> Artifact \<Rightarrow> bytes \<Rightarrow> bool" where
  "original_ok A capsule a c \<longleftrightarrow>
     (Artifact_ContentSHA256 a = '''' \<or> Artifact_ContentSHA256 a = rawDigest c) \<and>
     (Artifact_Binding a \<noteq> '''' \<longrightarrow> DigestJSON A (RawMessage c) = digestAt capsule (Artifact_Binding a))"

definition artifact_ok :: "aac \<Rightarrow> members \<Rightarrow> Artifact \<Rightarrow> bool" where
  "artifact_ok A capsule a \<longleftrightarrow>
     namePattern (Artifact_Name a) \<and>
     (Artifact_Binding a = '''' \<or> is_ok (digestAt capsule (Artifact_Binding a))) \<and>
     (if Artifact_State a = Present
      then (\<exists>c. Artifact_Content a = Some c \<and> original_ok A capsule a c)
      else Artifact_Content a = None \<and>
        (Artifact_State a = Purged \<and> hexDigestPattern (Artifact_ContentSHA256 a) \<or>
         Artifact_State a = NeverRetained \<and> Artifact_ContentSHA256 a = ''''))"

definition signed_ok :: "aac \<Rightarrow> bytes list \<Rightarrow> Record \<Rightarrow> bool" where
  "signed_ok A trusted r \<longleftrightarrow>
     hexDigestPattern (Record_CapsuleID r) \<and> verifies A (Record_Capsule r) (Record_CapsuleID r) \<and>
     (case VerifyEnvelope A (Record_CapsuleID r) (Record_ProducerEnvelope r) of
        (e, err) \<Rightarrow> err = None \<and> authorized trusted (Envelope_PublicKey e))"

definition inventory_ok :: "aac \<Rightarrow> bytes \<Rightarrow> Artifact list \<Rightarrow> bool" where
  "inventory_ok A data as \<longleftrightarrow>
     distinct (map Artifact_Name as) \<and> (\<exists>m. DecodePayload data = Inr m \<and> (\<forall>a \<in> set as. artifact_ok A m a))"

definition record_ok :: "aac \<Rightarrow> bytes list \<Rightarrow> Record \<Rightarrow> bool" where
  "record_ok A trusted r \<longleftrightarrow> signed_ok A trusted r \<and> inventory_ok A (Record_Capsule r) (Record_Artifacts r)"

definition check_of :: "Artifact \<Rightarrow> ArtifactVerification" where
  "check_of a = \<lparr>Check_State = Artifact_State a, Check_Bound = (Artifact_Binding a \<noteq> ''''),
     Check_Verified = (Artifact_Binding a \<noteq> '''' \<and> Artifact_State a = Present)\<rparr>"

lemma digestAt_unbound [simp]: "\<not> is_ok (digestAt m '''')"
  by (simp add: digestAt_def DigestFields_def go_consts)

text \<open>What the artifact's digest is compared with.\<close>

definition commits :: "members \<Rightarrow> Artifact \<Rightarrow> string \<Rightarrow> bool" where
  "commits m a d \<longleftrightarrow>
     (if Artifact_Binding a = '''' then d = '''' else digestAt m (Artifact_Binding a) = Inr d)"

lemma check_state_Inr_iff:
  assumes "namePattern (Artifact_Name a)" and "commits m a d"
  shows "check_state A d a = Inr b \<longleftrightarrow> artifact_ok A m a \<and> b = Check_Verified (check_of a)"
  using assms
  by (auto simp: check_state_def artifact_ok_def original_ok_def check_of_def commits_def Let_def
      split: option.splits sum.splits if_splits)

lemma check_artifact_step:
  assumes "namePattern (Artifact_Name a)" "Artifact_Name a \<notin> set (keys results)" "commits m a d"
  shows "check_artifact A m results a =
    (case check_state A d a of
       Inl err \<Rightarrow> Inl err
     | Inr verified \<Rightarrow> Inr \<lparr>Check_State = Artifact_State a,
         Check_Bound = (Artifact_Binding a \<noteq> ''''), Check_Verified = verified\<rparr>)"
  using assms by (simp add: check_artifact_def commits_def split: if_splits)

lemma check_artifact_Inr_iff:
  "check_artifact A m results a = Inr chk \<longleftrightarrow>
     Artifact_Name a \<notin> set (keys results) \<and> artifact_ok A m a \<and> chk = check_of a"
proof (cases "namePattern (Artifact_Name a) \<and> Artifact_Name a \<notin> set (keys results) \<and> (\<exists>d. commits m a d)")
  case True
  then obtain d where d: "namePattern (Artifact_Name a)" "Artifact_Name a \<notin> set (keys results)" "commits m a d"
    by blast
  have *: "check_state A d a = Inr b \<longleftrightarrow> artifact_ok A m a \<and> b = Check_Verified (check_of a)" for b
    by (rule check_state_Inr_iff [OF d(1,3)])
  show ?thesis
  proof (cases "check_state A d a")
    case (Inl err)
    then have "\<not> artifact_ok A m a" using * by (metis Inl_Inr_False)
    with Inl show ?thesis by (simp add: check_artifact_step [OF d])
  next
    case (Inr b)
    then have "artifact_ok A m a" "b = Check_Verified (check_of a)" using * by blast+
    with Inr d(2) show ?thesis by (auto simp add: check_artifact_step [OF d] check_of_def)
  qed
next
  case False
  then consider "\<not> namePattern (Artifact_Name a)" | "Artifact_Name a \<in> set (keys results)"
    | err where "Artifact_Binding a \<noteq> ''''" "digestAt m (Artifact_Binding a) = Inl err"
    by (cases "Artifact_Binding a = ''''"; cases "digestAt m (Artifact_Binding a)")
      (auto simp: commits_def split: if_splits)
  then show ?thesis by cases (simp_all add: check_artifact_def artifact_ok_def)
qed

lemma check_artifacts_Inr_iff:
  "check_artifacts A m results as = Inr res \<longleftrightarrow>
     distinct (map Artifact_Name as) \<and> set (map Artifact_Name as) \<inter> set (keys results) = {} \<and>
     (\<forall>a \<in> set as. artifact_ok A m a) \<and> res = results @ map (\<lambda>a. (Artifact_Name a, check_of a)) as"
proof (induction as arbitrary: results)
  case (Cons a as)
  show ?case
  proof (cases "check_artifact A m results a")
    case (Inl err)
    then have "\<not> (Artifact_Name a \<notin> set (keys results) \<and> artifact_ok A m a)"
      using check_artifact_Inr_iff [of A m results a] by auto
    with Inl show ?thesis by auto
  next
    case (Inr chk)
    with check_artifact_Inr_iff [of A m results a chk] Cons.IH [of "results @ [(Artifact_Name a, chk)]"]
    show ?thesis by auto
  qed
qed auto

lemma Verify_Inr_iff:
  "Verify A r trusted = Inr res \<longleftrightarrow>
     record_ok A trusted r \<and> res = map (\<lambda>a. (Artifact_Name a, check_of a)) (Record_Artifacts r)"
proof -
  have "verifies A (Record_Capsule r) (Record_CapsuleID r) \<longleftrightarrow>
      (case VerifyCapsule A (Record_Capsule r) of (v, err) \<Rightarrow> \<not> (err \<noteq> None \<or> \<not> Verification_OK v \<or>
         Verification_CapsuleID v = None \<or> Verification_CapsuleID v \<noteq> Some (Record_CapsuleID r)))"
    by (auto simp: verifies_def VerifyCapsule_def Let_def split: sum.splits if_splits)
  then show ?thesis
    by (auto simp: Verify_def record_ok_def signed_ok_def inventory_ok_def check_artifacts_Inr_iff
        split: prod.splits sum.splits)
qed

lemma Verify_ok_iff: "is_ok (Verify A r trusted) \<longleftrightarrow> record_ok A trusted r"
  using Verify_Inr_iff [of A r trusted] by (cases "Verify A r trusted") (simp_all, blast+)

lemma Verify_Inl_iff: "(\<exists>err. Verify A r trusted = Inl err) \<longleftrightarrow> \<not> record_ok A trusted r"
  using Verify_ok_iff [of A r trusted] by (cases "Verify A r trusted") simp_all

section \<open>The checksum\<close>

lemma inventory_entry_purge [simp]: "inventory_entry (purge_artifact a) = inventory_entry a"
  by (simp add: inventory_entry_def purge_artifact_def)

lemma inventory_entry_stored [simp]: "inventory_entry (stored_artifact a) = inventory_entry a"
  by (simp add: inventory_entry_def stored_artifact_def)

lemma inventory_entry_name [simp]: "Artifact_Name (inventory_entry a) = Artifact_Name a"
  by (simp add: inventory_entry_def)

lemma purge_artifact_name [simp]: "Artifact_Name (purge_artifact a) = Artifact_Name a"
  by (simp add: purge_artifact_def)

lemma stored_artifact_name [simp]: "Artifact_Name (stored_artifact a) = Artifact_Name a"
  by (simp add: stored_artifact_def)

text \<open>With distinct names every sorted arrangement is the same: no sorting algorithm can differ.\<close>

lemma inventory_unique:
  assumes "distinct (map Artifact_Name as)" "mset bs = mset (map inventory_entry as)"
    and "sorted (map Artifact_Name bs)"
  shows "inventory as = bs"
proof -
  have "inj_on Artifact_Name (set (map inventory_entry as))"
    using assms(1) by (auto simp: distinct_map inj_on_def)
  with assms(2,3) show ?thesis
    unfolding inventory_def by (intro sort_key_inj_key_eq) simp_all
qed

lemma inventory_perm:
  assumes "distinct (map Artifact_Name as)" "mset as = mset bs"
  shows "inventory as = inventory bs"
  using assms by (intro inventory_unique) (simp_all add: inventory_def)

lemma inventory_map:
  "(\<And>a. a \<in> set as \<Longrightarrow> inventory_entry (f a) = inventory_entry a) \<Longrightarrow> inventory (map f as) = inventory as"
  by (simp add: inventory_def comp_def cong: map_cong)

lemma checksum_cong:
  assumes "Record_CapsuleID r = Record_CapsuleID q" "Record_Capsule r = Record_Capsule q"
    "Record_ProducerEnvelope r = Record_ProducerEnvelope q"
    "inventory (Record_Artifacts r) = inventory (Record_Artifacts q)"
  shows "StorageChecksum r = StorageChecksum q"
  using assms by (simp add: StorageChecksum_def marshalRecord_def record_utf8_def record_json_def)

lemma checksum_purge [simp]: "StorageChecksum (purge_record r) = StorageChecksum r"
  by (rule checksum_cong) (simp_all add: purge_record_def inventory_map)

lemma checksum_stored [simp]: "StorageChecksum (stored r) = StorageChecksum r"
  by (rule checksum_cong) (simp_all add: stored_def inventory_map)

lemma stored_inventory:
  "stored (r\<lparr>Record_Artifacts := inventory as\<rparr>) = r\<lparr>Record_Artifacts := inventory as\<rparr>"
proof -
  have "map stored_artifact (inventory as) = inventory as"
    by (rule map_idI) (auto simp: inventory_def stored_artifact_def stored_content_def inventory_entry_def)
  then show ?thesis by (simp add: stored_def)
qed

text \<open>
  The checksum is the digest of one text, and the text has the capsule, the envelope and the
  inventory.
\<close>

lemma checksum_text:
  assumes "StorageChecksum r = Inr h"
  obtains s where "marshalRecord (r\<lparr>Record_Artifacts := inventory (Record_Artifacts r)\<rparr>) = Inr s" "rawDigest s = h"
  using assms by (auto simp: StorageChecksum_def split: sum.splits)

lemma checksum_text_inject:
  assumes "marshalRecord (r\<lparr>Record_Artifacts := inventory (Record_Artifacts r)\<rparr>) = Inr s"
    and "marshalRecord (q\<lparr>Record_Artifacts := inventory (Record_Artifacts q)\<rparr>) = Inr s"
  shows "r\<lparr>Record_Artifacts := inventory (Record_Artifacts r)\<rparr> = q\<lparr>Record_Artifacts := inventory (Record_Artifacts q)\<rparr>"
  using marshal_inject [OF assms] by (simp add: stored_inventory)

text \<open>What the inventory keeps of an artifact.\<close>

lemma inventory_entry_fields:
  "inventory_entry a = inventory_entry b \<longleftrightarrow>
     Artifact_Name a = Artifact_Name b \<and> Artifact_Binding a = Artifact_Binding b \<and>
     Artifact_ContentSHA256 a = Artifact_ContentSHA256 b \<and>
     (if Artifact_State a = Purged then Present else Artifact_State a) =
     (if Artifact_State b = Purged then Present else Artifact_State b)"
  by (cases a; cases b) (auto simp: inventory_entry_def)

lemma inventory_tuples:
  assumes "inventory as = inventory bs"
  shows "mset (map (\<lambda>a. (Artifact_Name a, Artifact_Binding a, Artifact_ContentSHA256 a,
      if Artifact_State a = Purged then Present else Artifact_State a)) as) =
    mset (map (\<lambda>a. (Artifact_Name a, Artifact_Binding a, Artifact_ContentSHA256 a,
      if Artifact_State a = Purged then Present else Artifact_State a)) bs)"
    (is "mset (map ?f as) = mset (map ?f bs)")
proof -
  have "mset (map inventory_entry as) = mset (map inventory_entry bs)"
    using assms unfolding inventory_def by (metis mset_sort)
  then have "mset (map ?f (map inventory_entry as)) = mset (map ?f (map inventory_entry bs))"
    by (simp only: mset_map)
  moreover have "?f \<circ> inventory_entry = ?f" by (auto simp: inventory_entry_def go_consts)
  ultimately show ?thesis by simp
qed

lemma digestAt_field: "is_ok (digestAt m f) \<Longrightarrow> f \<in> set DigestFields"
  by (rule ccontr) (simp add: digestAt_def)

lemma digest_field_utf8: "f \<in> set DigestFields \<Longrightarrow> utf8_valid f \<and> length f \<le> 57"
  by (auto simp: DigestFields_def go_consts)

lemma state_utf8 [simp]: "utf8_valid Present" "utf8_valid Purged" "utf8_valid NeverRetained"
  by (simp_all add: go_consts)

lemma namePattern_utf8: "namePattern s \<Longrightarrow> utf8_valid s"
  by (blast intro: utf8_valid_all_ascii namePattern_ascii)

lemma artifact_ok_utf8: "artifact_ok A m a \<Longrightarrow> artifact_utf8 a"
  using digest_field_utf8 [of "Artifact_Binding a"]
  by (auto simp: artifact_ok_def artifact_utf8_def original_ok_def namePattern_utf8 hexDigestPattern_utf8
      dest!: digestAt_field split: if_splits)

lemma record_ok_utf8: "record_ok A trusted r \<Longrightarrow> record_utf8 r"
  by (auto simp: record_ok_def record_utf8_def signed_ok_def inventory_ok_def hexDigestPattern_utf8
      intro: artifact_ok_utf8)

lemma inventory_entry_utf8: "artifact_utf8 a \<Longrightarrow> artifact_utf8 (inventory_entry a)"
  by (simp add: artifact_utf8_def inventory_entry_def)

lemma checksum_defined:
  assumes "record_ok A trusted r"
  obtains h where "StorageChecksum r = Inr h" "hexDigestPattern h"
proof -
  have "record_utf8 (r\<lparr>Record_Artifacts := inventory (Record_Artifacts r)\<rparr>)"
    using record_ok_utf8 [OF assms] by (auto simp: record_utf8_def inventory_def inventory_entry_utf8)
  then have "StorageChecksum r = Inr (rawDigest (v2_print (record_json
      (r\<lparr>Record_Artifacts := inventory (Record_Artifacts r)\<rparr>))))"
    by (simp add: StorageChecksum_def marshalRecord_def)
  then show thesis by (rule that) simp
qed

section \<open>Preparation\<close>

definition fill_checksum :: "Artifact \<Rightarrow> Artifact" where
  "fill_checksum a =
     (if Artifact_State a = Present
      then a\<lparr>Artifact_ContentSHA256 := rawDigest (case Artifact_Content a of None \<Rightarrow> '''' | Some c \<Rightarrow> c)\<rparr> else a)"

definition preparable :: "Artifact \<Rightarrow> bool" where
  "preparable a \<longleftrightarrow> Artifact_State a \<noteq> Purged \<and>
     (Artifact_State a = Present \<longrightarrow> Artifact_ContentSHA256 a \<in> {'''', Artifact_ContentSHA256 (fill_checksum a)})"

definition record_length :: "Record \<Rightarrow> nat" where
  "record_length r = length (Record_Capsule r) + length (Record_ProducerEnvelope r) +
     sum_list (map content_length (Record_Artifacts r))"

definition within_limits :: "Record \<Rightarrow> bool" where
  "within_limits r \<longleftrightarrow> length (Record_Artifacts r) \<le> max_artifacts \<and>
     length (Record_ProducerEnvelope r) \<le> max_envelope \<and> record_length r \<le> max_record"

lemma prepare_artifact_Inr_iff: "prepare_artifact a = Inr b \<longleftrightarrow> preparable a \<and> b = fill_checksum a"
  by (auto simp: prepare_artifact_def preparable_def fill_checksum_def Let_def)

lemma prepare_artifacts_Inr_iff:
  "prepare_artifacts n as = Inr (k, bs) \<longleftrightarrow>
     (\<forall>a \<in> set as. preparable a) \<and> k = n + sum_list (map content_length as) \<and> bs = map fill_checksum as"
proof (induction as arbitrary: n k bs)
  case (Cons a as)
  show ?case
  proof (cases "prepare_artifact a")
    case (Inl err)
    then have "\<not> preparable a" using prepare_artifact_Inr_iff [of a] by auto
    with Inl show ?thesis by simp
  next
    case (Inr b)
    then have b: "preparable a" "b = fill_checksum a" by (simp_all add: prepare_artifact_Inr_iff)
    show ?thesis
    proof (cases "prepare_artifacts (n + content_length a) as")
      case (Inl err)
      then have "\<not> (\<forall>a \<in> set as. preparable a)" using Cons.IH [of "n + content_length a"] by auto
      with Inl Inr show ?thesis by simp
    next
      case (Inr r)
      obtain j cs where r: "r = (j, cs)" by (cases r)
      with Inr Cons.IH [of "n + content_length a" j cs]
      have "\<forall>a \<in> set as. preparable a" "j = n + content_length a + sum_list (map content_length as)"
        "cs = map fill_checksum as" by simp_all
      with b Inr r \<open>prepare_artifact a = Inr b\<close> show ?thesis by (simp add: add.assoc) blast
    qed
  qed
qed auto

lemma Prepare_Inr_iff:
  "Prepare r = Inr p \<longleftrightarrow>
     within_limits r \<and> (\<forall>a \<in> set (Record_Artifacts r). preparable a) \<and>
     p = r\<lparr>Record_Artifacts := map fill_checksum (Record_Artifacts r)\<rparr>"
proof -
  let ?res = "prepare_artifacts (length (Record_Capsule r) + length (Record_ProducerEnvelope r)) (Record_Artifacts r)"
  show ?thesis
  proof (cases ?res)
    case (Inl err)
    then have "\<not> (\<forall>a \<in> set (Record_Artifacts r). preparable a)"
      using prepare_artifacts_Inr_iff by (metis Inl_Inr_False)
    with Inl show ?thesis by (simp add: Prepare_def)
  next
    case (Inr kb)
    obtain k bs where kb: "kb = (k, bs)" by (cases kb)
    with Inr have "(\<forall>a \<in> set (Record_Artifacts r). preparable a)" "k = record_length r"
      "bs = map fill_checksum (Record_Artifacts r)"
      by (simp_all add: prepare_artifacts_Inr_iff record_length_def)
    with Inr kb show ?thesis by (auto simp: Prepare_def within_limits_def)
  qed
qed

lemma fill_checksum_simps [simp]:
  "Artifact_Name (fill_checksum a) = Artifact_Name a"
  "Artifact_Binding (fill_checksum a) = Artifact_Binding a"
  "Artifact_Content (fill_checksum a) = Artifact_Content a"
  "Artifact_State (fill_checksum a) = Artifact_State a"
  "fill_checksum (fill_checksum a) = fill_checksum a"
  "content_length (fill_checksum a) = content_length a"
  by (simp_all add: fill_checksum_def content_length_def)

lemma preparable_fill: "preparable a \<Longrightarrow> preparable (fill_checksum a)"
  by (simp add: preparable_def)

lemma record_length_fill [simp]:
  "record_length (r\<lparr>Record_Artifacts := map fill_checksum (Record_Artifacts r)\<rparr>) = record_length r"
  by (simp add: record_length_def comp_def)

lemma Prepare_idempotent: "Prepare r = Inr p \<Longrightarrow> Prepare p = Inr p"
  by (auto simp: Prepare_Inr_iff preparable_fill within_limits_def)

text \<open>A record that a store admits: prepared, and accepted by \<open>Verify\<close>.\<close>

definition filled :: "Artifact \<Rightarrow> bool" where
  "filled a \<longleftrightarrow> (Artifact_State a = Present \<longrightarrow>
     (\<exists>c. Artifact_Content a = Some c \<and> Artifact_ContentSHA256 a = rawDigest c))"

definition admitted :: "aac \<Rightarrow> bytes list \<Rightarrow> Record \<Rightarrow> bool" where
  "admitted A trusted r \<longleftrightarrow> record_ok A trusted r \<and> within_limits r \<and> (\<forall>a \<in> set (Record_Artifacts r). filled a)"

lemma fill_checksum_filled: "artifact_ok A m (fill_checksum a) \<Longrightarrow> filled (fill_checksum a)"
  by (auto simp: filled_def artifact_ok_def fill_checksum_def split: if_splits)

lemma Prepare_within_limits: "Prepare r = Inr p \<Longrightarrow> within_limits p"
  by (auto simp: Prepare_Inr_iff within_limits_def)

lemma Prepare_not_purged: "Prepare r = Inr p \<Longrightarrow> \<not> any_purged p"
  by (auto simp: Prepare_Inr_iff any_purged_def list_ex_iff preparable_def)

lemma prepared_admitted: "Prepare r = Inr p \<Longrightarrow> record_ok A trusted p \<Longrightarrow> admitted A trusted p"
  using fill_checksum_filled
  by (fastforce simp: admitted_def Prepare_Inr_iff within_limits_def record_ok_def inventory_ok_def)

text \<open>A purge keeps an admitted record admitted: the tombstones carry the checksums.\<close>

lemma purge_artifact_ok: "artifact_ok A m a \<Longrightarrow> filled a \<Longrightarrow> artifact_ok A m (purge_artifact a)"
  by (auto simp: artifact_ok_def filled_def purge_artifact_def)

lemma purge_record_simps [simp]:
  "Record_CapsuleID (purge_record r) = Record_CapsuleID r"
  "Record_Capsule (purge_record r) = Record_Capsule r"
  "Record_ProducerEnvelope (purge_record r) = Record_ProducerEnvelope r"
  "Record_Artifacts (purge_record r) = map purge_artifact (Record_Artifacts r)"
  by (simp_all add: purge_record_def)

lemma purge_artifact_purge [simp]: "purge_artifact (purge_artifact a) = purge_artifact a"
  by (simp add: purge_artifact_def)

lemma purge_record_purge [simp]: "purge_record (purge_record r) = purge_record r"
  by (simp add: purge_record_def comp_def)

lemma signed_ok_cong:
  "Record_CapsuleID r = Record_CapsuleID q \<Longrightarrow> Record_Capsule r = Record_Capsule q \<Longrightarrow>
   Record_ProducerEnvelope r = Record_ProducerEnvelope q \<Longrightarrow> signed_ok A trusted r = signed_ok A trusted q"
  by (simp add: signed_ok_def)

lemma content_length_purge: "content_length (purge_artifact a) \<le> content_length a"
  by (simp add: purge_artifact_def content_length_def split: option.split)

lemma within_limits_purge: "within_limits r \<Longrightarrow> within_limits (purge_record r)"
  using sum_list_mono [of "Record_Artifacts r" "\<lambda>a. content_length (purge_artifact a)" content_length]
  by (auto simp: within_limits_def record_length_def content_length_purge comp_def)

lemma inventory_ok_map:
  assumes "inventory_ok A data as" "\<forall>a \<in> set as. P a"
    and "\<And>m a. artifact_ok A m a \<Longrightarrow> P a \<Longrightarrow> artifact_ok A m (f a)" "\<And>a. Artifact_Name (f a) = Artifact_Name a"
  shows "inventory_ok A data (map f as)"
  using assms by (auto simp: inventory_ok_def comp_def)

lemma admitted_purge: "admitted A trusted r \<Longrightarrow> admitted A trusted (purge_record r)"
proof -
  assume r: "admitted A trusted r"
  then have "inventory_ok A (Record_Capsule r) (map purge_artifact (Record_Artifacts r))"
    by (intro inventory_ok_map [where P = filled] purge_artifact_ok) (auto simp: admitted_def record_ok_def)
  moreover have "filled (purge_artifact a)" for a by (simp add: filled_def purge_artifact_def)
  ultimately show ?thesis
    using r signed_ok_cong [of "purge_record r" r] by (simp add: admitted_def record_ok_def within_limits_purge)
qed

lemma purged_states: "a \<in> set (Record_Artifacts (purge_record r)) \<Longrightarrow> Artifact_State a \<noteq> Present"
  by (auto simp: purge_artifact_def)

section \<open>The size of a line\<close>

lemma length_escape_plain: "(\<forall>c \<in> set s. plain_char c) \<Longrightarrow> concat (map v2_escape s) = s"
  by (induction s) (auto simp: plain_char_def v2_escape_def print_char_def)

lemma length_quote_plain: "(\<forall>c \<in> set s. plain_char c) \<Longrightarrow> length (v2_quote s) = length s + 2"
  by (simp add: v2_quote_def length_escape_plain)

lemma plain_hex: "hexDigestPattern s \<Longrightarrow> \<forall>c \<in> set s. plain_char c"
  by (auto simp: hexDigestPattern_def lower_hex_def between_def plain_char_def)

lemma plain_name: "namePattern s \<Longrightarrow> \<forall>c \<in> set s. plain_char c"
  by (auto simp: namePattern_def alnum_def between_def plain_char_def split: list.splits)

lemma plain_field: "f \<in> set DigestFields \<Longrightarrow> \<forall>c \<in> set f. plain_char c"
  by (auto simp: DigestFields_def go_consts plain_char_def)

lemma plain_state: "s \<in> {Present, Purged, NeverRetained} \<Longrightarrow> (\<forall>c \<in> set s. plain_char c) \<and> length s \<le> 14"
  by (auto simp: go_consts plain_char_def)

text \<open>The four texts of an accepted artifact are short and need no escape.\<close>

lemma artifact_texts:
  assumes "artifact_ok A m a"
  shows "\<forall>c \<in> set (Artifact_Name a). plain_char c" "length (Artifact_Name a) \<le> 64"
    and "\<forall>c \<in> set (Artifact_Binding a). plain_char c" "length (Artifact_Binding a) \<le> 57"
    and "\<forall>c \<in> set (Artifact_State a). plain_char c" "length (Artifact_State a) \<le> 14"
    and "\<forall>c \<in> set (Artifact_ContentSHA256 a). plain_char c" "length (Artifact_ContentSHA256 a) \<le> 64"
proof -
  show "\<forall>c \<in> set (Artifact_Name a). plain_char c" "length (Artifact_Name a) \<le> 64"
    using assms plain_name namePattern_length by (auto simp: artifact_ok_def)
  have "Artifact_Binding a = '''' \<or> Artifact_Binding a \<in> set DigestFields"
    using assms digestAt_field by (auto simp: artifact_ok_def)
  then show "\<forall>c \<in> set (Artifact_Binding a). plain_char c" "length (Artifact_Binding a) \<le> 57"
    using plain_field digest_field_utf8 by auto
  have "Artifact_State a \<in> {Present, Purged, NeverRetained}"
    using assms by (auto simp: artifact_ok_def split: if_splits)
  from plain_state [OF this]
  show "\<forall>c \<in> set (Artifact_State a). plain_char c" "length (Artifact_State a) \<le> 14" by blast+
  have "Artifact_ContentSHA256 a = '''' \<or> hexDigestPattern (Artifact_ContentSHA256 a)"
    using assms by (auto simp: artifact_ok_def original_ok_def split: if_splits)
  then show "\<forall>c \<in> set (Artifact_ContentSHA256 a). plain_char c" "length (Artifact_ContentSHA256 a) \<le> 64"
    using plain_hex hexDigestPattern_length by fastforce+
qed

lemma plain_b64: "\<forall>c \<in> set (b64_encode s). plain_char c"
  by (blast intro: plain_b64_encode)

lemma quote_lengths:
  "length (v2_quote ''name'') = 6" "length (v2_quote ''binding'') = 9" "length (v2_quote ''content'') = 9"
  "length (v2_quote ''state'') = 7" "length (v2_quote ''content_sha256'') = 16"
  "length (v2_quote ''capsule_id'') = 12" "length (v2_quote ''capsule'') = 9"
  "length (v2_quote ''producer_envelope'') = 19" "length (v2_quote ''artifacts'') = 11"
  by (simp_all add: length_quote_plain plain_char_def)

lemma length_join_comma: "length (join_comma xs) \<le> sum_list (map length xs) + length xs"
  by (cases xs) (auto simp: length_concat comp_def sum_list_Suc)

definition member_length :: "string \<times> json \<Rightarrow> nat" where
  "member_length kv = length (v2_quote (fst kv)) + length (v2_print (snd kv)) + 2"

lemma length_object: "length (v2_print (JObj m)) \<le> 2 + sum_list (map member_length m)"
proof -
  have "sum_list (map length (map v2_member m)) + length m = sum_list (map member_length m)"
    by (induction m) (simp_all add: member_length_def)
  with length_join_comma [of "map v2_member m"] show ?thesis by simp
qed

lemma length_text_member:
  "\<forall>c \<in> set s. plain_char c \<Longrightarrow>
   sum_list (map member_length (text_member k s)) \<le> length (v2_quote k) + length s + 4"
  by (simp add: text_member_def length_quote_plain member_length_def)

lemma length_artifact_json:
  assumes "artifact_ok A m a"
  shows "length (v2_print (artifact_json a)) \<le> 300 + 4 * ((content_length a + 2) div 3)"
proof -
  note t = artifact_texts [OF assms]
  let ?n = "\<lambda>m. sum_list (map member_length m)"
  have content: "?n (case Artifact_Content a of None \<Rightarrow> [] | Some c \<Rightarrow> text_member ''content'' (b64_encode c))
      \<le> 13 + 4 * ((content_length a + 2) div 3)"
  proof (cases "Artifact_Content a")
    case (Some c)
    with length_text_member [where k = "''content''", OF plain_b64 [of c]] show ?thesis
      by (simp add: content_length_def length_b64_encode quote_lengths)
  qed simp
  have fixed: "?n [(''name'', JStr (Artifact_Name a))] \<le> 74" "?n [(''state'', JStr (Artifact_State a))] \<le> 25"
    using t by (simp_all add: length_quote_plain quote_lengths member_length_def)
  have optional: "?n (text_member ''binding'' (Artifact_Binding a)) \<le> 70"
    "?n (text_member ''content_sha256'' (Artifact_ContentSHA256 a)) \<le> 84"
    using length_text_member [where k = "''binding''", OF t(3)] length_text_member [where k = "''content_sha256''", OF t(7)] t(4,8)
    by (simp_all add: quote_lengths)
  show ?thesis
    using length_object [of "[(''name'', JStr (Artifact_Name a))] @ text_member ''binding'' (Artifact_Binding a) @
      (case Artifact_Content a of None \<Rightarrow> [] | Some c \<Rightarrow> text_member ''content'' (b64_encode c)) @
      [(''state'', JStr (Artifact_State a))] @ text_member ''content_sha256'' (Artifact_ContentSHA256 a)"]
      content fixed optional
    unfolding artifact_json_def map_append sum_list_append by linarith
qed

lemma four_thirds: "3 * (4 * ((n + 2) div 3)) \<le> 4 * n + (8 :: nat)"
  by presburger

lemma length_artifacts_json:
  assumes "\<forall>a \<in> set as. artifact_ok A m a"
  shows "3 * sum_list (map (\<lambda>a. length (v2_print (artifact_json a))) as)
    \<le> 908 * length as + 4 * sum_list (map content_length as)"
  using assms
proof (induction as)
  case (Cons a as)
  then have "3 * length (v2_print (artifact_json a)) \<le> 908 + 4 * content_length a"
    using length_artifact_json [of A m a] four_thirds [of "content_length a"] by simp
  with Cons show ?case by simp
qed simp

definition max_line :: nat where
  "max_line = 16 * 1024 * 1024"

text \<open>An admitted record is well below the line limit of the JSONL scanner.\<close>

lemma admitted_line_length:
  assumes "record_ok A trusted r" "within_limits r"
  shows "Suc (length (v2_print (record_json r))) < max_line"
proof -
  let ?arts = "JArr (map artifact_json (Record_Artifacts r))"
  have id: "length (v2_quote (Record_CapsuleID r)) = 66"
    using assms plain_hex [of "Record_CapsuleID r"]
    by (auto simp: record_ok_def signed_ok_def length_quote_plain hexDigestPattern_length)
  have b64: "3 * length (v2_quote (b64_encode s)) \<le> 4 * length s + 14" for s
    using four_thirds [of "length s"] by (simp add: length_quote_plain plain_b64 length_b64_encode)
  obtain m where m: "\<forall>a \<in> set (Record_Artifacts r). artifact_ok A m a"
    using assms by (auto simp: record_ok_def inventory_ok_def)
  have "length (v2_print ?arts) \<le> 2 + sum_list (map (\<lambda>a. length (v2_print (artifact_json a))) (Record_Artifacts r)) +
      length (Record_Artifacts r)"
    using length_join_comma [of "map v2_print (map artifact_json (Record_Artifacts r))"] by (simp add: comp_def)
  then have arts: "3 * length (v2_print ?arts) \<le> 6 + 911 * length (Record_Artifacts r) +
      4 * sum_list (map content_length (Record_Artifacts r))"
    using length_artifacts_json [OF m] by linarith
  have "length (v2_print (record_json r)) \<le> 127 + length (v2_quote (b64_encode (Record_Capsule r))) +
      length (v2_quote (b64_encode (Record_ProducerEnvelope r))) + length (v2_print ?arts)"
    using length_object [of "[(''capsule_id'', JStr (Record_CapsuleID r)), (''capsule'', JStr (b64_encode (Record_Capsule r))),
      (''producer_envelope'', JStr (b64_encode (Record_ProducerEnvelope r))), (''artifacts'', ?arts)]"] id
    unfolding record_json_def by (simp add: quote_lengths member_length_def del: v2_print.simps(5,6))
  with b64 [of "Record_Capsule r"] b64 [of "Record_ProducerEnvelope r"] arts assms(2)
  show ?thesis
    by (simp add: within_limits_def record_length_def max_line_def max_record_def max_artifacts_def)
qed

end
