(* ===== verification/StoreSpec.thy ===== *)
theory StoreSpec
  imports ArtifactFacts
begin

text \<open>
  What every artifact store promises, whatever keeps the records: a vault from capsule
  identifiers to records, and \<open>Put\<close>, \<open>Get\<close> and \<open>Purge\<close> on it. The locale
  \<open>store_contract\<close> is the refinement a store owes this specification, also when the file
  system or the database fails; \<open>live_store\<close> adds that without such faults nothing but the
  specification decides. What holds over whole histories is proved in the locales once.
\<close>

section \<open>The abstract store\<close>

type_synonym vault = "string \<Rightarrow> Record option"

text \<open>The answer to a second \<open>Put\<close> under an identifier that is taken.\<close>

definition readmit :: "aac \<Rightarrow> bytes list \<Rightarrow> string \<Rightarrow> Record \<Rightarrow> go_error option" where
  "readmit A trusted hash old =
     (case Verify A old trusted of
        Inl err \<Rightarrow> Some err
      | Inr _ \<Rightarrow>
          (case StorageChecksum old of
             Inl err \<Rightarrow> Some err
           | Inr oldHash \<Rightarrow>
               if oldHash \<noteq> hash then Some (Err ErrConflict)
               else if any_purged old then Some (Err ErrPurged)
               else None))"

text \<open>The checks before a store is touched: the prepared record and its checksum.\<close>

definition admit :: "aac \<Rightarrow> bytes list \<Rightarrow> Record \<Rightarrow> (Record \<times> string) res" where
  "admit A trusted r =
     (case Prepare r of
        Inl err \<Rightarrow> Inl err
      | Inr p \<Rightarrow>
          (case Verify A p trusted of
             Inl err \<Rightarrow> Inl err
           | Inr _ \<Rightarrow>
               (case StorageChecksum p of
                  Inl err \<Rightarrow> Inl err
                | Inr hash \<Rightarrow> Inr (p, hash))))"

text \<open>\<open>keep\<close> is what the store's encoding keeps of a record.\<close>

definition spec_put ::
  "aac \<Rightarrow> bytes list \<Rightarrow> (Record \<Rightarrow> Record) \<Rightarrow> Record \<Rightarrow> vault \<Rightarrow> go_error option \<times> vault" where
  "spec_put A trusted keep r V =
     (case admit A trusted r of
        Inl err \<Rightarrow> (Some err, V)
      | Inr (p, hash) \<Rightarrow>
          (case V (Record_CapsuleID p) of
             Some old \<Rightarrow> (readmit A trusted hash old, V)
           | None \<Rightarrow> (None, V(Record_CapsuleID p \<mapsto> keep p))))"

definition spec_get :: "aac \<Rightarrow> bytes list \<Rightarrow> string \<Rightarrow> vault \<Rightarrow> Record res" where
  "spec_get A trusted cid V =
     (if \<not> hexDigestPattern cid then Inl (Err ErrInvalid)
      else (case V cid of
          None \<Rightarrow> Inl (Err ErrNotFound)
        | Some r \<Rightarrow> (case Verify A r trusted of Inl err \<Rightarrow> Inl err | Inr _ \<Rightarrow> Inr r)))"

definition spec_purge :: "string \<Rightarrow> vault \<Rightarrow> go_error option \<times> vault" where
  "spec_purge cid V =
     (if \<not> hexDigestPattern cid then (Some (Err ErrInvalid), V)
      else (case V cid of
          None \<Rightarrow> (Some (Err ErrNotFound), V)
        | Some r \<Rightarrow> (None, V(cid \<mapsto> purge_record r))))"

lemmas [go_eval] = readmit_def admit_def spec_put_def spec_get_def spec_purge_def

lemma admit_Inr_iff:
  "admit A trusted r = Inr (p, hash) \<longleftrightarrow>
     Prepare r = Inr p \<and> record_ok A trusted p \<and> StorageChecksum p = Inr hash"
  using Verify_ok_iff [of A p trusted]
  by (cases "Verify A p trusted") (auto simp: admit_def split: sum.splits)

lemma admit_InrD:
  assumes "admit A trusted r = Inr (p, hash)"
  shows "admitted A trusted p" "\<not> any_purged p" "StorageChecksum p = Inr hash"
    "Record_CapsuleID p = Record_CapsuleID r" "hexDigestPattern (Record_CapsuleID p)"
  using assms prepared_admitted Prepare_not_purged
  by (auto simp: admit_Inr_iff Prepare_Inr_iff record_ok_def signed_ok_def)

lemma readmit_None_iff:
  "readmit A trusted hash old = None \<longleftrightarrow>
     record_ok A trusted old \<and> StorageChecksum old = Inr hash \<and> \<not> any_purged old"
  using Verify_ok_iff [of A old trusted]
  by (cases "Verify A old trusted") (auto simp: readmit_def split: sum.splits)

lemma spec_put_None:
  assumes "spec_put A trusted keep r V = (None, V')"
  obtains p hash where "admit A trusted r = Inr (p, hash)"
    and "V (Record_CapsuleID r) = None \<and> V' = V(Record_CapsuleID r \<mapsto> keep p) \<or>
      V' = V \<and> (\<exists>old. V (Record_CapsuleID r) = Some old \<and> readmit A trusted hash old = None)"
proof -
  from assms obtain p hash where p: "admit A trusted r = Inr (p, hash)"
    by (auto simp: spec_put_def split: sum.splits)
  with assms admit_InrD(4) [OF p] show thesis
    by (intro that [OF p]) (auto simp: spec_put_def split: option.splits)
qed

lemma spec_put_Some: "spec_put A trusted keep r V = (Some err, V') \<Longrightarrow> V' = V"
  by (auto simp: spec_put_def split: sum.splits option.splits)

lemma spec_purge_outcome:
  "spec_purge cid V = (err, V') \<Longrightarrow> V' = V \<or> (\<exists>r. V cid = Some r \<and> V' = V(cid \<mapsto> purge_record r))"
  by (auto simp: spec_purge_def split: option.splits if_splits)

section \<open>Histories\<close>

text \<open>
  One operation that can change a store, in an environment \<open>e\<close> that decides which system
  calls fail; \<open>clean e\<close> bounds how they may fail. Reads change nothing and need no step.
\<close>

inductive store_step ::
  "('e \<Rightarrow> Record \<Rightarrow> 's \<Rightarrow> go_error option \<times> 's) \<Rightarrow> ('e \<Rightarrow> string \<Rightarrow> 's \<Rightarrow> go_error option \<times> 's) \<Rightarrow>
     ('e \<Rightarrow> bool) \<Rightarrow> 's \<Rightarrow> 's \<Rightarrow> bool"
  for put purge clean
where
  step_put: "clean e \<Longrightarrow> put e r s = (err, s') \<Longrightarrow> store_step put purge clean s s'"
| step_purge: "clean e \<Longrightarrow> purge e cid s = (err, s') \<Longrightarrow> store_step put purge clean s s'"

inductive_cases store_stepE: "store_step put purge clean s s'"

inductive store_run ::
  "('e \<Rightarrow> Record \<Rightarrow> 's \<Rightarrow> go_error option \<times> 's) \<Rightarrow> ('e \<Rightarrow> string \<Rightarrow> 's \<Rightarrow> go_error option \<times> 's) \<Rightarrow>
     ('e \<Rightarrow> bool) \<Rightarrow> 's \<Rightarrow> 's \<Rightarrow> bool"
  for put purge clean
where
  run_refl: "store_run put purge clean s s"
| run_step: "store_run put purge clean s t \<Longrightarrow> store_step put purge clean t u \<Longrightarrow> store_run put purge clean s u"

inductive_simps store_run_simps: "store_run put purge clean s u"

lemma single_step: "store_step put purge clean s t \<Longrightarrow> store_run put purge clean s t"
  by (subst store_run_simps) (blast intro: run_refl)

text \<open>A reflexive and transitive relation that every operation respects relates the ends of a history.\<close>

lemma run_relation:
  assumes "store_run put purge clean s u"
    and "\<And>e r s t err. put e r s = (err, t) \<Longrightarrow> P s t" "\<And>e cid s t err. purge e cid s = (err, t) \<Longrightarrow> P s t"
    and "\<And>s. P s s" "\<And>s t u. P s t \<Longrightarrow> P t u \<Longrightarrow> P s u"
  shows "P s u"
  using assms(1)
proof (induction rule: store_run.induct)
  case (run_refl s)
  show ?case by (rule assms(4))
next
  case (run_step s t u)
  from run_step.hyps(2) have "P t u" by (rule store_stepE) (use assms(2,3) in blast)+
  with run_step.IH show ?case by (rule assms(5))
qed

section \<open>The contract\<close>

locale store_contract =
  fixes put :: "'e \<Rightarrow> Record \<Rightarrow> 's \<Rightarrow> go_error option \<times> 's"
    and get :: "'e \<Rightarrow> string \<Rightarrow> 's \<Rightarrow> Record res"
    and purge :: "'e \<Rightarrow> string \<Rightarrow> 's \<Rightarrow> go_error option \<times> 's"
    and holds :: "'s \<Rightarrow> vault" and inv :: "'s \<Rightarrow> bool" and clean :: "'e \<Rightarrow> bool"
    and keep :: "Record \<Rightarrow> Record" and A :: aac and trusted :: "bytes list"
  assumes put_refines: "inv s \<Longrightarrow> clean e \<Longrightarrow> put e r s = (err, s') \<Longrightarrow>
      inv s' \<and> ((err, holds s') = spec_put A trusted keep r (holds s) \<or> err \<noteq> None \<and> holds s' = holds s)"
    and get_refines: "inv s \<Longrightarrow> get e cid s = Inr r \<Longrightarrow> spec_get A trusted cid (holds s) = Inr r"
    and purge_refines: "inv s \<Longrightarrow> clean e \<Longrightarrow> purge e cid s = (err, s') \<Longrightarrow>
      inv s' \<and> ((err, holds s') = spec_purge cid (holds s) \<or> err \<noteq> None \<and> holds s' = holds s)"
    and keep_checksum: "admitted A trusted p \<Longrightarrow> StorageChecksum (keep p) = StorageChecksum p"
begin

lemma put_inv: "inv s \<Longrightarrow> clean e \<Longrightarrow> put e r s = (err, s') \<Longrightarrow> inv s'"
  using put_refines by blast

lemma purge_inv: "inv s \<Longrightarrow> clean e \<Longrightarrow> purge e cid s = (err, s') \<Longrightarrow> inv s'"
  using purge_refines by blast

text \<open>A refused \<open>Put\<close> leaves the contents as they were.\<close>

lemma put_error: "inv s \<Longrightarrow> clean e \<Longrightarrow> put e r s = (Some err, s') \<Longrightarrow> holds s' = holds s"
  using put_refines spec_put_Some by (metis option.distinct(1) prod.collapse)

text \<open>After an accepted \<open>Put\<close> the store holds a record with the checksum of the submitted one.\<close>

lemma put_accepted:
  assumes "inv s" "clean e" "put e r s = (None, s')"
  obtains p hash old where "admit A trusted r = Inr (p, hash)"
    "holds s' (Record_CapsuleID r) = Some old" "StorageChecksum old = Inr hash"
    "\<And>cid. cid \<noteq> Record_CapsuleID r \<Longrightarrow> holds s' cid = holds s cid"
proof -
  have "spec_put A trusted keep r (holds s) = (None, holds s')"
    using put_refines [OF assms] by auto
  then obtain p hash where p: "admit A trusted r = Inr (p, hash)"
    and out: "holds s (Record_CapsuleID r) = None \<and> holds s' = (holds s)(Record_CapsuleID r \<mapsto> keep p) \<or>
      holds s' = holds s \<and> (\<exists>old. holds s (Record_CapsuleID r) = Some old \<and> readmit A trusted hash old = None)"
    by (rule spec_put_None)
  from out show thesis
  proof
    assume new: "holds s (Record_CapsuleID r) = None \<and> holds s' = (holds s)(Record_CapsuleID r \<mapsto> keep p)"
    have "StorageChecksum (keep p) = Inr hash"
      using admit_InrD(1,3) [OF p] keep_checksum by simp
    with new p show thesis by (intro that [of p hash "keep p"]) simp_all
  next
    assume "holds s' = holds s \<and>
      (\<exists>old. holds s (Record_CapsuleID r) = Some old \<and> readmit A trusted hash old = None)"
    with p show thesis by (auto intro: that simp: readmit_None_iff)
  qed
qed

text \<open>What one step can do to a record that is held: nothing, or purge it.\<close>

lemma step_holds:
  assumes "store_step put purge clean s s'" "inv s"
  shows "inv s' \<and> (\<forall>cid r. holds s cid = Some r \<longrightarrow> holds s' cid \<in> {Some r, Some (purge_record r)})"
  using assms(1)
proof (cases rule: store_step.cases)
  case (step_put e r err)
  have "holds s' cid = holds s cid" if "holds s cid \<noteq> None" for cid
  proof (cases err)
    case None
    with step_put assms(2) put_refines have "spec_put A trusted keep r (holds s) = (None, holds s')" by fastforce
    with that show ?thesis by (elim spec_put_None) auto
  next
    case (Some x)
    with step_put assms(2) put_error show ?thesis by auto
  qed
  with step_put assms(2) put_inv show ?thesis by fastforce
next
  case (step_purge e cid err)
  then have "inv s' \<and> ((err, holds s') = spec_purge cid (holds s) \<or> holds s' = holds s)"
    using purge_refines assms(2) by blast
  with spec_purge_outcome [of cid "holds s" err "holds s'"] show ?thesis by fastforce
qed

text \<open>Over a whole history a held record stays, as it is or purged.\<close>

lemma run_holds:
  assumes "store_run put purge clean s s'" "inv s"
  shows "inv s' \<and> (\<forall>cid r. holds s cid = Some r \<longrightarrow> holds s' cid \<in> {Some r, Some (purge_record r)})"
  using assms
proof (induction rule: store_run.induct)
  case (run_step s t u)
  then have t: "inv t" "\<And>cid r. holds s cid = Some r \<Longrightarrow> holds t cid \<in> {Some r, Some (purge_record r)}"
    by blast+
  have u: "inv u" "\<And>cid r. holds t cid = Some r \<Longrightarrow> holds u cid \<in> {Some r, Some (purge_record r)}"
    using step_holds [OF run_step.hyps(2) t(1)] by blast+
  have "holds u cid \<in> {Some r, Some (purge_record r)}" if "holds s cid = Some r" for cid r
    using t(2) [OF that] u(2) [of cid r] u(2) [of cid "purge_record r"] by fastforce
  with u(1) show ?case by blast
qed simp

text \<open>A purge is final: the same tombstones are held ever after.\<close>

lemma purged_forever:
  assumes "store_run put purge clean s s'" "inv s" "holds s cid = Some (purge_record r)"
  shows "holds s' cid = Some (purge_record r)"
  using run_holds [OF assms(1,2)] assms(3) by fastforce

text \<open>No \<open>Put\<close> is accepted under an identifier whose record has a tombstone.\<close>

lemma put_after_purge:
  assumes "inv s" "clean e" "put e r s = (err, s')" "holds s (Record_CapsuleID r) = Some old" "any_purged old"
  shows "err \<noteq> None \<and> holds s' = holds s"
proof (cases err)
  case None
  with assms put_refines have "spec_put A trusted keep r (holds s) = (None, holds s')" by fastforce
  then have False using assms(4,5) by (elim spec_put_None) (auto simp: readmit_None_iff)
  then show ?thesis ..
next
  case (Some x)
  with assms put_error show ?thesis by auto
qed

text \<open>What is read is held, and passes \<open>Verify\<close> under the trusted keys.\<close>

lemma get_sound:
  assumes "inv s" "get e cid s = Inr r"
  shows "holds s cid = Some r \<and> record_ok A trusted r"
  using get_refines [OF assms] Verify_ok_iff [of A r trusted]
  by (auto simp: spec_get_def split: if_splits option.splits sum.splits)

end

text \<open>A store that follows the specification exactly while nothing fails.\<close>

locale live_store = store_contract +
  fixes faultless :: "'a \<Rightarrow> bool"
  assumes faultless_clean: "faultless e \<Longrightarrow> clean e"
    and put_exact: "inv s \<Longrightarrow> faultless e \<Longrightarrow> put e r s = (err, s') \<Longrightarrow>
      (err, holds s') = spec_put A trusted keep r (holds s)"
    and get_exact: "inv s \<Longrightarrow> faultless e \<Longrightarrow> get e cid s = spec_get A trusted cid (holds s)"
    and purge_exact: "inv s \<Longrightarrow> faultless e \<Longrightarrow> purge e cid s = (err, s') \<Longrightarrow>
      (err, holds s') = spec_purge cid (holds s)"
begin

lemma put_then_get:
  assumes "inv s" "faultless e" "faultless e'" "put e r s = (None, s')" "holds s (Record_CapsuleID r) = None"
    and "admit A trusted r = Inr (p, hash)" "record_ok A trusted (keep p)"
  shows "get e' (Record_CapsuleID r) s' = Inr (keep p)"
proof -
  have "(None, holds s') = spec_put A trusted keep r (holds s)"
    using put_exact [OF assms(1,2,4)] .
  then have "holds s' (Record_CapsuleID r) = Some (keep p)"
    using assms(5,6) admit_InrD(4) [OF assms(6)] by (simp add: spec_put_def)
  moreover have "inv s'" using put_inv [OF assms(1) faultless_clean [OF assms(2)] assms(4)] .
  ultimately show ?thesis
    using get_exact [OF _ assms(3)] admit_InrD(4,5) [OF assms(6)] assms(7) Verify_ok_iff [of A "keep p" trusted]
    by (auto simp: spec_get_def split: sum.splits)
qed

lemma purge_erases:
  assumes "inv s" "faultless e" "purge e cid s = (err, s')" "hexDigestPattern cid" "holds s cid = Some r"
  shows "err = None \<and> holds s' = (holds s)(cid \<mapsto> purge_record r)"
  using purge_exact [OF assms(1-3)] assms(4,5) by (simp add: spec_purge_def)

lemma put_purged_answer:
  assumes "inv s" "faultless e" "put e r s = (err, s')" "holds s (Record_CapsuleID r) = Some old"
    and "any_purged old" "record_ok A trusted old" "admit A trusted r = Inr (p, hash)"
  shows "err \<in> {Some (Err ErrPurged), Some (Err ErrConflict)}"
proof -
  have "(err, holds s') = spec_put A trusted keep r (holds s)"
    using put_exact [OF assms(1-3)] .
  moreover obtain h where "StorageChecksum old = Inr h" using checksum_defined [OF assms(6)] by blast
  ultimately show ?thesis
    using assms(4-7) admit_InrD(4) [OF assms(7)] Verify_ok_iff [of A old trusted]
    by (auto simp: spec_put_def readmit_def split: sum.splits)
qed

end

end
