(* ===== verification/SealedRecord.thy ===== *)
theory SealedRecord
  imports Sign StoreSpec
begin

text \<open>
  From a seal to a record: the bytes that \<open>Seal\<close> (\<open>sign.go\<close>) returns, filed as an artifact
  record together with the originals the seal committed to, pass \<open>Verify\<close>
  (\<open>artifact/record.go\<close>) under the key that signed. The two packages meet in the canonical
  bytes only: one computes the digests before the payload is canonicalised, the other looks
  them up in the payload it decodes and digests the originals again.
\<close>

section \<open>The imported envelope verifier\<close>

text \<open>
  The documented behaviour of the imported envelope verifier on producer envelopes: a message
  with the producer's protected header over the bytes of an identifier, whose signature the
  COSE library accepts under the key in that header, is authentic for that identifier and
  reports that key.
\<close>

definition envelope_accepts :: "aac \<Rightarrow> cose \<Rightarrow> bool" where
  "envelope_accepts A C \<longleftrightarrow>
     (\<forall>rnd payload key signer message verifier env.
        length key = PublicKeySize \<longrightarrow> length payload = 32 \<longrightarrow>
        cose_Sign C rnd (unsigned_message key payload) signer = Inr message \<longrightarrow>
        cose_NewVerifier C AlgorithmEdDSA key = Inr verifier \<longrightarrow>
        cose_Verify C message verifier = None \<longrightarrow>
        cose_MarshalCBOR C message = Inr env \<longrightarrow>
        Envelope_OK (envelope_Verify A (hex_EncodeToString payload) env) \<and>
        Envelope_PublicKey (envelope_Verify A (hex_EncodeToString payload) env) = key)"

lemma signed_envelope:
  assumes "envelope_accepts A C" and "Sign A C rnd built identity = Inr env"
  shows "Envelope_OK (envelope_Verify A (Built_CapsuleID built) env) \<and>
    Envelope_PublicKey (envelope_Verify A (Built_CapsuleID built) env) = identity_publicKey identity"
  using assms(2)
proof (rule Sign_InrE)
  fix signer payload message verifier
  assume *: "length (identity_publicKey identity) = PublicKeySize" "hexDigestPattern (Built_CapsuleID built)"
    "hex_DecodeString (Built_CapsuleID built) = Some payload"
    "cose_Sign C rnd (unsigned_message (identity_publicKey identity) payload) signer = Inr message"
    "cose_NewVerifier C AlgorithmEdDSA (identity_publicKey identity) = Inr verifier"
    "cose_Verify C message verifier = None" "cose_MarshalCBOR C message = Inr env"
  then have "hex_EncodeToString payload = Built_CapsuleID built \<and> length payload = 32"
    using hex_capsule_id [OF *(2)] by auto
  with * assms(1) show ?thesis unfolding envelope_accepts_def by metis
qed

section \<open>Lookups in equal values\<close>

text \<open>A string found along a path is found in every value that is equal up to member order.\<close>

lemma walk_json_eq:
  "json_eq v w \<Longrightarrow> walk v ks = Some (JStr s) \<Longrightarrow> walk w ks = Some (JStr s)"
proof (induction ks arbitrary: v w)
  case Nil
  then show ?case by simp
next
  case (Cons k ks)
  from Cons.prems(2) obtain m x where m: "v = JObj m" "map_of m k = Some x" "walk x ks = Some (JStr s)"
    by (cases v) (auto split: option.splits)
  from Cons.prems(1) m(1) obtain n where n: "w = JObj n" by (cases w) auto
  with Cons.prems(1) m json_eq_members(2) [of m n k x] obtain y where "map_of n k = Some y" "json_eq x y"
    by auto
  with Cons.IH [OF _ m(3)] n show ?case by simp
qed

lemma walk_compute:
  "compute_member m k = Some v \<Longrightarrow>
     walk (JObj m) [''model_attestation'', ''compute_attestation'', k] = Some v"
  by (auto simp: compute_member_def split: option.splits json.splits)

lemma digestAt_compute:
  assumes "json_eq (JObj m) (JObj n)" and "hexDigestPattern d"
  shows "compute_member m ''agent_input_digest'' = Some (JStr d) \<Longrightarrow> digestAt n PayloadDigest = Inr d"
    and "compute_member m ''agent_output_digest'' = Some (JStr d) \<Longrightarrow> digestAt n AgentOutputDigest = Inr d"
proof -
  have at: "split_at (CHR ''.'') PayloadDigest = [''model_attestation'', ''compute_attestation'', ''agent_input_digest'']"
    "split_at (CHR ''.'') AgentOutputDigest = [''model_attestation'', ''compute_attestation'', ''agent_output_digest'']"
    by (simp_all add: go_consts)
  show "compute_member m ''agent_input_digest'' = Some (JStr d) \<Longrightarrow> digestAt n PayloadDigest = Inr d"
    and "compute_member m ''agent_output_digest'' = Some (JStr d) \<Longrightarrow> digestAt n AgentOutputDigest = Inr d"
    using walk_json_eq [OF assms(1) walk_compute] assms(2)
    by (auto simp only: digestAt_def at DigestFields_def) auto
qed

section \<open>Filing a sealed result\<close>

definition sealed_record :: "Result \<Rightarrow> Artifact list \<Rightarrow> Record" where
  "sealed_record r as = \<lparr>Record_CapsuleID = Result_CapsuleID r, Record_Capsule = Result_Payload r,
     Record_ProducerEnvelope = Result_Envelope r, Record_Artifacts = as\<rparr>"

text \<open>
  An original of a seal: content under a name, without a checksum yet, which is an attachment
  or the JSON text of the value whose digest the seal put into the payload.
\<close>

definition same_json :: "go_any \<Rightarrow> bytes \<Rightarrow> bool" where
  "same_json v c \<longleftrightarrow> \<not> isAbsentJSONValue v \<and> marshalDigestValue v = marshalDigestValue (RawMessage c)"

definition original_of :: "SealInput \<Rightarrow> Artifact \<Rightarrow> bool" where
  "original_of input a \<longleftrightarrow> namePattern (Artifact_Name a) \<and> Artifact_State a = Present \<and>
     Artifact_ContentSHA256 a = '''' \<and>
     (case Artifact_Content a of
        None \<Rightarrow> False
      | Some c \<Rightarrow> c \<noteq> '''' \<and>
          (Artifact_Binding a = '''' \<or>
           Artifact_Binding a = PayloadDigest \<and> same_json (Seal_Payload input) c \<or>
           Artifact_Binding a = AgentOutputDigest \<and> same_json (Seal_AgentOutput input) c))"

text \<open>The payload a verifier decodes from sealed bytes has the digests of the sealed values.\<close>

lemma sealed_digests:
  assumes "range_ok rng" and hex: "hex_ids A" and "jcs_lossless A" and build: "seal_build A rng input = Inr b"
    and plain: "Seal_Members input = None" "Input_Compute (Seal_Capsule input) = None"
    and depth: "json_depth (JObj (Built_Value b)) \<le> maxJSONDepth"
  obtains n where "DecodePayload (Built_JSON b) = Inr n"
    "\<And>c. same_json (Seal_Payload input) c \<Longrightarrow>
       DigestJSON A (RawMessage c) = digestAt n PayloadDigest \<and> is_ok (digestAt n PayloadDigest)"
    "\<And>c. same_json (Seal_AgentOutput input) c \<Longrightarrow>
       DigestJSON A (RawMessage c) = digestAt n AgentOutputDigest \<and> is_ok (digestAt n AgentOutputDigest)"
proof -
  from build plain(1) obtain i where i: "Build A rng i = Inr b" by (rule seal_build_plain) blast
  have "json_ok (JObj (Built_Value b))" by (rule Build_json_ok [OF assms(1) hex i])
  moreover have "JCS A (JObj (Built_Value b)) = Inr (Built_JSON b)" using i by (rule Build_InrE) simp
  ultimately obtain w where w: "decodeStrictJSON (Built_JSON b) = Inr w" "json_eq (JObj (Built_Value b)) w"
    using assms(3) depth unfolding jcs_lossless_def by blast
  then obtain n where n: "w = JObj n" by (cases w) auto
  have digest: "DigestJSON A (RawMessage c) = DigestJSON A v" if "same_json v c" for v c
    using that by (simp add: same_json_def DigestJSON_def)
  note members = seal_digest_members [OF assms(1) hex build plain]
  have pattern: "hexDigestPattern d" if "DigestJSON A v = Inr d" for v d
    using that hex by (auto simp: DigestJSON_def hex_ids_def split: sum.splits)
  note at = digestAt_compute [OF w(2) [unfolded n]]
  show thesis
  proof (rule that)
    show "DecodePayload (Built_JSON b) = Inr n" using w(1) n by (simp add: DecodePayload_Inr_iff)
    show "DigestJSON A (RawMessage c) = digestAt n PayloadDigest \<and> is_ok (digestAt n PayloadDigest)"
      if s: "same_json (Seal_Payload input) c" for c
      using members(1) s digest [OF s] at(1) [OF pattern] by (auto simp: same_json_def)
    show "DigestJSON A (RawMessage c) = digestAt n AgentOutputDigest \<and> is_ok (digestAt n AgentOutputDigest)"
      if s: "same_json (Seal_AgentOutput input) c" for c
      using members(2) s digest [OF s] at(2) [OF pattern] by (auto simp: same_json_def)
  qed
qed

lemma sealed_record_ok:
  assumes "range_ok rng" and "hex_ids A" and "jcs_lossless A" and envelope: "envelope_accepts A C"
    and build: "seal_build A rng input = Inr b" and depth: "json_depth (JObj (Built_Value b)) \<le> maxJSONDepth"
    and seal: "Seal A C rnd rng input = Inr r" and plain: "Seal_Members input = None"
    and key: "identity_publicKey (Seal_Identity input) \<in> set trusted"
    and names: "distinct (map Artifact_Name as)" and originals: "\<forall>a \<in> set as. original_of input a"
  shows "record_ok A trusted (sealed_record r as)"
proof -
  from seal build have s: "Sign A C rnd b (Seal_Identity input) = Inr (Result_Envelope r)"
    "Result_CapsuleID r = Built_CapsuleID b" "Result_Payload r = Built_JSON b"
    "Input_Compute (Seal_Capsule input) = None"
    by (auto elim!: Seal_InrE)
  from s(1) have id: "hexDigestPattern (Built_CapsuleID b)" "verifies A (Built_JSON b) (Built_CapsuleID b)"
    "length (identity_publicKey (Seal_Identity input)) = PublicKeySize"
    by (auto elim!: Sign_InrE)
  with key signed_envelope [OF envelope s(1)] have "signed_ok A trusted (sealed_record r as)"
    by (auto simp: signed_ok_def sealed_record_def s VerifyEnvelope_def Let_def authorized_def list_ex_iff PublicKeySize_def)
  moreover obtain n where n: "DecodePayload (Built_JSON b) = Inr n"
    "\<And>c. same_json (Seal_Payload input) c \<Longrightarrow>
       DigestJSON A (RawMessage c) = digestAt n PayloadDigest \<and> is_ok (digestAt n PayloadDigest)"
    "\<And>c. same_json (Seal_AgentOutput input) c \<Longrightarrow>
       DigestJSON A (RawMessage c) = digestAt n AgentOutputDigest \<and> is_ok (digestAt n AgentOutputDigest)"
    by (rule sealed_digests [OF assms(1-3) build plain s(4) depth]) blast
  have "artifact_ok A n a" if "a \<in> set as" for a
    using originals [rule_format, OF that] n(2,3)
    by (auto simp: original_of_def artifact_ok_def original_ok_def split: option.splits)
  with n(1) names have "inventory_ok A (Built_JSON b) as" by (auto simp: inventory_ok_def)
  ultimately show ?thesis by (simp add: record_ok_def sealed_record_def s)
qed

text \<open>Preparation fills in the checksums and nothing else.\<close>

lemma sealed_prepare:
  assumes "\<forall>a \<in> set as. original_of input a" and "within_limits (sealed_record r as)"
  shows "Prepare (sealed_record r as) = Inr (sealed_record r (map fill_checksum as))"
  using assms by (auto simp: Prepare_Inr_iff preparable_def original_of_def sealed_record_def go_consts)

lemma sealed_stored:
  assumes "\<forall>a \<in> set as. original_of input a"
  shows "stored (sealed_record r (map fill_checksum as)) = sealed_record r (map fill_checksum as)"
proof -
  have "stored_artifact (fill_checksum a) = fill_checksum a" if "a \<in> set as" for a
    using assms [rule_format, OF that]
    by (cases "Artifact_Content a")
      (auto simp: original_of_def stored_artifact_def stored_content_def fill_checksum_def)
  then show ?thesis by (simp add: stored_def sealed_record_def)
qed

lemma filled_record_ok:
  assumes "record_ok A trusted (sealed_record r as)" and "\<forall>a \<in> set as. original_of input a"
  shows "record_ok A trusted (sealed_record r (map fill_checksum as))"
proof -
  have "artifact_ok A m (fill_checksum a)" if "a \<in> set as" "artifact_ok A m a" for m a
    using assms(2) [rule_format, OF that(1)] that(2)
    by (auto simp: artifact_ok_def original_ok_def original_of_def fill_checksum_def)
  then show ?thesis
    using assms(1) signed_ok_cong [of "sealed_record r (map fill_checksum as)" "sealed_record r as"]
    by (fastforce simp: record_ok_def inventory_ok_def sealed_record_def comp_def)
qed

lemma sealed_checks:
  assumes "\<forall>a \<in> set as. original_of input a" and "record_ok A trusted (sealed_record r (map fill_checksum as))"
  shows "Verify A (sealed_record r (map fill_checksum as)) trusted = Inr (map (\<lambda>a. (Artifact_Name a,
      \<lparr>Check_State = Present, Check_Bound = (Artifact_Binding a \<noteq> ''''),
       Check_Verified = (Artifact_Binding a \<noteq> '''')\<rparr>)) as)"
  using assms by (auto simp: Verify_Inr_iff sealed_record_def original_of_def check_of_def fill_checksum_def)

text \<open>A filed seal is admitted by every store.\<close>

lemma sealed_admit:
  assumes "range_ok rng" and "hex_ids A" and "jcs_lossless A" and "envelope_accepts A C"
    and "seal_build A rng input = Inr b" and "json_depth (JObj (Built_Value b)) \<le> maxJSONDepth"
    and "Seal A C rnd rng input = Inr r" and "Seal_Members input = None"
    and "identity_publicKey (Seal_Identity input) \<in> set trusted"
    and "distinct (map Artifact_Name as)" and "\<forall>a \<in> set as. original_of input a"
    and "within_limits (sealed_record r as)"
  shows "\<exists>hash. admit A trusted (sealed_record r as) = Inr (sealed_record r (map fill_checksum as), hash) \<and>
    record_ok A trusted (sealed_record r (map fill_checksum as))"
proof -
  let ?p = "sealed_record r (map fill_checksum as)"
  have "record_ok A trusted (sealed_record r as)" by (rule sealed_record_ok [OF assms(1-11)])
  then have ok: "record_ok A trusted ?p" using assms(11) by (rule filled_record_ok)
  then obtain hash where "StorageChecksum ?p = Inr hash" by (rule checksum_defined)
  with ok sealed_prepare [OF assms(11,12)] show ?thesis by (simp add: admit_Inr_iff)
qed

end
