(* ===== verification/Jsonl.thy ===== *)
theory Jsonl
  imports StoreSpec
begin

text \<open>
  The JSONL store (\<open>artifact/jsonl/store.go\<close>): one record per line, and an index from
  capsule identifiers to the place of a line. The state of an operation is the \<open>Store\<close>
  value and what is on disk at its path (\<open>None\<close>: no file). Which system calls fail, and how
  much of a write reaches the file before it fails, is the argument \<open>io\<close>. An operation is a
  function on the state; \<open>JsonlThreads\<close> takes it apart and shows that the mutex makes it atomic.
\<close>

section \<open>Files and faults\<close>

type_synonym disk = "bytes option"

record jsonl_io =
  Io_open :: "go_error option"
  Io_read :: "go_error option"
  Io_seek :: "go_error option"
  Io_write :: "(nat \<times> go_error) option" \<comment> \<open>bytes written before the error\<close>
  Io_scan :: "(nat \<times> go_error) option" \<comment> \<open>bytes read before the error\<close>
  Io_create :: "go_error option"
  Io_stat :: "go_error option"
  Io_chmod :: "go_error option"
  Io_flush :: "go_error option"
  Io_close :: "go_error option"
  Io_rename :: "go_error option"

definition no_faults :: jsonl_io where
  "no_faults = \<lparr>Io_open = None, Io_read = None, Io_seek = None, Io_write = None, Io_scan = None,
     Io_create = None, Io_stat = None, Io_chmod = None, Io_flush = None, Io_close = None, Io_rename = None\<rparr>"

definition ErrNotExist :: go_error where
  "ErrNotExist = External ''file does not exist''"

text \<open>\<open>os.Open\<close>.\<close>

definition os_open :: "jsonl_io \<Rightarrow> disk \<Rightarrow> bytes res" where
  "os_open io disk =
     (case disk of
        None \<Rightarrow> Inl ErrNotExist
      | Some data \<Rightarrow> (case Io_open io of Some err \<Rightarrow> Inl err | None \<Rightarrow> Inr data))"

section \<open>bufio.Scanner\<close>

definition newline :: char where "newline = CHR 0x0A"
definition carriage_return :: char where "carriage_return = CHR 0x0D"

definition drop_cr :: "bytes \<Rightarrow> bytes" where
  "drop_cr raw = (if raw \<noteq> [] \<and> last raw = carriage_return then butlast raw else raw)"

definition ErrTooLong :: go_error where
  "ErrTooLong = External ''bufio.Scanner: token too long''"

text \<open>
  The tokens of \<open>ScanLines\<close> under a buffer of \<open>max_line\<close> bytes, and the error that ends the
  scan: a line that fills the buffer without its newline is too long.
\<close>

function scan_lines :: "bytes \<Rightarrow> bytes list \<times> go_error option" where
  "scan_lines s =
     (if s = [] then ([], None)
      else
        (let raw = takeWhile (\<lambda>c. c \<noteq> newline) s in
         if max_line \<le> length raw then ([], Some ErrTooLong)
         else (case scan_lines (drop (Suc (length raw)) s) of (ls, err) \<Rightarrow> (drop_cr raw # ls, err))))"
  by pat_completeness auto
termination
  by (relation "measure length") auto

declare scan_lines.simps [simp del]

text \<open>A read error ends the scan after the tokens of what was read.\<close>

definition scan_file :: "jsonl_io \<Rightarrow> bytes \<Rightarrow> bytes list \<times> go_error option" where
  "scan_file io data =
     (case Io_scan io of
        None \<Rightarrow> scan_lines data
      | Some (n, e) \<Rightarrow>
          (case scan_lines (take n data) of
             (ls, None) \<Rightarrow> (ls, Some e)
           | (ls, Some err) \<Rightarrow> (ls, Some err)))"

section \<open>The store\<close>

record indexEntry =
  Entry_offset :: nat
  Entry_length :: nat

type_synonym line_index = "(string \<times> indexEntry) list"

record Store =
  Store_path :: string
  Store_namespace :: string
  Store_trusted :: "bytes list"
  Store_index :: line_index

fun index_lines :: "nat \<Rightarrow> line_index \<Rightarrow> bytes list \<Rightarrow> line_index" where
  "index_lines offset idx [] = idx"
| "index_lines offset idx (l # ls) =
     index_lines (offset + length l + 1)
       (case peek l of (cid, ok) \<Rightarrow>
          if ok \<and> cid \<noteq> '''' then AList.update cid \<lparr>Entry_offset = offset, Entry_length = length l\<rparr> idx else idx)
       ls"

definition scanIndex :: "jsonl_io \<Rightarrow> bytes \<Rightarrow> line_index res" where
  "scanIndex io data =
     (case scan_file io data of
        (ls, None) \<Rightarrow> Inr (index_lines 0 [] ls)
      | (ls, Some err) \<Rightarrow> Inl err)"

definition jsonl_New :: "jsonl_io \<Rightarrow> string \<Rightarrow> string \<Rightarrow> bytes list \<Rightarrow> disk \<Rightarrow> Store res" where
  "jsonl_New io path namespace trusted disk =
     (if \<not> namePattern namespace then Inl (Wrapf ''%w: namespace'' [] (Err ErrInvalid))
      else if trusted = [] then Inl (Wrapf ''%w: no trusted keys'' [] (Err ErrInvalid))
      else if list_ex (\<lambda>k. length k \<noteq> 32) trusted then Inl (Wrapf ''%w: public key size'' [] (Err ErrInvalid))
      else
        (let s = \<lparr>Store_path = path, Store_namespace = namespace, Store_trusted = trusted, Store_index = []\<rparr> in
         case os_open io disk of
           Inl err \<Rightarrow> if err = ErrNotExist then Inr s else Inl err
         | Inr data \<Rightarrow>
             (case scanIndex io data of
                Inl err \<Rightarrow> Inl err
              | Inr idx \<Rightarrow> Inr (s\<lparr>Store_index := idx\<rparr>))))"

definition Namespace :: "Store \<Rightarrow> string" where
  "Namespace s = Store_namespace s"

text \<open>\<open>Init\<close>: an exclusive creation, where an existing file is no error.\<close>

definition jsonl_Init :: "jsonl_io \<Rightarrow> disk \<Rightarrow> go_error option \<times> disk" where
  "jsonl_Init io disk =
     (case disk of
        Some data \<Rightarrow> (None, disk)
      | None \<Rightarrow>
          (case Io_create io of
             Some err \<Rightarrow> (Some err, None)
           | None \<Rightarrow> (Io_close io, Some [])))"

definition readAt :: "jsonl_io \<Rightarrow> disk \<Rightarrow> indexEntry \<Rightarrow> Record res" where
  "readAt io disk entry =
     (case os_open io disk of
        Inl err \<Rightarrow> Inl err
      | Inr data \<Rightarrow>
          if Io_read io \<noteq> None \<or> length data < Entry_offset entry + Entry_length entry
          then Inl (Wrapf ''%w: read failed: %v'' [] (Err ErrCorrupt))
          else (case unmarshalRecord (take (Entry_length entry) (drop (Entry_offset entry) data)) of
              None \<Rightarrow> Inl (Wrapf ''%w: parse failed: %v'' [] (Err ErrCorrupt))
            | Some record \<Rightarrow> Inr record))"

definition ErrOtherCapsule :: go_error where
  "ErrOtherCapsule = Wrapf ''%w: index points to a different capsule'' [] (Err ErrCorrupt)"

text \<open>\<open>Put\<close> of an identifier that the index has.\<close>

definition put_existing :: "aac \<Rightarrow> jsonl_io \<Rightarrow> Store \<Rightarrow> disk \<Rightarrow> indexEntry \<Rightarrow> Record \<Rightarrow> string \<Rightarrow> go_error option" where
  "put_existing A io s disk entry r hash =
     (case readAt io disk entry of
        Inl err \<Rightarrow> Some err
      | Inr existing \<Rightarrow>
          if Record_CapsuleID existing \<noteq> Record_CapsuleID r then Some ErrOtherCapsule
          else (case Verify A existing (Store_trusted s) of
              Inl err \<Rightarrow> Some err
            | Inr _ \<Rightarrow>
                (case StorageChecksum existing of
                   Inl err \<Rightarrow> Some err
                 | Inr oldHash \<Rightarrow>
                     if oldHash \<noteq> hash then Some (Err ErrConflict)
                     else if any_purged existing then Some (Err ErrPurged)
                     else None)))"

text \<open>\<open>Put\<close> of a new identifier: append one line, then index it.\<close>

definition put_line :: "jsonl_io \<Rightarrow> Store \<Rightarrow> disk \<Rightarrow> Record \<Rightarrow> go_error option \<times> Store \<times> disk" where
  "put_line io s disk r =
     (case marshalRecord r of
        Inl err \<Rightarrow> (Some err, s, disk)
      | Inr data \<Rightarrow>
          (case os_open io disk of
             Inl err \<Rightarrow> (Some err, s, disk)
           | Inr content \<Rightarrow>
               (case Io_seek io of
                  Some err \<Rightarrow> (Some err, s, disk)
                | None \<Rightarrow>
                    (case Io_write io of
                       Some (n, err) \<Rightarrow> (Some err, s, Some (content @ take n (data @ [newline])))
                     | None \<Rightarrow>
                         (None,
                          s\<lparr>Store_index := AList.update (Record_CapsuleID r)
                              \<lparr>Entry_offset = length content, Entry_length = length data\<rparr> (Store_index s)\<rparr>,
                          Some (content @ data @ [newline]))))))"

definition jsonl_Put ::
  "aac \<Rightarrow> jsonl_io \<Rightarrow> Record \<Rightarrow> Store \<times> disk \<Rightarrow> go_error option \<times> Store \<times> disk" where
  "jsonl_Put A io record sd =
     (case sd of (s, disk) \<Rightarrow>
        (case Prepare record of
           Inl err \<Rightarrow> (Some err, sd)
         | Inr r \<Rightarrow>
             (case Verify A r (Store_trusted s) of
                Inl err \<Rightarrow> (Some err, sd)
              | Inr _ \<Rightarrow>
                  (case StorageChecksum r of
                     Inl err \<Rightarrow> (Some err, sd)
                   | Inr hash \<Rightarrow>
                       (case map_of (Store_index s) (Record_CapsuleID r) of
                          Some entry \<Rightarrow> (put_existing A io s disk entry r hash, sd)
                        | None \<Rightarrow> put_line io s disk r)))))"

definition jsonl_Get :: "aac \<Rightarrow> jsonl_io \<Rightarrow> string \<Rightarrow> Store \<times> disk \<Rightarrow> Record res" where
  "jsonl_Get A io cid sd =
     (case sd of (s, disk) \<Rightarrow>
        if \<not> hexDigestPattern cid then Inl (Err ErrInvalid)
        else (case map_of (Store_index s) cid of
            None \<Rightarrow> Inl (Err ErrNotFound)
          | Some entry \<Rightarrow>
              (case readAt io disk entry of
                 Inl err \<Rightarrow> Inl err
               | Inr record \<Rightarrow>
                   if Record_CapsuleID record \<noteq> cid then Inl ErrOtherCapsule
                   else (case Verify A record (Store_trusted s) of Inl err \<Rightarrow> Inl err | Inr _ \<Rightarrow> Inr record))))"

section \<open>Purge\<close>

text \<open>
  The copy loop of \<open>rewrite\<close>: the new contents, the new index and whether the target was
  found, or the error of marshalling the replacement. The loop uses the peeked identifier
  whether or not the line parses.
\<close>

fun rewrite_lines ::
  "string \<Rightarrow> Record \<Rightarrow> bytes \<Rightarrow> line_index \<Rightarrow> bool \<Rightarrow> bytes list \<Rightarrow> (bytes \<times> line_index \<times> bool) res" where
  "rewrite_lines target replacement out idx found [] = Inr (out, idx, found)"
| "rewrite_lines target replacement out idx found (l # ls) =
     (let cid = fst (peek l) in
      case (if cid = target then marshalRecord replacement else Inr l) of
        Inl err \<Rightarrow> Inl err
      | Inr outLine \<Rightarrow>
          rewrite_lines target replacement (out @ outLine @ [newline])
            (if cid \<noteq> '''' then AList.update cid \<lparr>Entry_offset = length out, Entry_length = length outLine\<rparr> idx
             else idx)
            (found \<or> cid = target) ls)"

text \<open>
  Until the rename the copy is a temporary file, which every error removes. A failed write
  of the copy surfaces at \<open>Flush\<close> at the latest, where the model reports it.
\<close>

definition rewrite :: "jsonl_io \<Rightarrow> string \<Rightarrow> Record \<Rightarrow> Store \<times> disk \<Rightarrow> go_error option \<times> Store \<times> disk" where
  "rewrite io target replacement sd =
     (case sd of (s, disk) \<Rightarrow>
        (case os_open io disk of
           Inl err \<Rightarrow> (Some err, sd)
         | Inr content \<Rightarrow>
             (case or_else (Io_create io) (or_else (Io_stat io) (Io_chmod io)) of
                Some err \<Rightarrow> (Some err, sd)
              | None \<Rightarrow>
                  (case scan_file io content of (ls, scan_err) \<Rightarrow>
                     (case rewrite_lines target replacement [] [] False ls of
                        Inl err \<Rightarrow> (Some err, sd)
                      | Inr (out, idx, found) \<Rightarrow>
                          (case or_else scan_err
                                  (or_else
                                    (err_if (\<not> found)
                                      (Wrapf ''%w: target line vanished during rewrite'' [] (Err ErrCorrupt)))
                                    (or_else (Io_flush io) (or_else (Io_close io) (Io_rename io)))) of
                             Some err \<Rightarrow> (Some err, sd)
                           | None \<Rightarrow> (None, s\<lparr>Store_index := idx\<rparr>, Some out)))))))"

definition jsonl_Purge :: "jsonl_io \<Rightarrow> string \<Rightarrow> Store \<times> disk \<Rightarrow> go_error option \<times> Store \<times> disk" where
  "jsonl_Purge io cid sd =
     (case sd of (s, disk) \<Rightarrow>
        if \<not> hexDigestPattern cid then (Some (Err ErrInvalid), sd)
        else (case map_of (Store_index s) cid of
            None \<Rightarrow> (Some (Err ErrNotFound), sd)
          | Some entry \<Rightarrow>
              (case readAt io disk entry of
                 Inl err \<Rightarrow> (Some err, sd)
               | Inr target \<Rightarrow>
                   if Record_CapsuleID target \<noteq> cid then (Some ErrOtherCapsule, sd)
                   else rewrite io cid (purge_record target) sd)))"

lemmas [go_eval] = no_faults_def os_open_def drop_cr_def scan_file_def scanIndex_def jsonl_New_def Namespace_def
  jsonl_Init_def readAt_def put_existing_def put_line_def jsonl_Put_def jsonl_Get_def rewrite_def jsonl_Purge_def
lemmas [go_consts] = newline_def carriage_return_def

end
