(* ===== verification/JsonlFacts.thy ===== *)
theory JsonlFacts
  imports Jsonl
begin

text \<open>
  The JSONL store keeps its contract. A file that the store wrote is a list of records, one
  line each; the locale \<open>line_codec\<close> states what that needs of the line format, and the
  index, the scan and the rewrite are followed over such files. The store is then an
  instance of \<open>store_contract\<close> as long as a failing write of a line leaves the file as it
  was, and of \<open>live_store\<close> when nothing fails.
\<close>

section \<open>Files of lines\<close>

definition file_bytes :: "bytes list \<Rightarrow> bytes" where
  "file_bytes ls = concat (map (\<lambda>l. l @ [newline]) ls)"

lemma file_bytes_simps [simp]:
  "file_bytes [] = []" "file_bytes (l # ls) = l @ newline # file_bytes ls"
  "file_bytes (ls @ ks) = file_bytes ls @ file_bytes ks"
  by (simp_all add: file_bytes_def)

text \<open>A line that the scanner returns as it is.\<close>

definition clean_line :: "bytes \<Rightarrow> bool" where
  "clean_line l \<longleftrightarrow> newline \<notin> set l \<and> (l = [] \<or> last l \<noteq> carriage_return) \<and> length l < max_line"

lemma scan_line:
  assumes "clean_line l"
  shows "scan_lines (l @ newline # s) = (case scan_lines s of (ls, err) \<Rightarrow> (l # ls, err))"
proof -
  have "takeWhile (\<lambda>c. c \<noteq> newline) (l @ newline # s) = l"
    using assms by (subst takeWhile_append2) (auto simp: clean_line_def)
  moreover have "drop_cr l = l" using assms by (auto simp: clean_line_def drop_cr_def)
  ultimately show ?thesis
    using assms by (subst scan_lines.simps) (simp add: clean_line_def Let_def)
qed

lemma scan_lines_Nil [simp]: "scan_lines [] = ([], None)"
  by (subst scan_lines.simps) simp

lemma scan_file_bytes: "(\<And>l. l \<in> set ls \<Longrightarrow> clean_line l) \<Longrightarrow> scan_lines (file_bytes ls) = (ls, None)"
  by (induction ls) (simp_all add: scan_line)

lemma index_lines_append:
  "index_lines n idx (ls @ ks) = index_lines (n + length (file_bytes ls)) (index_lines n idx ls) ks"
  by (induction ls arbitrary: n idx) (simp_all add: add.assoc add.commute add.left_commute)

lemma slice_append: "take (length l) (drop (length (file_bytes ls)) (file_bytes ls @ l @ s)) = l"
  by simp

text \<open>\<open>rewrite\<close> replaces the lines of the target and copies the others byte for byte.\<close>

lemma rewrite_lines_out:
  assumes "rewrite_lines target q out idx found ls = Inr (out', idx', found')"
    and "\<forall>l \<in> set ls. fst (peek l) = target \<longrightarrow> marshalRecord q = Inr data"
  shows "out' = out @ file_bytes (map (\<lambda>l. if fst (peek l) = target then data else l) ls) \<and>
    (found' \<longleftrightarrow> found \<or> (\<exists>l \<in> set ls. fst (peek l) = target))"
  using assms
proof (induction ls arbitrary: out idx found)
  case (Cons l ls)
  let ?line = "if fst (peek l) = target then data else l"
  have "(if fst (peek l) = target then marshalRecord q else Inr l) = Inr ?line"
    using Cons.prems(2) by auto
  with Cons.prems(1) obtain idx2 where
    "rewrite_lines target q (out @ ?line @ [newline]) idx2 (found \<or> fst (peek l) = target) ls = Inr (out', idx', found')"
    by (simp only: rewrite_lines.simps(2) Let_def sum.case)
  from Cons.IH [OF this] Cons.prems(2) show ?case by auto
qed auto

text \<open>A target that was found was marshalled.\<close>

lemma rewrite_lines_data:
  "rewrite_lines target q out idx found ls = Inr (out', idx', found') \<Longrightarrow> found' \<and> \<not> found \<Longrightarrow>
     \<exists>data. marshalRecord q = Inr data"
  by (induction ls arbitrary: out idx found) (auto simp: Let_def split: sum.splits if_splits)

section \<open>Lines that carry a key\<close>

locale line_codec =
  fixes line :: "'r \<Rightarrow> bytes" and good :: "'r \<Rightarrow> bool" and key :: "'r \<Rightarrow> string"
  assumes printable: "good r \<Longrightarrow> c \<in> set (line r) \<Longrightarrow> 32 \<le> byte c"
    and short: "good r \<Longrightarrow> length (line r) < max_line"
    and peeked: "good r \<Longrightarrow> peek (line r) = (key r, True)"
    and keyed: "good r \<Longrightarrow> key r \<noteq> ''''"
begin

lemma good_clean: "good r \<Longrightarrow> clean_line (line r)"
proof -
  assume r: "good r"
  have "byte newline = 10" "byte carriage_return = 13" by (simp_all add: newline_def carriage_return_def)
  with printable [OF r, of newline] printable [OF r, of carriage_return]
  have "newline \<notin> set (line r)" "carriage_return \<notin> set (line r)" by auto
  with short [OF r] show ?thesis unfolding clean_line_def by (metis last_in_set)
qed

lemma scan_good: "(\<forall>r \<in> set rs. good r) \<Longrightarrow> scan_lines (file_bytes (map line rs)) = (map line rs, None)"
  by (rule scan_file_bytes) (auto simp: good_clean)

lemma index_other:
  "(\<forall>r \<in> set rs. good r) \<Longrightarrow> k \<notin> key ` set rs \<Longrightarrow>
     map_of (index_lines n idx (map line rs)) k = map_of idx k"
  by (induction rs arbitrary: n idx) (auto simp: peeked keyed)

lemma index_at:
  assumes "\<forall>r \<in> set (xs @ r # ys). good r" "distinct (map key (xs @ r # ys))"
  shows "map_of (index_lines 0 [] (map line (xs @ r # ys))) (key r) =
    Some \<lparr>Entry_offset = length (file_bytes (map line xs)), Entry_length = length (line r)\<rparr>"
proof -
  have "good r" using assms(1) by simp
  then show ?thesis
    using assms by (simp add: index_lines_append peeked keyed, subst index_other) auto
qed

lemma index_keys:
  assumes "\<forall>r \<in> set rs. good r"
  shows "map_of (index_lines 0 [] (map line rs)) k = None \<longleftrightarrow> k \<notin> key ` set rs"
proof
  assume none: "map_of (index_lines 0 [] (map line rs)) k = None"
  have "map_of (index_lines n idx (map line rs)) k \<noteq> None" if "k \<in> key ` set rs \<or> map_of idx k \<noteq> None" for n idx
    using assms that
  proof (induction rs arbitrary: n idx)
    case (Cons r rs)
    have "k \<in> key ` set rs \<or> map_of (AList.update (key r) e idx) k \<noteq> None" for e
      using Cons.prems(2) by (auto simp: update_conv)
    with Cons show ?case by (simp add: peeked keyed)
  qed auto
  with none show "k \<notin> key ` set rs" by blast
qed (use index_other [OF assms] in simp)

text \<open>The rewrite of a file of good lines is the file with the target's lines replaced.\<close>

lemma rewrite_good:
  assumes "\<forall>r \<in> set rs. good r" "good q" "key q = target" "marshalRecord x = Inr (line q)"
  shows "rewrite_lines target x out idx found (map line rs) =
    (let rs' = map (\<lambda>r. if key r = target then q else r) rs in
     Inr (out @ file_bytes (map line rs'), index_lines (length out) idx (map line rs'),
       found \<or> target \<in> key ` set rs))"
  using assms
proof (induction rs arbitrary: out idx found)
  case (Cons r rs)
  then show ?case
    by (auto simp: Let_def peeked keyed)
qed simp

end

section \<open>Record lines\<close>

definition record_line :: "Record \<Rightarrow> bytes" where
  "record_line r = v2_print (record_json r)"

lemma marshal_line: "admitted A trusted p \<Longrightarrow> marshalRecord p = Inr (record_line p)"
  using record_ok_utf8 [of A trusted p] by (simp add: marshalRecord_def record_line_def admitted_def)

lemma admitted_key: "admitted A trusted p \<Longrightarrow> hexDigestPattern (Record_CapsuleID p)"
  by (simp add: admitted_def record_ok_def signed_ok_def)

interpretation record_lines: line_codec record_line "admitted A trusted" Record_CapsuleID for A trusted
proof unfold_locales
  fix p c assume p: "admitted A trusted p"
  then have utf8: "record_utf8 p" using record_ok_utf8 by (auto simp: admitted_def)
  show "c \<in> set (record_line p) \<Longrightarrow> 32 \<le> byte c"
    unfolding record_line_def using v2_print_clean textual_record [OF utf8] by blast
  show "length (record_line p) < max_line"
    unfolding record_line_def using p admitted_line_length by (auto simp: admitted_def intro: Suc_lessD)
  show "peek (record_line p) = (Record_CapsuleID p, True)"
    using peek_marshal [OF marshal_line [OF p]] .
  show "Record_CapsuleID p \<noteq> ''''" using admitted_key [OF p] by auto
qed

lemma unmarshal_line: "admitted A trusted p \<Longrightarrow> unmarshalRecord (record_line p) = Some (stored p)"
  using unmarshal_marshal [OF marshal_line] .

text \<open>Empty content is not written, so a stored record has the line of the original.\<close>

lemma stored_simps [simp]:
  "Record_CapsuleID (stored p) = Record_CapsuleID p" "Record_Capsule (stored p) = Record_Capsule p"
  "Record_ProducerEnvelope (stored p) = Record_ProducerEnvelope p"
  "Record_Artifacts (stored p) = map stored_artifact (Record_Artifacts p)"
  by (simp_all add: stored_def)

lemma stored_purge: "purge_record (stored p) = stored (purge_record p)"
proof -
  have "purge_artifact (stored_artifact a) = stored_artifact (purge_artifact a)" for a
    by (cases a) (simp add: purge_artifact_def stored_artifact_def stored_content_def)
  then show ?thesis by (simp add: purge_record_def stored_def comp_def)
qed

lemma artifact_json_stored [simp]: "artifact_json (stored_artifact a) = artifact_json a"
  by (auto simp: artifact_json_def stored_artifact_def stored_content_def text_member_def split: option.split)

lemma marshal_stored: "admitted A trusted p \<Longrightarrow> marshalRecord (stored p) = Inr (record_line p)"
proof -
  assume p: "admitted A trusted p"
  have "record_utf8 (stored p)"
    using record_ok_utf8 [of A trusted p] p
    by (auto simp: admitted_def record_utf8_def artifact_utf8_def stored_artifact_def)
  moreover have "record_json (stored p) = record_json p" by (simp add: record_json_def comp_def)
  ultimately show ?thesis by (simp add: marshalRecord_def record_line_def)
qed

section \<open>The contract\<close>

text \<open>The store's records: what each index entry leads to.\<close>

definition jsonl_holds :: "Store \<times> disk \<Rightarrow> vault" where
  "jsonl_holds sd cid =
     (case map_of (Store_index (fst sd)) cid of
        None \<Rightarrow> None
      | Some entry \<Rightarrow> (case readAt no_faults (snd sd) entry of Inl _ \<Rightarrow> None | Inr r \<Rightarrow> Some r))"

text \<open>The file is the lines of admitted records with distinct identifiers, and the index is theirs.\<close>

definition jsonl_layout :: "aac \<Rightarrow> bytes list \<Rightarrow> Record list \<Rightarrow> Store \<times> disk \<Rightarrow> bool" where
  "jsonl_layout A trusted ps sd \<longleftrightarrow>
     Store_trusted (fst sd) = trusted \<and> (\<forall>p \<in> set ps. admitted A trusted p) \<and>
     distinct (map Record_CapsuleID ps) \<and> snd sd = Some (file_bytes (map record_line ps)) \<and>
     Store_index (fst sd) = index_lines 0 [] (map record_line ps)"

definition jsonl_inv :: "aac \<Rightarrow> bytes list \<Rightarrow> Store \<times> disk \<Rightarrow> bool" where
  "jsonl_inv A trusted sd \<longleftrightarrow> (\<exists>ps. jsonl_layout A trusted ps sd)"

text \<open>A failed write has left the file as it was.\<close>

definition write_clean :: "jsonl_io \<Rightarrow> bool" where
  "write_clean io \<longleftrightarrow> (case Io_write io of None \<Rightarrow> True | Some (n, err) \<Rightarrow> n = 0)"

definition no_io_faults :: "jsonl_io \<Rightarrow> bool" where
  "no_io_faults io \<longleftrightarrow> io = no_faults"

lemma readAt_faultless: "readAt io disk entry = Inr r \<Longrightarrow> readAt no_faults disk entry = Inr r"
  by (auto simp: readAt_def os_open_def no_faults_def split: option.splits if_splits)

lemma layout_entry:
  assumes "jsonl_layout A trusted ps sd" "p \<in> set ps"
  obtains entry where "map_of (Store_index (fst sd)) (Record_CapsuleID p) = Some entry"
    "readAt no_faults (snd sd) entry = Inr (stored p)"
proof -
  from assms(2) obtain xs ys where ps: "ps = xs @ p # ys" by (auto simp: in_set_conv_decomp)
  let ?e = "\<lparr>Entry_offset = length (file_bytes (map record_line xs)), Entry_length = length (record_line p)\<rparr>"
  have at: "map_of (Store_index (fst sd)) (Record_CapsuleID p) = Some ?e"
    using assms(1) record_lines.index_at [of xs p ys A trusted] by (simp add: jsonl_layout_def ps)
  have "admitted A trusted p" using assms by (simp add: jsonl_layout_def)
  then have "readAt no_faults (snd sd) ?e = Inr (stored p)"
    using assms(1) by (simp add: jsonl_layout_def ps readAt_def os_open_def no_faults_def unmarshal_line)
  with at show thesis by (rule that)
qed

lemma layout_index:
  assumes "jsonl_layout A trusted ps sd"
  shows "map_of (Store_index (fst sd)) cid = None \<longleftrightarrow> cid \<notin> Record_CapsuleID ` set ps"
  using assms record_lines.index_keys [of ps A trusted cid] by (simp add: jsonl_layout_def)

lemma layout_holds_Some:
  assumes "jsonl_layout A trusted ps sd" "p \<in> set ps"
  shows "jsonl_holds sd (Record_CapsuleID p) = Some (stored p)"
  by (rule layout_entry [OF assms]) (simp add: jsonl_holds_def)

lemma layout_holds_None:
  assumes "jsonl_layout A trusted ps sd" "cid \<notin> Record_CapsuleID ` set ps"
  shows "jsonl_holds sd cid = None"
  using assms layout_index [OF assms(1), of cid] by (simp add: jsonl_holds_def)

text \<open>Under the invariant an index entry leads to the record with its identifier.\<close>

lemma layout_read:
  assumes "jsonl_layout A trusted ps sd" "map_of (Store_index (fst sd)) cid = Some entry"
  obtains p where "p \<in> set ps" "cid = Record_CapsuleID p" "readAt no_faults (snd sd) entry = Inr (stored p)"
    "jsonl_holds sd cid = Some (stored p)"
proof -
  have "cid \<in> Record_CapsuleID ` set ps" using layout_index [OF assms(1), of cid] assms(2) by auto
  then obtain p where p: "p \<in> set ps" "cid = Record_CapsuleID p" by blast
  obtain e where "map_of (Store_index (fst sd)) (Record_CapsuleID p) = Some e"
    "readAt no_faults (snd sd) e = Inr (stored p)"
    using layout_entry [OF assms(1) p(1)] by blast
  with assms(2) p layout_holds_Some [OF assms(1) p(1)] show thesis by (intro that [OF p]) simp_all
qed

lemma holds_ext:
  assumes "jsonl_layout A trusted qs td"
    and "\<And>p. p \<in> set qs \<Longrightarrow> V (Record_CapsuleID p) = Some (stored p)"
    and "\<And>cid. cid \<notin> Record_CapsuleID ` set qs \<Longrightarrow> V cid = None"
  shows "jsonl_holds td = V"
proof
  fix cid
  show "jsonl_holds td cid = V cid"
  proof (cases "cid \<in> Record_CapsuleID ` set qs")
    case True
    then obtain p where p: "p \<in> set qs" "cid = Record_CapsuleID p" by blast
    with layout_holds_Some [OF assms(1) p(1)] assms(2) [OF p(1)] show ?thesis by simp
  next
    case False
    with layout_holds_None [OF assms(1)] assms(3) show ?thesis by simp
  qed
qed

lemma readAt_other: "readAt no_faults disk entry = Inr r \<Longrightarrow>
   readAt io disk entry = Inr r \<or> io \<noteq> no_faults \<and> (\<exists>err. readAt io disk entry = Inl err)"
  using readAt_faultless [of io disk entry] by (cases "readAt io disk entry") auto

lemma jsonl_Put_admit:
  "jsonl_Put A io r (s, disk) =
     (case admit A (Store_trusted s) r of
        Inl err \<Rightarrow> (Some err, s, disk)
      | Inr (p, hash) \<Rightarrow>
          (case map_of (Store_index s) (Record_CapsuleID p) of
             Some entry \<Rightarrow> (put_existing A io s disk entry p hash, s, disk)
           | None \<Rightarrow> put_line io s disk p))"
  by (simp add: jsonl_Put_def admit_def split: sum.splits)

lemma put_existing_readmit:
  "put_existing A io s disk entry p hash =
     (case readAt io disk entry of
        Inl err \<Rightarrow> Some err
      | Inr old \<Rightarrow>
          if Record_CapsuleID old \<noteq> Record_CapsuleID p then Some ErrOtherCapsule
          else readmit A (Store_trusted s) hash old)"
  by (simp add: put_existing_def readmit_def cong: sum.case_cong if_cong)

text \<open>Appending the line of a new admitted record extends the layout by it.\<close>

lemma layout_append:
  assumes "jsonl_layout A trusted ps (s, disk)" "admitted A trusted p"
    and "Record_CapsuleID p \<notin> Record_CapsuleID ` set ps"
  shows "jsonl_layout A trusted (ps @ [p])
    (s\<lparr>Store_index := AList.update (Record_CapsuleID p)
        \<lparr>Entry_offset = length (file_bytes (map record_line ps)), Entry_length = length (record_line p)\<rparr> (Store_index s)\<rparr>,
     Some (file_bytes (map record_line ps) @ record_line p @ [newline]))"
  using assms record_lines.peeked [OF assms(2)] record_lines.keyed [OF assms(2)]
  by (auto simp: jsonl_layout_def index_lines_append)

lemma put_line_outcome:
  assumes "jsonl_layout A trusted ps (s, disk)" "admitted A trusted p"
    and "Record_CapsuleID p \<notin> Record_CapsuleID ` set ps"
    and "write_clean io" "put_line io s disk p = (err, sd')"
  shows "err = None \<and> jsonl_layout A trusted (ps @ [p]) sd' \<or> err \<noteq> None \<and> io \<noteq> no_faults \<and> sd' = (s, disk)"
proof -
  have disk: "disk = Some (file_bytes (map record_line ps))" using assms(1) by (simp add: jsonl_layout_def)
  have put: "put_line io s disk p =
     (case Io_open io of
        Some err \<Rightarrow> (Some err, s, disk)
      | None \<Rightarrow>
          (case Io_seek io of
             Some err \<Rightarrow> (Some err, s, disk)
           | None \<Rightarrow>
               (case Io_write io of
                  Some (n, err) \<Rightarrow> (Some err, s, Some (file_bytes (map record_line ps) @ take n (record_line p @ [newline])))
                | None \<Rightarrow> (None,
                   s\<lparr>Store_index := AList.update (Record_CapsuleID p)
                       \<lparr>Entry_offset = length (file_bytes (map record_line ps)), Entry_length = length (record_line p)\<rparr>
                       (Store_index s)\<rparr>,
                   Some (file_bytes (map record_line ps) @ record_line p @ [newline])))))"
    using marshal_line [OF assms(2)] by (simp add: put_line_def os_open_def disk split: option.split)
  show ?thesis
  proof (cases "Io_open io = None \<and> Io_seek io = None \<and> Io_write io = None")
    case True
    with assms(5) put layout_append [OF assms(1-3)] show ?thesis by simp
  next
    case False
    then have "io \<noteq> no_faults" by (auto simp: no_faults_def)
    moreover have "err \<noteq> None \<and> sd' = (s, disk)"
      using assms(4,5) put False disk by (auto simp: write_clean_def split: option.splits)
    ultimately show ?thesis by simp
  qed
qed

lemma jsonl_put_outcome:
  assumes "jsonl_inv A trusted sd" "write_clean io" "jsonl_Put A io r sd = (err, sd')"
  shows "jsonl_inv A trusted sd' \<and>
    ((err, jsonl_holds sd') = spec_put A trusted stored r (jsonl_holds sd) \<or>
     err \<noteq> None \<and> io \<noteq> no_faults \<and> sd' = sd)"
proof -
  obtain s disk where sd: "sd = (s, disk)" by (cases sd)
  obtain ps where ps: "jsonl_layout A trusted ps sd" using assms(1) by (auto simp: jsonl_inv_def)
  then have trusted: "Store_trusted s = trusted" by (simp add: sd jsonl_layout_def)
  show ?thesis
  proof (cases "admit A trusted r")
    case (Inl err')
    with assms(1,3) show ?thesis by (simp add: sd jsonl_Put_admit trusted spec_put_def)
  next
    case (Inr ph)
    obtain p hash where ph: "ph = (p, hash)" by (cases ph)
    with Inr have admit: "admit A trusted r = Inr (p, hash)" by simp
    note p = admit_InrD [OF admit]
    show ?thesis
    proof (cases "map_of (Store_index s) (Record_CapsuleID p)")
      case (Some entry)
      have entry: "map_of (Store_index (fst sd)) (Record_CapsuleID p) = Some entry" using Some sd by simp
      obtain q where q: "Record_CapsuleID p = Record_CapsuleID q" "readAt no_faults disk entry = Inr (stored q)"
        "jsonl_holds sd (Record_CapsuleID p) = Some (stored q)"
        by (rule layout_read [OF ps entry]) (simp add: sd)
      have out: "(err, sd') = (put_existing A io s disk entry p hash, sd)"
        using assms(3) admit Some by (simp add: sd jsonl_Put_admit trusted)
      from readAt_other [OF q(2), of io] show ?thesis
      proof
        assume "readAt io disk entry = Inr (stored q)"
        with out q admit show ?thesis
          using assms(1) by (simp add: put_existing_readmit trusted spec_put_def)
      next
        assume "io \<noteq> no_faults \<and> (\<exists>err. readAt io disk entry = Inl err)"
        with out show ?thesis using assms(1) by (auto simp: put_existing_readmit)
      qed
    next
      case None
      then have new: "Record_CapsuleID p \<notin> Record_CapsuleID ` set ps"
        using layout_index [OF ps, of "Record_CapsuleID p"] sd by simp
      have "put_line io s disk p = (err, sd')"
        using assms(3) admit None by (simp add: sd jsonl_Put_admit trusted)
      from put_line_outcome [OF ps [unfolded sd] p(1) new assms(2) this] show ?thesis
      proof
        assume ok: "err = None \<and> jsonl_layout A trusted (ps @ [p]) sd'"
        have "jsonl_holds sd' = (jsonl_holds sd)(Record_CapsuleID p \<mapsto> stored p)"
          using ok new layout_holds_Some [OF ps] layout_holds_None [OF ps]
          by (intro holds_ext [of A trusted "ps @ [p]"]) (auto simp: image_iff)
        with ok admit layout_holds_None [OF ps new] show ?thesis by (auto simp: jsonl_inv_def spec_put_def)
      qed (use assms(1) sd in simp)
    qed
  qed
qed

lemma jsonl_get_outcome:
  assumes "jsonl_inv A trusted sd"
  shows "jsonl_Get A io cid sd = spec_get A trusted cid (jsonl_holds sd) \<or>
    io \<noteq> no_faults \<and> (\<exists>err. jsonl_Get A io cid sd = Inl err)"
proof -
  obtain s disk where sd: "sd = (s, disk)" by (cases sd)
  obtain ps where ps: "jsonl_layout A trusted ps sd" using assms(1) by (auto simp: jsonl_inv_def)
  then have trusted: "Store_trusted s = trusted" by (simp add: sd jsonl_layout_def)
  show ?thesis
  proof (cases "hexDigestPattern cid \<and> map_of (Store_index s) cid \<noteq> None")
    case True
    then obtain entry where entry: "map_of (Store_index s) cid = Some entry" by blast
    have fst: "map_of (Store_index (fst sd)) cid = Some entry" using entry sd by simp
    obtain q where q: "cid = Record_CapsuleID q" "readAt no_faults disk entry = Inr (stored q)"
      "jsonl_holds sd cid = Some (stored q)"
      by (rule layout_read [OF ps fst]) (simp add: sd)
    have get: "jsonl_Get A io cid sd = (case readAt io disk entry of
        Inl err \<Rightarrow> Inl err
      | Inr record \<Rightarrow>
          if Record_CapsuleID record \<noteq> cid then Inl ErrOtherCapsule
          else (case Verify A record trusted of Inl err \<Rightarrow> Inl err | Inr _ \<Rightarrow> Inr record))"
      using True entry by (simp add: jsonl_Get_def sd trusted cong: sum.case_cong if_cong)
    from readAt_other [OF q(2), of io] show ?thesis
    proof
      assume "readAt io disk entry = Inr (stored q)"
      with get True q(1,3) show ?thesis by (simp add: spec_get_def)
    qed (use get in auto)
  next
    case False
    then have "hexDigestPattern cid \<Longrightarrow> jsonl_holds sd cid = None" by (simp add: jsonl_holds_def sd)
    with False show ?thesis by (auto simp: jsonl_Get_def sd spec_get_def)
  qed
qed

section \<open>Purging\<close>

text \<open>Until its rename a rewrite touches nothing, and a rewrite that succeeds met no fault.\<close>

lemma rewrite_error: "rewrite io target q sd = (Some err, sd') \<Longrightarrow> sd' = sd"
  by (cases sd) (auto simp: rewrite_def split: sum.splits option.splits prod.splits)

lemma rewrite_None:
  assumes "rewrite io target q (s, disk) = (None, sd')"
  obtains content ls out idx where "disk = Some content" "scan_lines content = (ls, None)"
    "rewrite_lines target q [] [] False ls = Inr (out, idx, True)" "sd' = (s\<lparr>Store_index := idx\<rparr>, Some out)"
proof -
  from assms obtain content where opened: "os_open io disk = Inr content"
    by (auto simp: rewrite_def split: sum.splits)
  obtain ls scan_err where scan: "scan_file io content = (ls, scan_err)" by (cases "scan_file io content")
  from assms opened scan obtain out idx found where
    copy: "rewrite_lines target q [] [] False ls = Inr (out, idx, found)"
    and rest: "scan_err = None" "found" "sd' = (s\<lparr>Store_index := idx\<rparr>, Some out)"
    by (auto simp: rewrite_def split: sum.splits option.splits if_splits)
  have "disk = Some content" using opened by (auto simp: os_open_def split: option.splits)
  moreover have "scan_lines content = (ls, None)"
    using scan rest(1) by (auto simp: scan_file_def split: option.splits prod.splits)
  ultimately show thesis using copy rest by (intro that) simp_all
qed

lemma rewrite_faultless:
  assumes "rewrite io target q sd = (None, sd')"
  shows "rewrite no_faults target q sd = (None, sd')"
proof -
  obtain s disk where sd: "sd = (s, disk)" by (cases sd)
  from assms [unfolded sd] obtain content ls out idx where "disk = Some content" "scan_lines content = (ls, None)"
    "rewrite_lines target q [] [] False ls = Inr (out, idx, True)" "sd' = (s\<lparr>Store_index := idx\<rparr>, Some out)"
    by (rule rewrite_None)
  then show ?thesis by (simp add: sd rewrite_def os_open_def scan_file_def no_faults_def)
qed

definition purge_at :: "string \<Rightarrow> Record list \<Rightarrow> Record list" where
  "purge_at cid ps = map (\<lambda>p. if Record_CapsuleID p = cid then purge_record p else p) ps"

lemma purge_at_distinct:
  assumes "distinct (map Record_CapsuleID ps)" "q \<in> set ps" "Record_CapsuleID q = cid"
  shows "purge_at cid ps = map (\<lambda>p. if Record_CapsuleID p = cid then purge_record q else p) ps"
  unfolding purge_at_def using assms by (intro map_cong) (auto dest: eq_key_imp_eq_value simp: distinct_map inj_on_def)

lemma purge_at_ids [simp]: "map Record_CapsuleID (purge_at cid ps) = map Record_CapsuleID ps"
  by (simp add: purge_at_def comp_def)

lemma purge_at_image [simp]: "Record_CapsuleID ` set (purge_at cid ps) = Record_CapsuleID ` set ps"
  using purge_at_ids by (metis list.set_map)

lemma purge_at_member:
  assumes "p \<in> set (purge_at cid ps)"
  obtains p0 where "p0 \<in> set ps" "p = (if Record_CapsuleID p0 = cid then purge_record p0 else p0)"
  using assms by (auto simp: purge_at_def)

lemma rewrite_layout:
  assumes "jsonl_layout A trusted ps (s, disk)" "q \<in> set ps" "Record_CapsuleID q = cid"
  obtains sd' where "rewrite no_faults cid (purge_record (stored q)) (s, disk) = (None, sd')"
    "jsonl_layout A trusted (purge_at cid ps) sd'"
proof -
  have good: "\<forall>p \<in> set ps. admitted A trusted p" "admitted A trusted (purge_record q)"
    using assms admitted_purge by (auto simp: jsonl_layout_def)
  have data: "marshalRecord (purge_record (stored q)) = Inr (record_line (purge_record q))"
    unfolding stored_purge using marshal_stored [OF good(2)] .
  have copy: "rewrite_lines cid (purge_record (stored q)) [] [] False (map record_line ps) =
      Inr (file_bytes (map record_line (purge_at cid ps)), index_lines 0 [] (map record_line (purge_at cid ps)), True)"
    using record_lines.rewrite_good [OF good(1,2) _ data, of cid "[]" "[]" False] assms
      purge_at_distinct [of ps q cid]
    by (simp add: Let_def jsonl_layout_def image_iff) blast
  let ?sd = "(s\<lparr>Store_index := index_lines 0 [] (map record_line (purge_at cid ps))\<rparr>,
    Some (file_bytes (map record_line (purge_at cid ps))))"
  have "rewrite no_faults cid (purge_record (stored q)) (s, disk) = (None, ?sd)"
    using assms(1) copy record_lines.scan_good [OF good(1)]
    by (simp add: rewrite_def os_open_def scan_file_def no_faults_def jsonl_layout_def)
  moreover have "jsonl_layout A trusted (purge_at cid ps) ?sd"
    using assms(1) good(1) admitted_purge by (auto simp: jsonl_layout_def elim!: purge_at_member)
  ultimately show thesis by (rule that)
qed

lemma jsonl_purge_outcome:
  assumes "jsonl_inv A trusted sd" "jsonl_Purge io cid sd = (err, sd')"
  shows "jsonl_inv A trusted sd' \<and>
    ((err, jsonl_holds sd') = spec_purge cid (jsonl_holds sd) \<or> err \<noteq> None \<and> io \<noteq> no_faults \<and> sd' = sd)"
proof -
  obtain s disk where sd: "sd = (s, disk)" by (cases sd)
  obtain ps where ps: "jsonl_layout A trusted ps sd" using assms(1) by (auto simp: jsonl_inv_def)
  show ?thesis
  proof (cases "hexDigestPattern cid \<and> map_of (Store_index s) cid \<noteq> None")
    case True
    then obtain entry where entry: "map_of (Store_index s) cid = Some entry" by blast
    have fst: "map_of (Store_index (fst sd)) cid = Some entry" using entry sd by simp
    obtain q where q: "q \<in> set ps" "cid = Record_CapsuleID q" "readAt no_faults disk entry = Inr (stored q)"
      "jsonl_holds sd cid = Some (stored q)"
      by (rule layout_read [OF ps fst]) (simp add: sd)
    from readAt_other [OF q(3), of io] show ?thesis
    proof
      assume "readAt io disk entry = Inr (stored q)"
      with assms(2) True entry q(2) have run: "rewrite io cid (purge_record (stored q)) sd = (err, sd')"
        by (simp add: jsonl_Purge_def sd)
      obtain td where td: "rewrite no_faults cid (purge_record (stored q)) sd = (None, td)"
        "jsonl_layout A trusted (purge_at cid ps) td"
        using rewrite_layout [OF ps [unfolded sd] q(1) q(2) [symmetric]] sd by metis
      show ?thesis
      proof (cases err)
        case None
        with run td(1) have "sd' = td" using rewrite_faultless by fastforce
        moreover have "jsonl_holds td = (jsonl_holds sd)(cid \<mapsto> purge_record (stored q))"
        proof (rule holds_ext [OF td(2)])
          fix p assume "p \<in> set (purge_at cid ps)"
          then obtain p0 where p0: "p0 \<in> set ps" "p = (if Record_CapsuleID p0 = cid then purge_record p0 else p0)"
            by (rule purge_at_member)
          have "p0 = q" if "Record_CapsuleID p0 = cid"
            using ps p0(1) q(1,2) that by (auto simp: jsonl_layout_def distinct_map inj_on_def)
          then show "((jsonl_holds sd)(cid \<mapsto> purge_record (stored q))) (Record_CapsuleID p) = Some (stored p)"
            using p0(2) q(2) layout_holds_Some [OF ps p0(1)] by (cases "Record_CapsuleID p0 = cid") (simp_all add: stored_purge)
        qed (use layout_holds_None [OF ps] q in auto)
        ultimately show ?thesis
          using None td(2) True q(4) by (auto simp: jsonl_inv_def spec_purge_def)
      next
        case (Some e)
        with run td(1) have "io \<noteq> no_faults" by auto
        moreover have "sd' = sd" using run Some rewrite_error by metis
        ultimately show ?thesis using Some assms(1) by simp
      qed
    next
      assume "io \<noteq> no_faults \<and> (\<exists>err. readAt io disk entry = Inl err)"
      with assms True entry show ?thesis by (auto simp: jsonl_Purge_def sd)
    qed
  next
    case False
    then have "hexDigestPattern cid \<Longrightarrow> jsonl_holds sd cid = None" by (simp add: jsonl_holds_def sd)
    with False assms show ?thesis by (auto simp: jsonl_Purge_def sd spec_purge_def)
  qed
qed

interpretation jsonl: live_store "jsonl_Put A" "jsonl_Get A" jsonl_Purge jsonl_holds "jsonl_inv A trusted"
  write_clean stored A trusted "\<lambda>io. io = no_faults" for A trusted
proof unfold_locales
  fix sd sd' :: "Store \<times> disk" and io err
  assume inv: "jsonl_inv A trusted sd"
  show "write_clean io \<Longrightarrow> jsonl_Put A io r sd = (err, sd') \<Longrightarrow>
      jsonl_inv A trusted sd' \<and> ((err, jsonl_holds sd') = spec_put A trusted stored r (jsonl_holds sd) \<or>
        err \<noteq> None \<and> jsonl_holds sd' = jsonl_holds sd)" for r
    using jsonl_put_outcome [OF inv] by blast
  show "jsonl_Get A io cid sd = Inr r \<Longrightarrow> spec_get A trusted cid (jsonl_holds sd) = Inr r" for cid r
    using jsonl_get_outcome [OF inv, of io cid] by auto
  show "jsonl_Purge io cid sd = (err, sd') \<Longrightarrow> jsonl_inv A trusted sd' \<and>
      ((err, jsonl_holds sd') = spec_purge cid (jsonl_holds sd) \<or> err \<noteq> None \<and> jsonl_holds sd' = jsonl_holds sd)" for cid
    using jsonl_purge_outcome [OF inv] by blast
  show "io = no_faults \<Longrightarrow> jsonl_Put A io r sd = (err, sd') \<Longrightarrow>
      (err, jsonl_holds sd') = spec_put A trusted stored r (jsonl_holds sd)" for r
    using jsonl_put_outcome [OF inv, of io r err sd'] by (auto simp: write_clean_def no_faults_def)
  show "io = no_faults \<Longrightarrow> jsonl_Get A io cid sd = spec_get A trusted cid (jsonl_holds sd)" for cid
    using jsonl_get_outcome [OF inv, of io cid] by auto
  show "io = no_faults \<Longrightarrow> jsonl_Purge io cid sd = (err, sd') \<Longrightarrow>
      (err, jsonl_holds sd') = spec_purge cid (jsonl_holds sd)" for cid
    using jsonl_purge_outcome [OF inv] by blast
next
  show "StorageChecksum (stored p) = StorageChecksum p" for p by simp
  show "io = no_faults \<Longrightarrow> write_clean io" for io by (simp add: write_clean_def no_faults_def)
qed

section \<open>Purge on any file\<close>

lemma jsonl_Purge_error: "jsonl_Purge io cid sd = (Some err, sd') \<Longrightarrow> sd' = sd"
  by (cases sd) (auto simp: jsonl_Purge_def split: if_splits option.splits sum.splits dest: rewrite_error)

text \<open>A purge that succeeds read its target and rewrote the file.\<close>

lemma jsonl_Purge_None:
  assumes "jsonl_Purge io cid (s, disk) = (None, sd')"
  obtains entry target where "hexDigestPattern cid" "map_of (Store_index s) cid = Some entry"
    "readAt io disk entry = Inr target" "Record_CapsuleID target = cid"
    "rewrite io cid (purge_record target) (s, disk) = (None, sd')"
  using assms by (auto simp: jsonl_Purge_def split: if_splits option.splits sum.splits)

lemma jsonl_Purge_faultless:
  assumes "jsonl_Purge io cid sd = (None, sd')"
  shows "jsonl_Purge no_faults cid sd = (None, sd')"
proof -
  obtain s disk where sd: "sd = (s, disk)" by (cases sd)
  from assms [unfolded sd] obtain entry target where t: "hexDigestPattern cid" "map_of (Store_index s) cid = Some entry"
    "readAt io disk entry = Inr target" "Record_CapsuleID target = cid"
    "rewrite io cid (purge_record target) (s, disk) = (None, sd')" by (rule jsonl_Purge_None)
  with readAt_faultless [OF t(3)] rewrite_faultless [OF t(5)] show ?thesis by (simp add: jsonl_Purge_def sd)
qed

section \<open>Opening a store\<close>

definition open_ok :: "string \<Rightarrow> bytes list \<Rightarrow> bool" where
  "open_ok namespace trusted \<longleftrightarrow> namePattern namespace \<and> trusted \<noteq> [] \<and> (\<forall>k \<in> set trusted. length k = 32)"

lemma jsonl_New_Some:
  "open_ok namespace trusted \<Longrightarrow> jsonl_New no_faults path namespace trusted (Some data) =
     (case scan_lines data of
        (ls, None) \<Rightarrow> Inr \<lparr>Store_path = path, Store_namespace = namespace, Store_trusted = trusted,
            Store_index = index_lines 0 [] ls\<rparr>
      | (ls, Some err) \<Rightarrow> Inl err)"
  by (auto simp: open_ok_def jsonl_New_def os_open_def scanIndex_def scan_file_def no_faults_def list_ex_iff
      split: prod.split option.split)

text \<open>Opening the file of a store again yields the same index.\<close>

lemma reopen_layout:
  assumes "jsonl_layout A trusted ps (s, disk)" "open_ok (Store_namespace s) trusted"
  shows "jsonl_New no_faults (Store_path s) (Store_namespace s) trusted disk = Inr s"
  using assms jsonl_New_Some [OF assms(2)] record_lines.scan_good [of ps A trusted]
  by (cases s) (auto simp: jsonl_layout_def)

text \<open>A store that was just created holds nothing.\<close>

lemma created_layout:
  assumes "open_ok namespace trusted"
  obtains s where "jsonl_New no_faults path namespace trusted None = Inr s"
    "jsonl_Init no_faults None = (None, Some [])" "jsonl_layout A trusted [] (s, Some [])"
  using assms
  by (auto simp: open_ok_def jsonl_New_def os_open_def Let_def jsonl_Init_def no_faults_def list_ex_iff jsonl_layout_def)

section \<open>Damaged lines\<close>

text \<open>
  A line that yields an identifier before it breaks off is skipped when the file is opened, and
  indexed by the rewrite of a purge.
\<close>

lemma jsonl_damaged_line:
  assumes p: "admitted A trusted p" and l: "clean_line l" "peek l = (cid, False)" "unmarshalRecord l = None"
    and cid: "hexDigestPattern cid" "cid \<noteq> Record_CapsuleID p" and "open_ok namespace trusted"
  obtains s sd where
    "jsonl_New no_faults path namespace trusted (Some (file_bytes [record_line p, l])) = Inr s"
    "jsonl_Get A no_faults cid (s, Some (file_bytes [record_line p, l])) = Inl (Err ErrNotFound)"
    "jsonl_Purge no_faults (Record_CapsuleID p) (s, Some (file_bytes [record_line p, l])) = (None, sd)"
    "jsonl_Get A no_faults cid sd = Inl (Wrapf ''%w: parse failed: %v'' [] (Err ErrCorrupt))"
proof -
  let ?pid = "Record_CapsuleID p" and ?data = "file_bytes [record_line p, l]"
  let ?line = "record_line (purge_record p)" and ?q = "purge_record (stored p)"
  define s where "s = \<lparr>Store_path = path, Store_namespace = namespace, Store_trusted = trusted,
    Store_index = [(?pid, \<lparr>Entry_offset = 0, Entry_length = length (record_line p)\<rparr>)]\<rparr>"
  have scan: "scan_lines ?data = ([record_line p, l], None)"
    by (rule scan_file_bytes) (use l(1) record_lines.good_clean [OF p] in auto)
  have peeked: "peek (record_line p) = (?pid, True)" by (rule record_lines.peeked [OF p])
  have pid: "hexDigestPattern ?pid" "?pid \<noteq> ''''"
    using admitted_key [OF p] by (auto simp: hexDigestPattern_def)
  have "jsonl_New no_faults path namespace trusted (Some ?data) = Inr s"
    unfolding jsonl_New_Some [OF assms(7)] scan using peeked l(2) pid(2) by (simp add: s_def)
  moreover have "jsonl_Get A no_faults cid (s, Some ?data) = Inl (Err ErrNotFound)"
    using cid by (simp add: jsonl_Get_def s_def)
  moreover have read: "readAt no_faults (Some ?data) \<lparr>Entry_offset = 0, Entry_length = length (record_line p)\<rparr> = Inr (stored p)"
    using unmarshal_line [OF p] by (simp add: readAt_def os_open_def no_faults_def)
  have marshal: "marshalRecord ?q = Inr ?line"
    using marshal_stored [OF admitted_purge [OF p]] by (simp add: stored_purge)
  let ?index = "[(?pid, \<lparr>Entry_offset = 0, Entry_length = length ?line\<rparr>),
    (cid, \<lparr>Entry_offset = Suc (length ?line), Entry_length = length l\<rparr>)]"
  let ?sd = "(s\<lparr>Store_index := ?index\<rparr>, Some (file_bytes [?line, l]))"
  have "cid \<noteq> ''''" using cid(1) by (auto simp: hexDigestPattern_def)
  then have "rewrite_lines ?pid ?q [] [] False [record_line p, l] = Inr (file_bytes [?line, l], ?index, True)"
    using peeked l(2) marshal cid(2) pid(2) by (simp add: Let_def)
  then have "rewrite no_faults ?pid ?q (s, Some ?data) = (None, ?sd)"
    using scan by (simp add: rewrite_def os_open_def scan_file_def no_faults_def)
  then have "jsonl_Purge no_faults ?pid (s, Some ?data) = (None, ?sd)"
    using pid(1) read by (simp add: jsonl_Purge_def s_def)
  moreover have "jsonl_Get A no_faults cid ?sd = Inl (Wrapf ''%w: parse failed: %v'' [] (Err ErrCorrupt))"
    using cid l(3) by (simp add: jsonl_Get_def readAt_def os_open_def no_faults_def)
  ultimately show thesis by (rule that)
qed

section \<open>Torn lines\<close>

text \<open>
  A brace before an object is no member name: a line that begins with the first byte of a
  torn one yields no identifier.
\<close>

lemma peek_torn: "peek (CHR ''{'' # record_line p) = ('''', False)"
  by (simp add: peek_def v2_fuel_def json_space_def record_line_def record_json_def v2_name_def)

text \<open>
  A first \<open>Put\<close> writes one byte and fails, the second succeeds: the store has the record, its
  file opened anew does not.
\<close>

lemma torn_put_lost:
  assumes "jsonl_layout A trusted [] (s, disk)" "open_ok (Store_namespace s) trusted"
    and "admit A trusted r = Inr (p, hash)"
    and "io = no_faults\<lparr>Io_write := Some (1, err)\<rparr>"
  obtains sd sd' s'' where "jsonl_Put A io r (s, disk) = (Some err, sd)"
    "jsonl_Put A no_faults r sd = (None, sd')" "jsonl_holds sd' (Record_CapsuleID r) = Some (stored p)"
    "jsonl_New no_faults (Store_path s) (Store_namespace s) trusted (snd sd') = Inr s''"
    "jsonl_Get A no_faults (Record_CapsuleID r) (s'', snd sd') = Inl (Err ErrNotFound)"
proof -
  note p = admit_InrD [OF assms(3)]
  have s: "Store_trusted s = trusted" "Store_index s = []" "disk = Some []"
    using assms(1) by (simp_all add: jsonl_layout_def)
  have data: "marshalRecord p = Inr (record_line p)" using marshal_line [OF p(1)] .
  obtain t where line: "record_line p = CHR ''{'' # t" by (simp add: record_line_def record_json_def)
  have first: "jsonl_Put A io r (s, disk) = (Some err, s, Some ''{'')"
    using assms(3,4) s data by (simp add: jsonl_Put_admit put_line_def os_open_def no_faults_def line)
  let ?e = "\<lparr>Entry_offset = 1, Entry_length = length (record_line p)\<rparr>"
  let ?s = "s\<lparr>Store_index := [(Record_CapsuleID p, ?e)]\<rparr>" and ?f = "Some (CHR ''{'' # record_line p @ [newline])"
  have second: "jsonl_Put A no_faults r (s, Some ''{'') = (None, ?s, ?f)"
    using assms(3) s data by (simp add: jsonl_Put_admit put_line_def os_open_def no_faults_def)
  have holds: "jsonl_holds (?s, ?f) (Record_CapsuleID r) = Some (stored p)"
    using p(4) unmarshal_line [OF p(1)]
    by (simp add: jsonl_holds_def readAt_def os_open_def no_faults_def)
  have "clean_line (record_line p)" using record_lines.good_clean [OF p(1)] .
  moreover have "length (CHR ''{'' # record_line p) < max_line"
    using p(1) admitted_line_length [of A trusted p] by (simp add: admitted_def record_line_def)
  ultimately have "clean_line (CHR ''{'' # record_line p)"
    by (auto simp: clean_line_def newline_def carriage_return_def)
  then have "scan_lines (CHR ''{'' # record_line p @ [newline]) = ([CHR ''{'' # record_line p], None)"
    using scan_line [of "CHR ''{'' # record_line p" "[]"] by simp
  then have "jsonl_New no_faults (Store_path s) (Store_namespace s) trusted ?f = Inr (s\<lparr>Store_index := []\<rparr>)"
    using jsonl_New_Some [OF assms(2)] s(1) by (cases s) (simp add: peek_torn)
  moreover have "jsonl_Get A no_faults (Record_CapsuleID r) (s\<lparr>Store_index := []\<rparr>, ?f) = Inl (Err ErrNotFound)"
    using p(4,5) by (simp add: jsonl_Get_def)
  ultimately show thesis using first second holds by (intro that [of "(s, Some ''{'')" "(?s, ?f)"]) simp_all
qed

end
