(* ===== verification/SqlStore.thy ===== *)
theory SqlStore
  imports StoreSpec
begin

text \<open>
  The SQL stores (\<open>artifact/sqlite\<close>, \<open>artifact/mysql\<close>). The two packages run the same
  transactions on the same two tables; what differs is a dialect: the numbers of constraint
  errors, which of them count as a duplicate, and what the driver makes of an empty blob.
  The tables are part of the program (\<open>schema.sql\<close>), with their keys and checks; the
  engine and the driver are not, so every call takes its failure from the environment, and
  transactions are serial. The definitions here are the SQLite store; \<open>MysqlStore\<close> has the
  operations of the other package on the same tables.
\<close>

section \<open>Tables\<close>

record capsule_row =
  Row_capsule :: bytes
  Row_envelope :: bytes
  Row_record_sha :: string

text \<open>The two time stamps matter through \<open>purged_at IS NULL\<close> only.\<close>

record artifact_row =
  Row_digest_field :: string
  Row_content :: "bytes option"
  Row_content_sha :: string
  Row_state :: string
  Row_purged :: bool

record sql_db =
  Db_capsules :: "((string \<times> string) \<times> capsule_row) list option"
  Db_artifacts :: "((string \<times> string \<times> string) \<times> artifact_row) list option"

text \<open>The check constraints of the artifact table.\<close>

definition row_check :: "artifact_row \<Rightarrow> bool" where
  "row_check row \<longleftrightarrow>
     Row_state row = ''present'' \<and> Row_content row \<noteq> None \<and> length (Row_content_sha row) = 64 \<and> \<not> Row_purged row \<or>
     Row_state row = ''purged'' \<and> Row_content row = None \<and> length (Row_content_sha row) = 64 \<and> Row_purged row \<or>
     Row_state row = ''never_retained'' \<and> Row_content row = None \<and> Row_content_sha row = '''' \<and> \<not> Row_purged row"

text \<open>
  A dialect. \<open>Driver_blob\<close> is what the driver reads back from a stored blob; that it is the
  blob itself is relied on where the blob is not empty.
\<close>

record sql_dialect =
  Dup_error :: go_error
  Null_error :: go_error
  Check_error :: go_error
  Parent_error :: go_error
  Table_error :: go_error
  Is_duplicate :: "go_error \<Rightarrow> bool"
  Driver_blob :: "bytes \<Rightarrow> bytes option"

text \<open>\<open>errors.As\<close> against the error type of a driver, and its number.\<close>

fun driver_number :: "go_error \<Rightarrow> nat option" where
  "driver_number (DriverError n _) = Some n"
| "driver_number (Wrapf f as e) = driver_number e"
| "driver_number (Joined d e) = (case driver_number d of Some n \<Rightarrow> Some n | None \<Rightarrow> driver_number e)"
| "driver_number _ = None"

text \<open>\<open>retry.go\<close> of the SQLite package: any code whose primary part is \<open>SQLITE_CONSTRAINT\<close>.\<close>

definition sqlite_constraint :: "go_error \<Rightarrow> bool" where
  "sqlite_constraint err = (case driver_number err of Some n \<Rightarrow> n mod 256 = 19 | None \<Rightarrow> False)"

definition mysql_duplicate :: "go_error \<Rightarrow> bool" where
  "mysql_duplicate err = (driver_number err = Some 1062)"

definition sqlite_dialect :: "(bytes \<Rightarrow> bytes option) \<Rightarrow> sql_dialect" where
  "sqlite_dialect blob =
     \<lparr>Dup_error = DriverError 1555 ''UNIQUE constraint failed'', Null_error = DriverError 1299 ''NOT NULL constraint failed'',
      Check_error = DriverError 275 ''CHECK constraint failed'', Parent_error = DriverError 787 ''FOREIGN KEY constraint failed'',
      Table_error = DriverError 1 ''no such table'', Is_duplicate = sqlite_constraint, Driver_blob = blob\<rparr>"

definition mysql_dialect :: "(bytes \<Rightarrow> bytes option) \<Rightarrow> sql_dialect" where
  "mysql_dialect blob =
     \<lparr>Dup_error = DriverError 1062 ''Duplicate entry'', Null_error = DriverError 1048 ''Column cannot be null'',
      Check_error = DriverError 3819 ''Check constraint is violated'',
      Parent_error = DriverError 1452 ''Cannot add or update a child row'',
      Table_error = DriverError 1146 ''Table does not exist'', Is_duplicate = mysql_duplicate, Driver_blob = blob\<rparr>"

section \<open>Statements\<close>

text \<open>A nil slice is bound as NULL, and \<open>Prepare\<close> turns an empty slice into a nil one.\<close>

definition insert_capsule ::
  "sql_dialect \<Rightarrow> string \<times> string \<Rightarrow> capsule_row \<Rightarrow> sql_db \<Rightarrow> sql_db res" where
  "insert_capsule D key row db =
     (case Db_capsules db of
        None \<Rightarrow> Inl (Table_error D)
      | Some rows \<Rightarrow>
          if Row_capsule row = '''' \<or> Row_envelope row = '''' then Inl (Null_error D)
          else if has_key rows key then Inl (Dup_error D)
          else Inr (db\<lparr>Db_capsules := Some (rows @ [(key, row)])\<rparr>))"

definition insert_artifact ::
  "sql_dialect \<Rightarrow> string \<times> string \<times> string \<Rightarrow> artifact_row \<Rightarrow> sql_db \<Rightarrow> sql_db res" where
  "insert_artifact D key row db =
     (case (Db_artifacts db, Db_capsules db) of
        (Some rows, Some parents) \<Rightarrow>
          if has_key rows key then Inl (Dup_error D)
          else if \<not> row_check row then Inl (Check_error D)
          else if \<not> has_key parents (fst key, fst (snd key)) then Inl (Parent_error D)
          else Inr (db\<lparr>Db_artifacts := Some (rows @ [(key, row)])\<rparr>)
      | _ \<Rightarrow> Inl (Table_error D))"

definition of_capsule :: "string \<times> string \<Rightarrow> (string \<times> string \<times> string) \<times> artifact_row \<Rightarrow> bool" where
  "of_capsule key row \<longleftrightarrow> (fst (fst row), fst (snd (fst row))) = key"

text \<open>
  \<open>UPDATE ... WHERE namespace=? AND capsule_id=? AND retention_state='present'\<close>. The engine
  checks the constraints of the rows it updates, and of no others.
\<close>

definition purge_row :: "artifact_row \<Rightarrow> artifact_row" where
  "purge_row row =
     (if Row_state row = ''present''
      then row\<lparr>Row_content := None, Row_state := ''purged'', Row_purged := True\<rparr> else row)"

definition update_purged :: "sql_dialect \<Rightarrow> string \<times> string \<Rightarrow> sql_db \<Rightarrow> sql_db res" where
  "update_purged D key db =
     (case Db_artifacts db of
        None \<Rightarrow> Inl (Table_error D)
      | Some rows \<Rightarrow>
          (let rows' = map (\<lambda>row. if of_capsule key row then (fst row, purge_row (snd row)) else row) rows in
           if list_ex (\<lambda>row. of_capsule key row \<and> Row_state (snd row) = ''present'' \<and> \<not> row_check (purge_row (snd row))) rows
           then Inl (Check_error D)
           else Inr (db\<lparr>Db_artifacts := Some rows'\<rparr>)))"

text \<open>\<open>SELECT ... ORDER BY name\<close>, scanned into artifacts.\<close>

definition scan_artifact :: "sql_dialect \<Rightarrow> (string \<times> string \<times> string) \<times> artifact_row \<Rightarrow> Artifact" where
  "scan_artifact D row =
     \<lparr>Artifact_Name = snd (snd (fst row)), Artifact_Binding = Row_digest_field (snd row),
      Artifact_Content = (case Row_content (snd row) of None \<Rightarrow> None | Some c \<Rightarrow> Driver_blob D c),
      Artifact_State = Row_state (snd row), Artifact_ContentSHA256 = Row_content_sha (snd row)\<rparr>"

definition select_artifacts ::
  "sql_dialect \<Rightarrow> string \<times> string \<Rightarrow> ((string \<times> string \<times> string) \<times> artifact_row) list \<Rightarrow> Artifact list" where
  "select_artifacts D key rows = sort_key Artifact_Name (map (scan_artifact D) (filter (of_capsule key) rows))"

section \<open>Environments\<close>

datatype sql_call =
    BeginTx | InsertCapsule | InsertArtifact nat | SelectCapsule | SelectArtifacts | ScanRows | CloseRows
  | LockCapsule | LockArtifacts \<comment> \<open>the two queries with \<open>FOR UPDATE\<close>\<close>
  | UpdateArtifacts | Commit | Rollback | CreateTable nat

text \<open>Which calls fail, and whether a commit that reports an error took effect all the same.\<close>

record sql_env =
  Call_fault :: "sql_call \<Rightarrow> go_error option"
  Commit_applied :: bool

definition no_sql_faults :: sql_env where
  "no_sql_faults = \<lparr>Call_fault = (\<lambda>_. None), Commit_applied = False\<rparr>"

text \<open>\<open>errors.Join\<close>; with one error it is written as that error.\<close>

definition join_error :: "go_error \<Rightarrow> go_error option \<Rightarrow> go_error" where
  "join_error e f = (case f of None \<Rightarrow> e | Some g \<Rightarrow> Joined e g)"

definition call :: "sql_env \<Rightarrow> sql_call \<Rightarrow> 'a res \<Rightarrow> 'a res" where
  "call env c r = (case Call_fault env c of Some err \<Rightarrow> Inl err | None \<Rightarrow> r)"

section \<open>The store\<close>

record sql_store =
  Sql_namespace :: string
  Sql_trusted :: "bytes list"

definition sql_New :: "bool \<Rightarrow> string \<Rightarrow> bytes list \<Rightarrow> sql_store res" where
  "sql_New db_is_nil namespace trusted =
     (if db_is_nil \<or> \<not> namePattern namespace \<or> trusted = [] then Inl (Err ErrInvalid)
      else if list_ex (\<lambda>k. length k \<noteq> 32) trusted then Inl (Wrapf ''%w: public key size'' [] (Err ErrInvalid))
      else Inr \<lparr>Sql_namespace = namespace, Sql_trusted = trusted\<rparr>)"

definition sql_Namespace :: "sql_store \<Rightarrow> string" where
  "sql_Namespace st = Sql_namespace st"

text \<open>\<open>Init\<close>: two \<open>CREATE TABLE IF NOT EXISTS\<close> statements, each on its own.\<close>

definition create :: "'a list option \<Rightarrow> 'a list option" where
  "create t = (case t of None \<Rightarrow> Some [] | Some rows \<Rightarrow> Some rows)"

definition sql_Init :: "sql_env \<Rightarrow> sql_db \<Rightarrow> go_error option \<times> sql_db" where
  "sql_Init env db =
     (case Call_fault env (CreateTable 0) of
        Some err \<Rightarrow> (Some (Wrapf ''initialize artifact store: %w'' [] err), db)
      | None \<Rightarrow>
          (let db1 = db\<lparr>Db_capsules := create (Db_capsules db)\<rparr> in
           case Call_fault env (CreateTable 1) of
             Some err \<Rightarrow> (Some (Wrapf ''initialize artifact store: %w'' [] err), db1)
           | None \<Rightarrow> (None, db1\<lparr>Db_artifacts := create (Db_artifacts db1)\<rparr>)))"

text \<open>\<open>read\<close>, in two parts: the rows, and the checks on the record they make.\<close>

definition read_rows :: "sql_dialect \<Rightarrow> sql_store \<Rightarrow> sql_env \<Rightarrow> string \<Rightarrow> sql_db \<Rightarrow> (Record \<times> string) res" where
  "read_rows D st env cid db =
     (case call env SelectCapsule (case Db_capsules db of None \<Rightarrow> Inl (Table_error D) | Some rows \<Rightarrow> Inr rows) of
        Inl err \<Rightarrow> Inl err
      | Inr rows \<Rightarrow>
          (case map_of rows (Sql_namespace st, cid) of
             None \<Rightarrow> Inl (Err ErrNotFound)
           | Some row \<Rightarrow>
               (case call env SelectArtifacts
                       (case Db_artifacts db of None \<Rightarrow> Inl (Table_error D) | Some rows \<Rightarrow> Inr rows) of
                  Inl err \<Rightarrow> Inl err
                | Inr arts \<Rightarrow>
                    Inr (\<lparr>Record_CapsuleID = cid, Record_Capsule = Row_capsule row,
                          Record_ProducerEnvelope = Row_envelope row,
                          Record_Artifacts = select_artifacts D (Sql_namespace st, cid) arts\<rparr>,
                         Row_record_sha row))))"

definition check_read :: "aac \<Rightarrow> sql_store \<Rightarrow> Record \<Rightarrow> string \<Rightarrow> Record res" where
  "check_read A st record expected =
     (case StorageChecksum record of
        Inl err \<Rightarrow> Inl err
      | Inr actual \<Rightarrow>
          if expected \<noteq> actual then Inl (Err ErrCorrupt)
          else (case Verify A record (Sql_trusted st) of Inl err \<Rightarrow> Inl err | Inr _ \<Rightarrow> Inr record))"

definition sql_read :: "aac \<Rightarrow> sql_dialect \<Rightarrow> sql_store \<Rightarrow> sql_env \<Rightarrow> string \<Rightarrow> sql_db \<Rightarrow> Record res" where
  "sql_read A D st env cid db =
     (if \<not> hexDigestPattern cid then Inl (Err ErrInvalid)
      else (case read_rows D st env cid db of
          Inl err \<Rightarrow> Inl err
        | Inr (record, expected) \<Rightarrow>
            (case call env ScanRows (check_read A st record expected) of
               Inl err \<Rightarrow> Inl (join_error err (Call_fault env CloseRows))
             | Inr r \<Rightarrow> call env CloseRows (Inr r))))"

definition row_of :: "Artifact \<Rightarrow> artifact_row" where
  "row_of a = \<lparr>Row_digest_field = Artifact_Binding a, Row_content = Artifact_Content a,
     Row_content_sha = Artifact_ContentSHA256 a, Row_state = Artifact_State a, Row_purged = False\<rparr>"

fun insert_artifacts ::
  "sql_dialect \<Rightarrow> sql_store \<Rightarrow> sql_env \<Rightarrow> string \<Rightarrow> nat \<Rightarrow> Artifact list \<Rightarrow> sql_db \<Rightarrow> go_error option \<times> sql_db" where
  "insert_artifacts D st env cid n [] db = (None, db)"
| "insert_artifacts D st env cid n (a # as) db =
     (case call env (InsertArtifact n)
             (insert_artifact D (Sql_namespace st, cid, Artifact_Name a) (row_of a) db) of
        Inl err \<Rightarrow> (Some err, db)
      | Inr db' \<Rightarrow> insert_artifacts D st env cid (Suc n) as db')"

text \<open>The body of \<open>PutTx\<close> in an open transaction; the caller rolls back on an error.\<close>

definition put_tx ::
  "aac \<Rightarrow> sql_dialect \<Rightarrow> sql_store \<Rightarrow> sql_env \<Rightarrow> Record \<Rightarrow> sql_db \<Rightarrow> go_error option \<times> sql_db" where
  "put_tx A D st env record db =
     (case Prepare record of
        Inl err \<Rightarrow> (Some err, db)
      | Inr r \<Rightarrow>
          (case Verify A r (Sql_trusted st) of
             Inl err \<Rightarrow> (Some err, db)
           | Inr _ \<Rightarrow>
               (case StorageChecksum r of
                  Inl err \<Rightarrow> (Some err, db)
                | Inr hash \<Rightarrow>
                    (case call env InsertCapsule
                            (insert_capsule D (Sql_namespace st, Record_CapsuleID r)
                               \<lparr>Row_capsule = Record_Capsule r, Row_envelope = Record_ProducerEnvelope r,
                                Row_record_sha = hash\<rparr> db) of
                       Inl err \<Rightarrow>
                         if \<not> Is_duplicate D err then (Some err, db)
                         else (case sql_read A D st env (Record_CapsuleID r) db of
                             Inl readErr \<Rightarrow> (Some readErr, db)
                           | Inr old \<Rightarrow>
                               (case StorageChecksum old of
                                  Inl hashErr \<Rightarrow> (Some hashErr, db)
                                | Inr oldHash \<Rightarrow>
                                    if oldHash \<noteq> hash then (Some (Err ErrConflict), db)
                                    else if any_purged old then (Some (Err ErrPurged), db)
                                    else (None, db)))
                     | Inr db' \<Rightarrow> insert_artifacts D st env (Record_CapsuleID r) 0 (Record_Artifacts r) db'))))"

text \<open>\<open>PutTx\<close> and \<open>GetTx\<close> of a caller's transaction, which may be nil.\<close>

definition sql_PutTx ::
  "aac \<Rightarrow> sql_dialect \<Rightarrow> sql_store \<Rightarrow> sql_env \<Rightarrow> Record \<Rightarrow> sql_db option \<Rightarrow> go_error option \<times> sql_db option" where
  "sql_PutTx A D st env record tx =
     (case tx of
        None \<Rightarrow> (Some (Err ErrInvalid), None)
      | Some db \<Rightarrow> (case put_tx A D st env record db of (err, db') \<Rightarrow> (err, Some db')))"

definition sql_GetTx :: "aac \<Rightarrow> sql_dialect \<Rightarrow> sql_store \<Rightarrow> sql_env \<Rightarrow> string \<Rightarrow> sql_db option \<Rightarrow> Record res" where
  "sql_GetTx A D st env cid tx =
     (case tx of None \<Rightarrow> Inl (Err ErrInvalid) | Some db \<Rightarrow> sql_read A D st env cid db)"

text \<open>
  \<open>finishRollback\<close>, deferred: after an error the transaction is rolled back, which answers
  \<open>ErrTxDone\<close> when it has ended already; another failure is joined to the error.
\<close>

definition tx_Rollback :: "sql_env \<Rightarrow> bool \<Rightarrow> go_error option" where
  "tx_Rollback env ended = (if ended then Some (Err ErrTxDone) else Call_fault env Rollback)"

definition rollback_joined :: "sql_env \<Rightarrow> bool \<Rightarrow> go_error \<Rightarrow> go_error" where
  "rollback_joined env ended err =
     (case tx_Rollback env ended of
        None \<Rightarrow> err
      | Some e \<Rightarrow> if \<not> errors_is e ErrTxDone then join_error err (Some e) else err)"

definition finishRollback :: "sql_env \<Rightarrow> bool \<Rightarrow> go_error option \<Rightarrow> go_error option" where
  "finishRollback env ended err = (case err of None \<Rightarrow> None | Some e \<Rightarrow> Some (rollback_joined env ended e))"

text \<open>The end of a transaction: a rollback restores the tables, a commit keeps them.\<close>

definition finish :: "sql_env \<Rightarrow> sql_db \<Rightarrow> go_error option \<times> sql_db \<Rightarrow> go_error option \<times> sql_db" where
  "finish env before result =
     (case result of
        (Some err, _) \<Rightarrow> (finishRollback env False (Some err), before)
      | (None, after) \<Rightarrow>
          (case Call_fault env Commit of
             Some err \<Rightarrow> (finishRollback env True (Some err), if Commit_applied env then after else before)
           | None \<Rightarrow> (finishRollback env True None, after)))"

definition sql_Put ::
  "aac \<Rightarrow> sql_dialect \<Rightarrow> sql_store \<Rightarrow> sql_env \<Rightarrow> Record \<Rightarrow> sql_db \<Rightarrow> go_error option \<times> sql_db" where
  "sql_Put A D st env record db =
     (case Call_fault env BeginTx of
        Some err \<Rightarrow> (Some err, db)
      | None \<Rightarrow> finish env db (put_tx A D st env record db))"

definition sql_Get :: "aac \<Rightarrow> sql_dialect \<Rightarrow> sql_store \<Rightarrow> sql_env \<Rightarrow> string \<Rightarrow> sql_db \<Rightarrow> Record res" where
  "sql_Get A D st env cid db =
     (case Call_fault env BeginTx of
        Some err \<Rightarrow> Inl err
      | None \<Rightarrow>
          (case sql_read A D st env cid db of
             Inl err \<Rightarrow> Inl (rollback_joined env False err)
           | Inr record \<Rightarrow>
               (case Call_fault env Commit of
                  Some err \<Rightarrow> Inl (rollback_joined env True err)
                | None \<Rightarrow> Inr record)))"

definition sql_Purge :: "sql_dialect \<Rightarrow> sql_store \<Rightarrow> sql_env \<Rightarrow> string \<Rightarrow> sql_db \<Rightarrow> go_error option \<times> sql_db" where
  "sql_Purge D st env cid db =
     (if \<not> hexDigestPattern cid then (Some (Err ErrInvalid), db)
      else (case Call_fault env BeginTx of
          Some err \<Rightarrow> (Some err, db)
        | None \<Rightarrow>
            finish env db
              (case call env SelectCapsule
                      (case Db_capsules db of None \<Rightarrow> Inl (Table_error D) | Some rows \<Rightarrow> Inr rows) of
                 Inl err \<Rightarrow> (Some err, db)
               | Inr rows \<Rightarrow>
                   if \<not> has_key rows (Sql_namespace st, cid) then (Some (Err ErrNotFound), db)
                   else (case call env UpdateArtifacts (update_purged D (Sql_namespace st, cid) db) of
                       Inl err \<Rightarrow> (Some err, db)
                     | Inr db' \<Rightarrow> (None, db')))))"

lemmas [go_eval] = row_check_def sqlite_constraint_def mysql_duplicate_def sqlite_dialect_def mysql_dialect_def
  insert_capsule_def insert_artifact_def of_capsule_def purge_row_def update_purged_def scan_artifact_def
  select_artifacts_def no_sql_faults_def join_error_def call_def sql_New_def sql_Namespace_def create_def sql_Init_def
  read_rows_def check_read_def sql_read_def row_of_def put_tx_def sql_PutTx_def sql_GetTx_def tx_Rollback_def rollback_joined_def
  finishRollback_def finish_def sql_Put_def sql_Get_def
  sql_Purge_def

end
