(* ===== verification/MysqlStore.thy ===== *)
theory MysqlStore
  imports SqlStore
begin

text \<open>
  The MySQL store (\<open>artifact/mysql\<close>): its own copy of the transactions, on the tables, statements
  and environments of \<open>SqlStore\<close>. What is its own: reads that may lock, a \<open>Put\<close> that starts
  over after a lost deadlock, a duplicate recognised by one error number, and a rollback that
  is tried after a commit too. In serial runs a lock only adds ways to fail; the calls
  \<open>LockCapsule\<close> and \<open>LockArtifacts\<close> stand for the queries with \<open>FOR UPDATE\<close>.
\<close>

section \<open>The store\<close>

record mysql_store =
  Mysql_namespace :: string
  Mysql_trusted :: "bytes list"

definition mysql_New :: "bool \<Rightarrow> string \<Rightarrow> bytes list \<Rightarrow> mysql_store res" where
  "mysql_New db_is_nil namespace trusted =
     (if db_is_nil \<or> \<not> namePattern namespace \<or> trusted = [] then Inl (Err ErrInvalid)
      else if list_ex (\<lambda>k. length k \<noteq> 32) trusted then Inl (Wrapf ''%w: public key size'' [] (Err ErrInvalid))
      else Inr \<lparr>Mysql_namespace = namespace, Mysql_trusted = trusted\<rparr>)"

definition mysql_Namespace :: "mysql_store \<Rightarrow> string" where
  "mysql_Namespace s = Mysql_namespace s"

text \<open>\<open>Init\<close>: the statements of the schema, up to the first that fails.\<close>

definition exec_create :: "sql_env \<Rightarrow> nat \<Rightarrow> (sql_db \<Rightarrow> sql_db) \<Rightarrow> go_error option \<times> sql_db \<Rightarrow> go_error option \<times> sql_db" where
  "exec_create env n statement st =
     (case st of
        (Some err, db) \<Rightarrow> (Some err, db)
      | (None, db) \<Rightarrow>
          (case Call_fault env (CreateTable n) of
             Some err \<Rightarrow> (Some (Wrapf ''initialize artifact store: %w'' [] err), db)
           | None \<Rightarrow> (None, statement db)))"

definition mysql_Init :: "sql_env \<Rightarrow> sql_db \<Rightarrow> go_error option \<times> sql_db" where
  "mysql_Init env db =
     exec_create env 1 (\<lambda>db. db\<lparr>Db_artifacts := create (Db_artifacts db)\<rparr>)
       (exec_create env 0 (\<lambda>db. db\<lparr>Db_capsules := create (Db_capsules db)\<rparr>) (None, db))"

section \<open>Reads\<close>

definition mysql_rows ::
  "(bytes \<Rightarrow> bytes option) \<Rightarrow> mysql_store \<Rightarrow> sql_env \<Rightarrow> string \<Rightarrow> bool \<Rightarrow> sql_db \<Rightarrow> (Record \<times> string) res" where
  "mysql_rows blob s env cid lock db =
     (case call env (if lock then LockCapsule else SelectCapsule)
             (case Db_capsules db of None \<Rightarrow> Inl (Table_error (mysql_dialect blob)) | Some rows \<Rightarrow> Inr rows) of
        Inl err \<Rightarrow> Inl err
      | Inr rows \<Rightarrow>
          (case map_of rows (Mysql_namespace s, cid) of
             None \<Rightarrow> Inl (Err ErrNotFound)
           | Some row \<Rightarrow>
               (case call env (if lock then LockArtifacts else SelectArtifacts)
                       (case Db_artifacts db of
                          None \<Rightarrow> Inl (Table_error (mysql_dialect blob)) | Some rows \<Rightarrow> Inr rows) of
                  Inl err \<Rightarrow> Inl err
                | Inr arts \<Rightarrow>
                    Inr (\<lparr>Record_CapsuleID = cid, Record_Capsule = Row_capsule row,
                          Record_ProducerEnvelope = Row_envelope row,
                          Record_Artifacts = select_artifacts (mysql_dialect blob) (Mysql_namespace s, cid) arts\<rparr>,
                         Row_record_sha row))))"

definition mysql_check :: "aac \<Rightarrow> mysql_store \<Rightarrow> Record \<Rightarrow> string \<Rightarrow> Record res" where
  "mysql_check A s record expected =
     (case StorageChecksum record of
        Inl err \<Rightarrow> Inl err
      | Inr actual \<Rightarrow>
          if expected \<noteq> actual then Inl (Err ErrCorrupt)
          else (case Verify A record (Mysql_trusted s) of Inl err \<Rightarrow> Inl err | Inr _ \<Rightarrow> Inr record))"

definition mysql_read ::
  "aac \<Rightarrow> (bytes \<Rightarrow> bytes option) \<Rightarrow> mysql_store \<Rightarrow> sql_env \<Rightarrow> string \<Rightarrow> bool \<Rightarrow> sql_db \<Rightarrow> Record res" where
  "mysql_read A blob s env cid lock db =
     (if \<not> hexDigestPattern cid then Inl (Err ErrInvalid)
      else (case mysql_rows blob s env cid lock db of
          Inl err \<Rightarrow> Inl err
        | Inr (record, expected) \<Rightarrow>
            (case call env ScanRows (mysql_check A s record expected) of
               Inl err \<Rightarrow> Inl (join_error err (Call_fault env CloseRows))
             | Inr r \<Rightarrow> call env CloseRows (Inr r))))"

text \<open>
  The deferred \<open>finishRollback\<close> of this package tests the rollback's error only, so it runs
  after a commit as well, where the transaction has ended.
\<close>

definition mysql_finishRollback :: "sql_env \<Rightarrow> bool \<Rightarrow> go_error option \<Rightarrow> go_error option" where
  "mysql_finishRollback env ended err =
     (case tx_Rollback env ended of
        None \<Rightarrow> err
      | Some e \<Rightarrow>
          if \<not> errors_is e ErrTxDone
          then Some (case err of None \<Rightarrow> e | Some d \<Rightarrow> join_error d (Some e))
          else err)"

definition mysql_Get ::
  "aac \<Rightarrow> (bytes \<Rightarrow> bytes option) \<Rightarrow> mysql_store \<Rightarrow> sql_env \<Rightarrow> string \<Rightarrow> sql_db \<Rightarrow> Record res" where
  "mysql_Get A blob s env cid db =
     (case Call_fault env BeginTx of
        Some err \<Rightarrow> Inl err
      | None \<Rightarrow>
          (case mysql_read A blob s env cid False db of
             Inl err \<Rightarrow>
               (case mysql_finishRollback env False (Some err) of None \<Rightarrow> Inl err | Some e \<Rightarrow> Inl e)
           | Inr record \<Rightarrow>
               (case Call_fault env Commit of
                  Some err \<Rightarrow>
                    (case mysql_finishRollback env True (Some err) of None \<Rightarrow> Inl err | Some e \<Rightarrow> Inl e)
                | None \<Rightarrow>
                    (case mysql_finishRollback env True None of None \<Rightarrow> Inr record | Some e \<Rightarrow> Inl e))))"

definition mysql_GetTx ::
  "aac \<Rightarrow> (bytes \<Rightarrow> bytes option) \<Rightarrow> mysql_store \<Rightarrow> sql_env \<Rightarrow> string \<Rightarrow> bool \<Rightarrow> sql_db option \<Rightarrow> Record res" where
  "mysql_GetTx A blob s env cid lock tx =
     (case tx of None \<Rightarrow> Inl (Err ErrInvalid) | Some db \<Rightarrow> mysql_read A blob s env cid lock db)"

section \<open>Put\<close>

fun mysql_insert_artifacts ::
  "(bytes \<Rightarrow> bytes option) \<Rightarrow> mysql_store \<Rightarrow> sql_env \<Rightarrow> string \<Rightarrow> nat \<Rightarrow> Artifact list \<Rightarrow> sql_db \<Rightarrow>
     go_error option \<times> sql_db" where
  "mysql_insert_artifacts blob s env cid n [] db = (None, db)"
| "mysql_insert_artifacts blob s env cid n (a # as) db =
     (case call env (InsertArtifact n)
             (insert_artifact (mysql_dialect blob) (Mysql_namespace s, cid, Artifact_Name a) (row_of a) db) of
        Inl err \<Rightarrow> (Some err, db)
      | Inr db' \<Rightarrow> mysql_insert_artifacts blob s env cid (Suc n) as db')"

text \<open>After a duplicate the row is locked and compared.\<close>

definition mysql_duplicate_put ::
  "aac \<Rightarrow> (bytes \<Rightarrow> bytes option) \<Rightarrow> mysql_store \<Rightarrow> sql_env \<Rightarrow> string \<Rightarrow> string \<Rightarrow> sql_db \<Rightarrow> go_error option" where
  "mysql_duplicate_put A blob s env cid hash db =
     (case mysql_read A blob s env cid True db of
        Inl readErr \<Rightarrow> Some readErr
      | Inr old \<Rightarrow>
          (case StorageChecksum old of
             Inl hashErr \<Rightarrow> Some hashErr
           | Inr oldHash \<Rightarrow>
               if oldHash \<noteq> hash then Some (Err ErrConflict)
               else if any_purged old then Some (Err ErrPurged)
               else None))"

definition mysql_put_tx ::
  "aac \<Rightarrow> (bytes \<Rightarrow> bytes option) \<Rightarrow> mysql_store \<Rightarrow> sql_env \<Rightarrow> Record \<Rightarrow> sql_db \<Rightarrow> go_error option \<times> sql_db" where
  "mysql_put_tx A blob s env record db =
     (case Prepare record of
        Inl err \<Rightarrow> (Some err, db)
      | Inr r \<Rightarrow>
          (case Verify A r (Mysql_trusted s) of
             Inl err \<Rightarrow> (Some err, db)
           | Inr _ \<Rightarrow>
               (case StorageChecksum r of
                  Inl err \<Rightarrow> (Some err, db)
                | Inr hash \<Rightarrow>
                    (case call env InsertCapsule
                            (insert_capsule (mysql_dialect blob) (Mysql_namespace s, Record_CapsuleID r)
                               \<lparr>Row_capsule = Record_Capsule r, Row_envelope = Record_ProducerEnvelope r,
                                Row_record_sha = hash\<rparr> db) of
                       Inl err \<Rightarrow>
                         if \<not> mysql_duplicate err then (Some err, db)
                         else (mysql_duplicate_put A blob s env (Record_CapsuleID r) hash db, db)
                     | Inr db' \<Rightarrow>
                         mysql_insert_artifacts blob s env (Record_CapsuleID r) 0 (Record_Artifacts r) db'))))"

definition mysql_PutTx ::
  "aac \<Rightarrow> (bytes \<Rightarrow> bytes option) \<Rightarrow> mysql_store \<Rightarrow> sql_env \<Rightarrow> Record \<Rightarrow> sql_db option \<Rightarrow>
     go_error option \<times> sql_db option" where
  "mysql_PutTx A blob s env record tx =
     (case tx of
        None \<Rightarrow> (Some (Err ErrInvalid), None)
      | Some db \<Rightarrow> (case mysql_put_tx A blob s env record db of (err, db') \<Rightarrow> (err, Some db')))"

text \<open>\<open>tx.Commit()\<close> after a body without an error, and the deferred rollback.\<close>

definition mysql_finish :: "sql_env \<Rightarrow> sql_db \<Rightarrow> go_error option \<times> sql_db \<Rightarrow> go_error option \<times> sql_db" where
  "mysql_finish env before result =
     (case result of
        (Some err, _) \<Rightarrow> (mysql_finishRollback env False (Some err), before)
      | (None, after) \<Rightarrow>
          (case Call_fault env Commit of
             Some err \<Rightarrow> (mysql_finishRollback env True (Some err), if Commit_applied env then after else before)
           | None \<Rightarrow> (mysql_finishRollback env True None, after)))"

definition putOnce ::
  "aac \<Rightarrow> (bytes \<Rightarrow> bytes option) \<Rightarrow> mysql_store \<Rightarrow> sql_env \<Rightarrow> Record \<Rightarrow> sql_db \<Rightarrow> go_error option \<times> sql_db" where
  "putOnce A blob s env record db =
     (case Call_fault env BeginTx of
        Some err \<Rightarrow> (Some err, db)
      | None \<Rightarrow> mysql_finish env db (mysql_put_tx A blob s env record db))"

section \<open>Retrying deadlocks\<close>

text \<open>
  \<open>retryDeadlock\<close> of the MySQL package, with \<open>left\<close> attempts after this one, of five. The
  context is cancelled before or while the loop waits where \<open>Ctx_err\<close> and \<open>Ctx_done\<close> say so;
  the waiting time itself is not modelled.
\<close>

record retry_env =
  Ctx_err :: "nat \<Rightarrow> go_error option"
  Ctx_done :: "nat \<Rightarrow> go_error option"
  Attempt_env :: "nat \<Rightarrow> sql_env"

definition deadlock :: "go_error option \<Rightarrow> bool" where
  "deadlock err = (case err of None \<Rightarrow> False | Some e \<Rightarrow> driver_number e = Some 1213)"

fun retry_loop ::
  "retry_env \<Rightarrow> (sql_env \<Rightarrow> 's \<Rightarrow> go_error option \<times> 's) \<Rightarrow> nat \<Rightarrow> 's \<Rightarrow> go_error option \<times> 's" where
  "retry_loop R run left s =
     (case Ctx_err R (4 - left) of
        Some err \<Rightarrow> (Some err, s)
      | None \<Rightarrow>
          (case run (Attempt_env R (4 - left)) s of
             (err, s') \<Rightarrow>
               if \<not> deadlock err \<or> left = 0 then (err, s')
               else (case Ctx_done R (4 - left) of
                   Some err' \<Rightarrow> (Some err', s')
                 | None \<Rightarrow> retry_loop R run (left - 1) s')))"

declare retry_loop.simps [simp del]

definition retryDeadlock ::
  "retry_env \<Rightarrow> (sql_env \<Rightarrow> 's \<Rightarrow> go_error option \<times> 's) \<Rightarrow> 's \<Rightarrow> go_error option \<times> 's" where
  "retryDeadlock R run s = retry_loop R run 4 s"

definition mysql_Put ::
  "aac \<Rightarrow> (bytes \<Rightarrow> bytes option) \<Rightarrow> mysql_store \<Rightarrow> retry_env \<Rightarrow> Record \<Rightarrow> sql_db \<Rightarrow> go_error option \<times> sql_db" where
  "mysql_Put A blob s R record db = retryDeadlock R (\<lambda>env. putOnce A blob s env record) db"

section \<open>Purge\<close>

definition mysql_Purge ::
  "(bytes \<Rightarrow> bytes option) \<Rightarrow> mysql_store \<Rightarrow> sql_env \<Rightarrow> string \<Rightarrow> sql_db \<Rightarrow> go_error option \<times> sql_db" where
  "mysql_Purge blob s env cid db =
     (if \<not> hexDigestPattern cid then (Some (Err ErrInvalid), db)
      else (case Call_fault env BeginTx of
          Some err \<Rightarrow> (Some err, db)
        | None \<Rightarrow>
            mysql_finish env db
              (case call env LockCapsule
                      (case Db_capsules db of
                         None \<Rightarrow> Inl (Table_error (mysql_dialect blob)) | Some rows \<Rightarrow> Inr rows) of
                 Inl err \<Rightarrow> (Some err, db)
               | Inr rows \<Rightarrow>
                   if \<not> has_key rows (Mysql_namespace s, cid) then (Some (Err ErrNotFound), db)
                   else (case call env UpdateArtifacts
                           (update_purged (mysql_dialect blob) (Mysql_namespace s, cid) db) of
                       Inl err \<Rightarrow> (Some err, db)
                     | Inr db' \<Rightarrow> (None, db')))))"

lemmas [go_eval] = mysql_New_def mysql_Namespace_def exec_create_def mysql_Init_def mysql_rows_def mysql_check_def
  mysql_read_def mysql_finishRollback_def mysql_Get_def mysql_GetTx_def mysql_duplicate_put_def mysql_put_tx_def
  mysql_PutTx_def mysql_finish_def putOnce_def deadlock_def retryDeadlock_def mysql_Put_def mysql_Purge_def

end
