(* ===== verification/SqlFacts.thy ===== *)
theory SqlFacts
  imports SqlStore
begin

text \<open>
  The SQL stores keep the contract in either dialect. Under the invariant of the tables
  (checks and foreign key hold, and every record read back is an admitted one with its
  checksum) a transaction does what the specification says or leaves the tables as they were.
\<close>

section \<open>What the tables hold\<close>

definition blobbed :: "sql_dialect \<Rightarrow> Artifact \<Rightarrow> Artifact" where
  "blobbed D a = a\<lparr>Artifact_Content :=
     (case Artifact_Content a of None \<Rightarrow> None | Some c \<Rightarrow> Driver_blob D c)\<rparr>"

text \<open>A record as it is read back: the inventory in the order of the names.\<close>

definition sql_keep :: "sql_dialect \<Rightarrow> Record \<Rightarrow> Record" where
  "sql_keep D p = p\<lparr>Record_Artifacts := sort_key Artifact_Name (map (blobbed D) (Record_Artifacts p))\<rparr>"

definition sql_holds :: "sql_dialect \<Rightarrow> sql_store \<Rightarrow> sql_db \<Rightarrow> vault" where
  "sql_holds D st db cid =
     (case read_rows D st no_sql_faults cid db of Inl _ \<Rightarrow> None | Inr (r, _) \<Rightarrow> Some r)"

text \<open>What the store relies on: a duplicate is reported as one, and no envelope is empty.\<close>

definition sql_env_ok :: "aac \<Rightarrow> sql_dialect \<Rightarrow> bool" where
  "sql_env_ok A D \<longleftrightarrow> Is_duplicate D (Dup_error D) \<and> (\<forall>cid. \<not> Envelope_OK (envelope_Verify A cid ''''))"

definition tables_ok :: "sql_store \<Rightarrow> sql_db \<Rightarrow> bool" where
  "tables_ok st db \<longleftrightarrow>
     (\<exists>caps arts. Db_capsules db = Some caps \<and> Db_artifacts db = Some arts \<and>
        (\<forall>row \<in> set arts. row_check (snd row)) \<and>
        (\<forall>row \<in> set arts. fst (fst row) = Sql_namespace st \<longrightarrow>
           (Sql_namespace st, fst (snd (fst row))) \<in> set (keys caps)))"

definition sql_inv :: "aac \<Rightarrow> sql_dialect \<Rightarrow> sql_store \<Rightarrow> sql_db \<Rightarrow> bool" where
  "sql_inv A D st db \<longleftrightarrow> sql_env_ok A D \<and> tables_ok st db \<and>
     (\<forall>cid r sha. read_rows D st no_sql_faults cid db = Inr (r, sha) \<longrightarrow>
        (\<exists>p. admitted A (Sql_trusted st) p \<and> Record_CapsuleID p = cid \<and> r = sql_keep D p \<and>
          StorageChecksum p = Inr sha))"

lemma sort_key_map:
  fixes f :: "Artifact \<Rightarrow> Artifact"
  assumes "\<And>a. Artifact_Name (f a) = Artifact_Name a"
  shows "sort_key Artifact_Name (map f as) = map f (sort_key Artifact_Name as)"
proof -
  have "insort_key Artifact_Name (f a) (map f bs) = map f (insort_key Artifact_Name a bs)" for a bs
    by (induction bs) (simp_all add: assms)
  then show ?thesis by (induction as) simp_all
qed

lemma blobbed_name [simp]: "Artifact_Name (blobbed D a) = Artifact_Name a"
  by (simp add: blobbed_def)

lemma inventory_entry_blobbed [simp]: "inventory_entry (blobbed D a) = inventory_entry a"
  by (simp add: blobbed_def inventory_entry_def)

lemma keep_simps [simp]:
  "Record_CapsuleID (sql_keep D p) = Record_CapsuleID p" "Record_Capsule (sql_keep D p) = Record_Capsule p"
  "Record_ProducerEnvelope (sql_keep D p) = Record_ProducerEnvelope p"
  by (simp_all add: sql_keep_def)

lemma admitted_distinct: "admitted A trusted p \<Longrightarrow> distinct (map Artifact_Name (Record_Artifacts p))"
  by (simp add: admitted_def record_ok_def inventory_ok_def)

lemma checksum_keep: "admitted A trusted p \<Longrightarrow> StorageChecksum (sql_keep D p) = StorageChecksum p"
proof (rule checksum_cong)
  assume p: "admitted A trusted p"
  have "inventory (sort_key Artifact_Name (map (blobbed D) (Record_Artifacts p))) =
      inventory (map (blobbed D) (Record_Artifacts p))"
    using admitted_distinct [OF p]
    by (intro inventory_perm) (auto simp: comp_def distinct_map inj_on_def dest: arg_cong [of _ _ Artifact_Name])
  then show "inventory (Record_Artifacts (sql_keep D p)) = inventory (Record_Artifacts p)"
    by (simp add: sql_keep_def inventory_map)
qed simp_all

lemma purge_keep: "purge_record (sql_keep D p) = sql_keep D (purge_record p)"
proof -
  have "purge_artifact (blobbed D a) = blobbed D (purge_artifact a)" for a
    by (cases a) (simp add: purge_artifact_def blobbed_def)
  then show ?thesis
    using sort_key_map [of purge_artifact "map (blobbed D) (Record_Artifacts p)"]
    by (simp add: purge_record_def sql_keep_def comp_def)
qed

section \<open>Reading\<close>

text \<open>A rollback hides no error, and one that comes too late is not reported.\<close>

lemma rollback_simps [simp]:
  "rollback_joined env True err = err" "rollback_joined no_sql_faults ended err = err"
  "finishRollback env True res = res"
  by (simp_all add: rollback_joined_def tx_Rollback_def finishRollback_def no_sql_faults_def split: option.split)

lemma finish_simps [simp]:
  "finish env db (Some err, after) = (Some (rollback_joined env False err), db)"
  "finish env db (None, after) =
     (case Call_fault env Commit of
        Some err \<Rightarrow> (Some err, if Commit_applied env then after else db)
      | None \<Rightarrow> (None, after))"
  by (simp_all add: finish_def finishRollback_def split: option.split)

lemma read_rows_outcome:
  "read_rows D st env cid db = read_rows D st no_sql_faults cid db \<or>
     env \<noteq> no_sql_faults \<and> (\<exists>err. read_rows D st env cid db = Inl err)"
proof (cases "Call_fault env SelectCapsule = None \<and> Call_fault env SelectArtifacts = None")
  case True
  then show ?thesis
    by (simp add: read_rows_def call_def no_sql_faults_def split: option.split sum.split)
next
  case False
  then have "env \<noteq> no_sql_faults" by (auto simp: no_sql_faults_def)
  with False show ?thesis
    by (auto simp: read_rows_def call_def no_sql_faults_def split: option.split sum.split)
qed

lemma tables_read:
  assumes "Db_capsules db = Some caps" "Db_artifacts db = Some arts"
  shows "read_rows D st no_sql_faults cid db =
    (case map_of caps (Sql_namespace st, cid) of
       None \<Rightarrow> Inl (Err ErrNotFound)
     | Some row \<Rightarrow> Inr (\<lparr>Record_CapsuleID = cid, Record_Capsule = Row_capsule row,
         Record_ProducerEnvelope = Row_envelope row,
         Record_Artifacts = select_artifacts D (Sql_namespace st, cid) arts\<rparr>, Row_record_sha row))"
  using assms by (simp add: read_rows_def call_def no_sql_faults_def split: option.split)

text \<open>What a read without faults answers, and that faults can only turn it into an error.\<close>

lemma sql_read_exact:
  assumes "sql_inv A D st db"
  shows "sql_read A D st no_sql_faults cid db = spec_get A (Sql_trusted st) cid (sql_holds D st db)"
proof (cases "read_rows D st no_sql_faults cid db")
  case (Inl err)
  from assms obtain caps arts where "Db_capsules db = Some caps" "Db_artifacts db = Some arts"
    by (auto simp: sql_inv_def tables_ok_def)
  with Inl have "err = Err ErrNotFound" by (auto simp: tables_read split: option.splits)
  with Inl show ?thesis by (simp add: sql_read_def spec_get_def sql_holds_def)
next
  case (Inr rs)
  obtain r sha where rs: "rs = (r, sha)" by (cases rs)
  with Inr assms obtain p where p: "admitted A (Sql_trusted st) p" "r = sql_keep D p" "StorageChecksum p = Inr sha"
    unfolding sql_inv_def by blast
  then have "StorageChecksum r = Inr sha" using checksum_keep [OF p(1)] by simp
  with Inr rs show ?thesis
    by (cases "Verify A r (Sql_trusted st)")
      (simp_all add: sql_read_def spec_get_def sql_holds_def check_read_def join_error_def call_def no_sql_faults_def)
qed

lemma sql_read_outcome:
  "sql_read A D st env cid db = sql_read A D st no_sql_faults cid db \<or>
     env \<noteq> no_sql_faults \<and> (\<exists>err. sql_read A D st env cid db = Inl err)"
proof (cases "env = no_sql_faults")
  case False
  then show ?thesis
    using read_rows_outcome [of D st env cid db]
    by (cases "read_rows D st env cid db"; cases "Call_fault env CloseRows"; cases "Call_fault env ScanRows")
      (auto simp: sql_read_def call_def no_sql_faults_def split: sum.splits prod.splits)
qed simp

lemma sql_get_outcome:
  assumes "sql_inv A D st db"
  shows "sql_Get A D st env cid db = spec_get A (Sql_trusted st) cid (sql_holds D st db) \<or>
    env \<noteq> no_sql_faults \<and> (\<exists>err. sql_Get A D st env cid db = Inl err)"
proof -
  have exact: "sql_Get A D st no_sql_faults cid db = spec_get A (Sql_trusted st) cid (sql_holds D st db)"
    using sql_read_exact [OF assms, of cid]
    by (auto simp: sql_Get_def call_def no_sql_faults_def rollback_joined_def tx_Rollback_def split: sum.split)
  show ?thesis
  proof (cases "env = no_sql_faults")
    case False
    have "sql_Get A D st env cid db = Inr r \<Longrightarrow> sql_read A D st no_sql_faults cid db = Inr r" for r
      using sql_read_outcome [of A D st env cid db]
      by (auto simp: sql_Get_def call_def split: option.splits sum.splits)
    then have "sql_Get A D st env cid db = Inr r \<Longrightarrow> spec_get A (Sql_trusted st) cid (sql_holds D st db) = Inr r" for r
      using sql_read_exact [OF assms, of cid] by simp
    with False show ?thesis by (cases "sql_Get A D st env cid db") auto
  qed (use exact in simp)
qed

section \<open>Writing\<close>

lemma row_check_admitted:
  assumes "admitted A trusted p" "\<not> any_purged p" "a \<in> set (Record_Artifacts p)"
  shows "row_check (row_of a)"
proof -
  obtain m where ok: "artifact_ok A m a" using assms by (auto simp: admitted_def record_ok_def inventory_ok_def)
  have "filled a" "Artifact_State a \<noteq> Purged" using assms by (auto simp: admitted_def any_purged_def list_ex_iff)
  then show ?thesis
    using ok hexDigestPattern_length [OF rawDigest_pattern]
    by (auto simp: artifact_ok_def filled_def row_check_def row_of_def Present_def [symmetric]
        Purged_def [symmetric] NeverRetained_def [symmetric] split: if_splits)
qed

definition artifact_rows :: "sql_store \<Rightarrow> Record \<Rightarrow> ((string \<times> string \<times> string) \<times> artifact_row) list" where
  "artifact_rows st p =
     map (\<lambda>a. ((Sql_namespace st, Record_CapsuleID p, Artifact_Name a), row_of a)) (Record_Artifacts p)"

text \<open>The inserts of an inventory whose rows are fresh and pass the checks can only fail by a fault.\<close>

lemma insert_artifacts_outcome:
  assumes "Db_capsules db = Some caps" "(Sql_namespace st, cid) \<in> set (keys caps)" "Db_artifacts db = Some arts"
    and "distinct (map Artifact_Name as)" "\<forall>a \<in> set as. row_check (row_of a)"
    and "\<forall>a \<in> set as. (Sql_namespace st, cid, Artifact_Name a) \<notin> set (keys arts)"
  shows "insert_artifacts D st env cid n as db =
      (None, db\<lparr>Db_artifacts := Some (arts @ map (\<lambda>a. ((Sql_namespace st, cid, Artifact_Name a), row_of a)) as)\<rparr>) \<or>
    env \<noteq> no_sql_faults \<and> (\<exists>err after. insert_artifacts D st env cid n as db = (Some err, after))"
  using assms
proof (induction as arbitrary: n db arts)
  case (Cons a as)
  let ?key = "(Sql_namespace st, cid, Artifact_Name a)"
  let ?db = "db\<lparr>Db_artifacts := Some (arts @ [(?key, row_of a)])\<rparr>"
  have insert: "insert_artifact D ?key (row_of a) db = Inr ?db"
    using Cons.prems by (simp add: insert_artifact_def)
  show ?case
  proof (cases "Call_fault env (InsertArtifact n)")
    case None
    have "insert_artifacts D st env cid (Suc n) as ?db =
        (None, ?db\<lparr>Db_artifacts := Some ((arts @ [(?key, row_of a)]) @
           map (\<lambda>a. ((Sql_namespace st, cid, Artifact_Name a), row_of a)) as)\<rparr>) \<or>
      env \<noteq> no_sql_faults \<and> (\<exists>err after. insert_artifacts D st env cid (Suc n) as ?db = (Some err, after))"
      by (rule Cons.IH) (use Cons.prems in \<open>auto simp: image_iff\<close>)
    with None insert show ?thesis by (simp add: call_def)
  next
    case (Some err)
    then have "env \<noteq> no_sql_faults" by (auto simp: no_sql_faults_def)
    with Some show ?thesis by (simp add: call_def)
  qed
qed simp

text \<open>The tables after a new record has been inserted.\<close>

definition with_record :: "sql_store \<Rightarrow> Record \<Rightarrow> string \<Rightarrow> sql_db \<Rightarrow> sql_db" where
  "with_record st p hash db =
     db\<lparr>Db_capsules := map_option (\<lambda>rows. rows @ [((Sql_namespace st, Record_CapsuleID p),
          \<lparr>Row_capsule = Record_Capsule p, Row_envelope = Record_ProducerEnvelope p, Row_record_sha = hash\<rparr>)])
          (Db_capsules db),
        Db_artifacts := map_option (\<lambda>rows. rows @ artifact_rows st p) (Db_artifacts db)\<rparr>"

lemma scan_row_of [simp]: "scan_artifact D ((ns, cid, Artifact_Name a), row_of a) = blobbed D a"
  by (cases a) (simp add: scan_artifact_def row_of_def blobbed_def)

lemma filter_artifact_rows:
  "filter (of_capsule (Sql_namespace st, cid)) (artifact_rows st p) =
     (if cid = Record_CapsuleID p then artifact_rows st p else [])"
  by (auto simp: artifact_rows_def of_capsule_def filter_empty_conv)

lemma map_scan_rows: "map (scan_artifact D) (artifact_rows st p) = map (blobbed D) (Record_Artifacts p)"
  by (simp add: artifact_rows_def)

lemma orphans:
  assumes "\<forall>row \<in> set arts. fst (fst row) = ns \<longrightarrow> (ns, fst (snd (fst row))) \<in> set (keys caps)"
    and "(ns, cid) \<notin> set (keys caps)"
  shows "filter (of_capsule (ns, cid)) arts = []"
  using assms by (auto simp: filter_empty_conv of_capsule_def)

lemma with_record_read:
  assumes "tables_ok st db" "read_rows D st no_sql_faults (Record_CapsuleID p) db = Inl err"
  shows "read_rows D st no_sql_faults cid (with_record st p hash db) =
    (if cid = Record_CapsuleID p then Inr (sql_keep D p, hash) else read_rows D st no_sql_faults cid db)"
proof -
  let ?ns = "Sql_namespace st"
  from assms(1) obtain caps arts where t: "Db_capsules db = Some caps" "Db_artifacts db = Some arts"
    and parent: "\<forall>row \<in> set arts. fst (fst row) = ?ns \<longrightarrow> (?ns, fst (snd (fst row))) \<in> set (keys caps)"
    by (auto simp: tables_ok_def)
  have new: "map_of caps (?ns, Record_CapsuleID p) = None"
    using assms(2) by (simp add: tables_read [OF t] split: option.splits)
  then have none: "filter (of_capsule (?ns, Record_CapsuleID p)) arts = []"
    by (intro orphans [OF parent]) (simp add: map_of_eq_None_iff)
  let ?caps = "caps @ [((?ns, Record_CapsuleID p), \<lparr>Row_capsule = Record_Capsule p,
    Row_envelope = Record_ProducerEnvelope p, Row_record_sha = hash\<rparr>)]"
  have w: "Db_capsules (with_record st p hash db) = Some ?caps"
    "Db_artifacts (with_record st p hash db) = Some (arts @ artifact_rows st p)"
    using t by (simp_all add: with_record_def)
  show ?thesis
  proof (cases "cid = Record_CapsuleID p")
    case True
    have "select_artifacts D (?ns, cid) (arts @ artifact_rows st p) = Record_Artifacts (sql_keep D p)"
      using none True by (simp add: select_artifacts_def filter_artifact_rows map_scan_rows sql_keep_def)
    with True new show ?thesis
      by (simp add: tables_read [OF w] map_add_def sql_keep_def)
  next
    case False
    then have "select_artifacts D (?ns, cid) (arts @ artifact_rows st p) = select_artifacts D (?ns, cid) arts"
      by (simp add: select_artifacts_def filter_artifact_rows)
    moreover have "map_of ?caps (?ns, cid) = map_of caps (?ns, cid)"
      using False by (simp add: map_add_def split: option.split)
    ultimately show ?thesis using False by (simp only: tables_read [OF w] tables_read [OF t] if_False)
  qed
qed

lemma with_record_inv:
  assumes "sql_inv A D st db" "read_rows D st no_sql_faults (Record_CapsuleID p) db = Inl err"
    and "admitted A (Sql_trusted st) p" "\<not> any_purged p" "StorageChecksum p = Inr hash"
  shows "sql_inv A D st (with_record st p hash db)"
    "sql_holds D st (with_record st p hash db) = (sql_holds D st db)(Record_CapsuleID p \<mapsto> sql_keep D p)"
proof -
  have ok: "tables_ok st db" using assms(1) by (simp add: sql_inv_def)
  note read = with_record_read [OF ok assms(2), of _ hash]
  have "tables_ok st (with_record st p hash db)"
    using ok row_check_admitted [OF assms(3,4)]
    by (auto simp: tables_ok_def with_record_def artifact_rows_def)
  moreover have "\<exists>q. admitted A (Sql_trusted st) q \<and> Record_CapsuleID q = cid \<and> r = sql_keep D q \<and> StorageChecksum q = Inr sha"
    if "read_rows D st no_sql_faults cid (with_record st p hash db) = Inr (r, sha)" for cid r sha
  proof (cases "cid = Record_CapsuleID p")
    case True
    with that read assms(3,5) show ?thesis by auto
  next
    case False
    with that read have "read_rows D st no_sql_faults cid db = Inr (r, sha)" by simp
    with assms(1) show ?thesis unfolding sql_inv_def by blast
  qed
  ultimately show "sql_inv A D st (with_record st p hash db)"
    using assms(1) by (simp add: sql_inv_def)
  show "sql_holds D st (with_record st p hash db) = (sql_holds D st db)(Record_CapsuleID p \<mapsto> sql_keep D p)"
    by (rule ext) (simp add: sql_holds_def read)
qed

text \<open>The envelope of an admitted record and its capsule are not empty, so no NULL is bound.\<close>

lemma decode_empty: "DecodePayload '''' \<noteq> Inr m"
  by (simp add: DecodePayload_def decodeStrictJSON_def decode_fuel_def new_decoder_def Token.simps
      decodeJSONValue.simps)

lemma admitted_not_null:
  assumes "admitted A trusted p" "sql_env_ok A D"
  shows "Record_Capsule p \<noteq> ''''" "Record_ProducerEnvelope p \<noteq> ''''"
proof -
  have "snd (VerifyEnvelope A (Record_CapsuleID p) (Record_ProducerEnvelope p)) = None"
    using assms(1) by (auto simp: admitted_def record_ok_def signed_ok_def split: prod.splits)
  then show "Record_ProducerEnvelope p \<noteq> ''''"
    using assms(2) by (auto simp: VerifyEnvelope_def Let_def sql_env_ok_def split: if_splits)
  show "Record_Capsule p \<noteq> ''''"
    using assms(1) decode_empty by (auto simp: admitted_def record_ok_def inventory_ok_def)
qed

text \<open>The branch of \<open>PutTx\<close> after a duplicate: read, compare, and refuse what was purged.\<close>

definition put_again :: "aac \<Rightarrow> sql_dialect \<Rightarrow> sql_store \<Rightarrow> sql_env \<Rightarrow> string \<Rightarrow> string \<Rightarrow> sql_db \<Rightarrow> go_error option" where
  "put_again A D st env cid hash db =
     (case sql_read A D st env cid db of
        Inl readErr \<Rightarrow> Some readErr
      | Inr old \<Rightarrow>
          (case StorageChecksum old of
             Inl hashErr \<Rightarrow> Some hashErr
           | Inr oldHash \<Rightarrow>
               if oldHash \<noteq> hash then Some (Err ErrConflict)
               else if any_purged old then Some (Err ErrPurged)
               else None))"

lemma put_tx_again:
  "put_tx A D st env r db =
     (case admit A (Sql_trusted st) r of
        Inl err \<Rightarrow> (Some err, db)
      | Inr (p, hash) \<Rightarrow>
          (case call env InsertCapsule
                  (insert_capsule D (Sql_namespace st, Record_CapsuleID p)
                     \<lparr>Row_capsule = Record_Capsule p, Row_envelope = Record_ProducerEnvelope p,
                      Row_record_sha = hash\<rparr> db) of
             Inl err \<Rightarrow>
               if \<not> Is_duplicate D err then (Some err, db)
               else (put_again A D st env (Record_CapsuleID p) hash db, db)
           | Inr db' \<Rightarrow> insert_artifacts D st env (Record_CapsuleID p) 0 (Record_Artifacts p) db'))"
  by (auto simp: put_tx_def admit_def put_again_def split: sum.split)

lemma put_again_outcome:
  assumes "sql_inv A D st db" "admit A (Sql_trusted st) r = Inr (p, hash)"
  shows "(put_again A D st env (Record_CapsuleID p) hash db, sql_holds D st db) =
      spec_put A (Sql_trusted st) (sql_keep D) r (sql_holds D st db) \<or>
    put_again A D st env (Record_CapsuleID p) hash db \<noteq> None \<and>
      (env \<noteq> no_sql_faults \<or> sql_holds D st db (Record_CapsuleID p) = None)"
proof -
  have id: "hexDigestPattern (Record_CapsuleID p)" using admit_InrD(5) [OF assms(2)] .
  from sql_read_outcome [of A D st env "Record_CapsuleID p" db] show ?thesis
  proof
    assume "sql_read A D st env (Record_CapsuleID p) db = sql_read A D st no_sql_faults (Record_CapsuleID p) db"
    then have read: "sql_read A D st env (Record_CapsuleID p) db =
        spec_get A (Sql_trusted st) (Record_CapsuleID p) (sql_holds D st db)"
      using sql_read_exact [OF assms(1)] by simp
    show ?thesis
    proof (cases "sql_holds D st db (Record_CapsuleID p)")
      case None
      with read id show ?thesis by (simp add: put_again_def spec_get_def)
    next
      case (Some old)
      with read id assms(2) show ?thesis
        by (cases "Verify A old (Sql_trusted st)")
          (simp_all add: put_again_def spec_get_def spec_put_def readmit_def)
    qed
  qed (auto simp: put_again_def)
qed

lemma put_tx_outcome:
  assumes "sql_inv A D st db" "put_tx A D st env r db = (err, after)"
  shows "sql_inv A D st after \<and> (err, sql_holds D st after) = spec_put A (Sql_trusted st) (sql_keep D) r (sql_holds D st db) \<or>
    err \<noteq> None \<and> env \<noteq> no_sql_faults"
proof (cases "admit A (Sql_trusted st) r")
  case (Inl e)
  with assms show ?thesis by (simp add: put_tx_again spec_put_def)
next
  case (Inr ph)
  obtain p hash where ph: "ph = (p, hash)" by (cases ph)
  with Inr have admit: "admit A (Sql_trusted st) r = Inr (p, hash)" by simp
  note p = admit_InrD [OF admit]
  let ?ns = "Sql_namespace st" and ?cid = "Record_CapsuleID p"
  let ?row = "\<lparr>Row_capsule = Record_Capsule p, Row_envelope = Record_ProducerEnvelope p, Row_record_sha = hash\<rparr>"
  have env: "sql_env_ok A D" and ok: "tables_ok st db" using assms(1) by (simp_all add: sql_inv_def)
  from ok obtain caps arts where t: "Db_capsules db = Some caps" "Db_artifacts db = Some arts"
    and parent: "\<forall>row \<in> set arts. fst (fst row) = ?ns \<longrightarrow> (?ns, fst (snd (fst row))) \<in> set (keys caps)"
    by (auto simp: tables_ok_def)
  have insert: "insert_capsule D (?ns, ?cid) ?row db =
      (if (?ns, ?cid) \<in> set (keys caps) then Inl (Dup_error D)
       else Inr (db\<lparr>Db_capsules := Some (caps @ [((?ns, ?cid), ?row)])\<rparr>))"
    using admitted_not_null [OF p(1) env] t by (simp add: insert_capsule_def)
  have held: "sql_holds D st db ?cid = None \<longleftrightarrow> (?ns, ?cid) \<notin> set (keys caps)"
    by (simp add: sql_holds_def tables_read [OF t] map_of_eq_None_iff [symmetric] split: option.split)
  note again = put_again_outcome [OF assms(1) admit, of env]
  show ?thesis
  proof (cases "Call_fault env InsertCapsule")
    case (Some e)
    then have "env \<noteq> no_sql_faults" by (auto simp: no_sql_faults_def)
    moreover have "after = db \<and> (err \<noteq> None \<or> err = put_again A D st env ?cid hash db)"
    proof (cases "Is_duplicate D e")
      case True
      with assms(2) admit Some have "put_again A D st env ?cid hash db = err \<and> db = after"
        by (auto simp: put_tx_again call_def)
      then show ?thesis by auto
    next
      case False
      with assms(2) admit Some have "Some e = err" "db = after" by (simp_all add: put_tx_again call_def)
      then show ?thesis by auto
    qed
    ultimately show ?thesis using again assms(1) by auto
  next
    case no_fault: None
    show ?thesis
    proof (cases "(?ns, ?cid) \<in> set (keys caps)")
      case True
      have "(err, after) = (put_again A D st env ?cid hash db, db)"
        using assms(2) admit no_fault insert True env by (auto simp: put_tx_again call_def sql_env_ok_def)
      with again assms(1) held True show ?thesis by auto
    next
      case False
      then have "map_of caps (?ns, ?cid) = None" by (simp add: map_of_eq_None_iff)
      then have "read_rows D st no_sql_faults ?cid db = Inl (Err ErrNotFound)"
        by (simp add: tables_read [OF t])
      note new = with_record_inv [OF assms(1) this p(1-3)]
      let ?db = "db\<lparr>Db_capsules := Some (caps @ [((?ns, ?cid), ?row)])\<rparr>"
      have "(err, after) = insert_artifacts D st env ?cid 0 (Record_Artifacts p) ?db"
        using assms(2) admit no_fault insert False by (simp add: put_tx_again call_def)
      moreover have "insert_artifacts D st env ?cid 0 (Record_Artifacts p) ?db = (None, with_record st p hash db) \<or>
          env \<noteq> no_sql_faults \<and> (\<exists>err after. insert_artifacts D st env ?cid 0 (Record_Artifacts p) ?db = (Some err, after))"
      proof -
        have "(?ns, ?cid, n) \<notin> set (keys arts)" for n
        proof
          assume "(?ns, ?cid, n) \<in> set (keys arts)"
          then obtain row where "row \<in> set arts" "fst row = (?ns, ?cid, n)" unfolding set_map by (elim imageE) simp
          with parent have "(?ns, ?cid) \<in> set (keys caps)" by (metis fst_conv snd_conv)
          with False show False by contradiction
        qed
        then show ?thesis
          using insert_artifacts_outcome [of ?db "caps @ [((?ns, ?cid), ?row)]" st ?cid arts "Record_Artifacts p" D env 0]
            t admitted_distinct [OF p(1)] row_check_admitted [OF p(1,2)]
          by (simp add: with_record_def artifact_rows_def)
      qed
      ultimately show ?thesis using new held False admit by (auto simp: spec_put_def)
    qed
  qed
qed

text \<open>Ending a transaction keeps what its body did, or leaves the tables as they were.\<close>

definition follows :: "aac \<Rightarrow> sql_dialect \<Rightarrow> sql_store \<Rightarrow> sql_env \<Rightarrow> sql_db \<Rightarrow> go_error option \<times> vault \<Rightarrow>
    go_error option \<times> sql_db \<Rightarrow> bool" where
  "follows A D st env db spec out \<longleftrightarrow> sql_inv A D st (snd out) \<and>
     ((fst out, sql_holds D st (snd out)) = spec \<or> fst out \<noteq> None \<and> env \<noteq> no_sql_faults \<and> snd out = db)"

lemma finish_outcome:
  assumes "sql_inv A D st db" "\<not> Commit_applied env" "fst spec \<noteq> None \<Longrightarrow> snd spec = sql_holds D st db"
    and "sql_inv A D st after \<and> (err, sql_holds D st after) = spec \<or> err \<noteq> None \<and> env \<noteq> no_sql_faults"
  shows "follows A D st env db spec (finish env db (err, after))"
proof (cases err)
  case None
  with assms show ?thesis
    by (cases "Call_fault env Commit") (auto simp: follows_def no_sql_faults_def)
next
  case (Some e)
  show ?thesis
  proof (cases "rollback_joined env False e = e")
    case True
    with assms(1,3,4) Some show ?thesis by (auto simp: follows_def)
  next
    case False
    then have "env \<noteq> no_sql_faults" by auto
    with assms(1) Some show ?thesis by (simp add: follows_def)
  qed
qed

lemma sql_put_outcome:
  assumes "sql_inv A D st db" "\<not> Commit_applied env"
  shows "follows A D st env db (spec_put A (Sql_trusted st) (sql_keep D) r (sql_holds D st db))
    (sql_Put A D st env r db)"
proof (cases "Call_fault env BeginTx")
  case None
  obtain err after where tx: "put_tx A D st env r db = (err, after)" by fastforce
  have "follows A D st env db (spec_put A (Sql_trusted st) (sql_keep D) r (sql_holds D st db))
      (finish env db (err, after))"
    by (rule finish_outcome [OF assms _ put_tx_outcome [OF assms(1) tx]])
      (metis option.exhaust prod.collapse spec_put_Some)
  with None tx show ?thesis by (simp add: sql_Put_def)
next
  case (Some e)
  then have "env \<noteq> no_sql_faults" by (auto simp: no_sql_faults_def)
  with Some assms(1) show ?thesis by (simp add: sql_Put_def follows_def)
qed

section \<open>Purging\<close>

lemma scan_purge_row: "scan_artifact D (k, purge_row row) = purge_artifact (scan_artifact D (k, row))"
  by (cases row) (simp add: scan_artifact_def purge_row_def purge_artifact_def Present_def Purged_def)

lemma row_check_purge: "row_check row \<Longrightarrow> row_check (purge_row row)"
  by (auto simp: row_check_def purge_row_def)

definition purge_rows :: "string \<times> string \<Rightarrow> ((string \<times> string \<times> string) \<times> artifact_row) list \<Rightarrow>
    ((string \<times> string \<times> string) \<times> artifact_row) list" where
  "purge_rows key rows = map (\<lambda>row. if of_capsule key row then (fst row, purge_row (snd row)) else row) rows"

lemma of_capsule_fst [simp]: "of_capsule key (fst row, x) = of_capsule key row"
  by (simp add: of_capsule_def)

lemma of_capsule_unique: "of_capsule key row \<Longrightarrow> of_capsule key' row \<longleftrightarrow> key' = key"
  by (auto simp: of_capsule_def)

lemma purge_rows_row:
  assumes "row \<in> set (purge_rows key rows)"
  obtains row0 where "row0 \<in> set rows" "fst row = fst row0" "row_check (snd row0) \<Longrightarrow> row_check (snd row)"
proof -
  from assms obtain row0 where "row0 \<in> set rows"
    "row = (if of_capsule key row0 then (fst row0, purge_row (snd row0)) else row0)"
    unfolding purge_rows_def set_map by blast
  then show thesis by (intro that [of row0]) (auto simp: row_check_purge split: if_splits)
qed

lemma select_purge_rows:
  "select_artifacts D key' (purge_rows key rows) =
     (if key' = key then map purge_artifact (select_artifacts D key rows) else select_artifacts D key' rows)"
proof -
  have "map (scan_artifact D) (filter (of_capsule key') (purge_rows key rows)) =
      (if key' = key then map purge_artifact (map (scan_artifact D) (filter (of_capsule key) rows))
       else map (scan_artifact D) (filter (of_capsule key') rows))"
    by (induction rows) (auto simp: purge_rows_def of_capsule_unique scan_purge_row)
  then show ?thesis
    using sort_key_map [of purge_artifact "map (scan_artifact D) (filter (of_capsule key) rows)"]
    by (simp add: select_artifacts_def)
qed

lemma update_purged_ok:
  assumes "Db_artifacts db = Some arts" "\<forall>row \<in> set arts. row_check (snd row)"
  shows "update_purged D key db = Inr (db\<lparr>Db_artifacts := Some (purge_rows key arts)\<rparr>)"
  using assms by (auto simp: update_purged_def purge_rows_def Let_def list_ex_iff row_check_purge)

lemma purge_rows_inv:
  assumes "sql_inv A D st db" "Db_capsules db = Some caps" "Db_artifacts db = Some arts"
    and "map_of caps (Sql_namespace st, cid) \<noteq> None"
  defines "db' \<equiv> db\<lparr>Db_artifacts := Some (purge_rows (Sql_namespace st, cid) arts)\<rparr>"
  shows "sql_inv A D st db'"
    "sql_holds D st db cid = Some r \<Longrightarrow> sql_holds D st db' = (sql_holds D st db)(cid \<mapsto> purge_record r)"
proof -
  have t': "Db_capsules db' = Some caps" "Db_artifacts db' = Some (purge_rows (Sql_namespace st, cid) arts)"
    using assms by simp_all
  have read: "read_rows D st no_sql_faults c db' =
      (case read_rows D st no_sql_faults c db of
         Inl err \<Rightarrow> Inl err
       | Inr (r, sha) \<Rightarrow> Inr (if c = cid then purge_record r else r, sha))" for c
    by (simp add: tables_read [OF t'] tables_read [OF assms(2,3)] select_purge_rows purge_record_def
        split: option.split)
  have "tables_ok st db'"
    unfolding tables_ok_def
  proof (intro exI conjI ballI)
    have old: "\<forall>row \<in> set arts. row_check (snd row)" "\<forall>row \<in> set arts. fst (fst row) = Sql_namespace st \<longrightarrow>
        (Sql_namespace st, fst (snd (fst row))) \<in> set (keys caps)"
      using assms(1-3) by (auto simp: sql_inv_def tables_ok_def)
    fix row assume "row \<in> set (purge_rows (Sql_namespace st, cid) arts)"
    then obtain row0 where row0: "row0 \<in> set arts" "fst row = fst row0" "row_check (snd row0) \<Longrightarrow> row_check (snd row)"
      by (rule purge_rows_row) blast
    with old(1) show "row_check (snd row)" by blast
    from row0 old(2) show "fst (fst row) = Sql_namespace st \<longrightarrow>
        (Sql_namespace st, fst (snd (fst row))) \<in> set (keys caps)" by metis
  qed (rule t')+
  moreover have "\<exists>p. admitted A (Sql_trusted st) p \<and> Record_CapsuleID p = c \<and> r = sql_keep D p \<and> StorageChecksum p = Inr sha"
    if new: "read_rows D st no_sql_faults c db' = Inr (r, sha)" for c r sha
  proof -
    obtain q where q: "read_rows D st no_sql_faults c db = Inr (q, sha)" "r = (if c = cid then purge_record q else q)"
      using new by (auto simp: read split: sum.splits)
    then obtain p where p: "admitted A (Sql_trusted st) p" "Record_CapsuleID p = c" "q = sql_keep D p" "StorageChecksum p = Inr sha"
      using assms(1) unfolding sql_inv_def by blast
    show ?thesis
    proof (cases "c = cid")
      case True
      with p q(2) admitted_purge [OF p(1)] show ?thesis
        by (intro exI [of _ "purge_record p"]) (simp add: purge_keep)
    next
      case False
      with p q(2) show ?thesis by auto
    qed
  qed
  ultimately show "sql_inv A D st db'" using assms(1) by (simp add: sql_inv_def)
  show "sql_holds D st db cid = Some r \<Longrightarrow> sql_holds D st db' = (sql_holds D st db)(cid \<mapsto> purge_record r)"
    by (rule ext) (auto simp: sql_holds_def read split: sum.splits)
qed

lemma sql_purge_outcome:
  assumes "sql_inv A D st db" "\<not> Commit_applied env"
  shows "follows A D st env db (spec_purge cid (sql_holds D st db)) (sql_Purge D st env cid db)"
proof (cases "hexDigestPattern cid")
  case False
  with assms(1) show ?thesis by (simp add: sql_Purge_def follows_def spec_purge_def)
next
  case id: True
  from assms(1) obtain caps arts where t: "Db_capsules db = Some caps" "Db_artifacts db = Some arts"
    and check: "\<forall>row \<in> set arts. row_check (snd row)" by (auto simp: sql_inv_def tables_ok_def)
  let ?key = "(Sql_namespace st, cid)"
  have held: "sql_holds D st db cid = None \<longleftrightarrow> map_of caps ?key = None"
    by (simp add: sql_holds_def tables_read [OF t] split: option.split)
  show ?thesis
  proof (cases "Call_fault env BeginTx")
    case (Some e)
    then have "env \<noteq> no_sql_faults" by (auto simp: no_sql_faults_def)
    with Some id assms(1) show ?thesis by (simp add: sql_Purge_def follows_def)
  next
    case None
    define body where "body = (case call env SelectCapsule (Inr caps) of
        Inl err \<Rightarrow> (Some err, db)
      | Inr rows \<Rightarrow>
          if \<not> has_key rows ?key then (Some (Err ErrNotFound), db)
          else (case call env UpdateArtifacts (Inr (db\<lparr>Db_artifacts := Some (purge_rows ?key arts)\<rparr>)) of
              Inl err \<Rightarrow> (Some err, db)
            | Inr db' \<Rightarrow> (None, db')))"
    have run: "sql_Purge D st env cid db = finish env db (fst body, snd body)"
      using id None t
      by (simp add: sql_Purge_def body_def update_purged_ok [OF t(2) check] cong: sum.case_cong if_cong)
    have "follows A D st env db (spec_purge cid (sql_holds D st db)) (finish env db (fst body, snd body))"
    proof (rule finish_outcome [OF assms])
      show "fst (spec_purge cid (sql_holds D st db)) \<noteq> None \<Longrightarrow>
          snd (spec_purge cid (sql_holds D st db)) = sql_holds D st db"
        by (auto simp: spec_purge_def split: option.splits)
      show "sql_inv A D st (snd body) \<and> (fst body, sql_holds D st (snd body)) = spec_purge cid (sql_holds D st db) \<or>
          fst body \<noteq> None \<and> env \<noteq> no_sql_faults"
      proof (cases "Call_fault env SelectCapsule = None \<and> Call_fault env UpdateArtifacts = None")
        case True
        show ?thesis
        proof (cases "map_of caps ?key")
          case none: None
          with True held id assms(1) show ?thesis
            by (auto simp: body_def call_def spec_purge_def map_of_eq_None_iff)
        next
          case (Some row)
          then obtain r where r: "sql_holds D st db cid = Some r" using held by auto
          have "map_of caps ?key \<noteq> None" using Some by simp
          note new = purge_rows_inv [OF assms(1) t this]
          have "body = (None, db\<lparr>Db_artifacts := Some (purge_rows ?key arts)\<rparr>)"
            using True Some by (simp add: body_def call_def has_key_def del: has_key_iff)
          with new(1) new(2) [OF r] id r show ?thesis by (simp add: spec_purge_def)
        qed
      next
        case False
        then have "env \<noteq> no_sql_faults" by (auto simp: no_sql_faults_def)
        moreover have "fst body \<noteq> None" using False by (auto simp: body_def call_def split: option.split)
        ultimately show ?thesis by simp
      qed
    qed
    with run show ?thesis by simp
  qed
qed

text \<open>
  What an erasure does to the rows of a table: the originals of the capsule that are present
  become tombstones, and nothing else changes.
\<close>

definition erased :: "string \<times> string \<Rightarrow> ((string \<times> string \<times> string) \<times> artifact_row) list \<Rightarrow>
    ((string \<times> string \<times> string) \<times> artifact_row) list \<Rightarrow> bool" where
  "erased key rows rows' \<longleftrightarrow>
     list_all2 (\<lambda>row row'. fst row' = fst row \<and>
       snd row' =
         (if of_capsule key row \<and> Row_state (snd row) = ''present''
          then (snd row)\<lparr>Row_content := None, Row_state := ''purged'', Row_purged := True\<rparr> else snd row)) rows rows'"

lemma erased_purge_rows: "erased key rows (purge_rows key rows)"
  by (auto simp: erased_def purge_rows_def purge_row_def list_all2_conv_all_nth)

text \<open>Where the rows pass the checks of the schema, no content is left.\<close>

lemma erased_content:
  assumes "erased key rows rows'" "\<forall>row \<in> set rows. of_capsule key row \<longrightarrow> row_check (snd row)"
    and "row' \<in> set rows'" "of_capsule key row'"
  shows "Row_content (snd row') = None"
proof -
  from assms(3) obtain n where n: "n < length rows'" "row' = rows' ! n" by (auto simp: in_set_conv_nth)
  define row where "row = rows ! n"
  have row: "row \<in> set rows" "fst row' = fst row"
    "snd row' = (if of_capsule key row \<and> Row_state (snd row) = ''present''
       then (snd row)\<lparr>Row_content := None, Row_state := ''purged'', Row_purged := True\<rparr> else snd row)"
    using assms(1) n by (simp_all add: row_def erased_def list_all2_conv_all_nth)
  moreover have of_key: "of_capsule key row" using assms(4) row(2) by (simp add: of_capsule_def)
  moreover have "row_check (snd row)" using assms(2) row(1) of_key by blast
  ultimately show ?thesis by (auto simp: row_check_def)
qed

lemma sql_Purge_effect:
  assumes "sql_Purge D st env cid db = (None, db')"
  shows "\<exists>arts arts'. Db_artifacts db = Some arts \<and> Db_artifacts db' = Some arts' \<and>
    Db_capsules db' = Db_capsules db \<and> erased (Sql_namespace st, cid) arts arts'"
proof -
  let ?key = "(Sql_namespace st, cid)"
  from assms have "update_purged D ?key db = Inr db'"
    by (auto simp: sql_Purge_def finish_def finishRollback_def call_def split: if_splits option.splits sum.splits)
  then obtain arts where "Db_artifacts db = Some arts" "db' = db\<lparr>Db_artifacts := Some (purge_rows ?key arts)\<rparr>"
    by (auto simp: update_purged_def purge_rows_def Let_def split: option.splits if_splits)
  with erased_purge_rows [of ?key arts] show ?thesis by simp
qed

lemma sql_inv_row_check:
  "sql_inv A D st db \<Longrightarrow> Db_artifacts db = Some arts \<Longrightarrow> row \<in> set arts \<Longrightarrow> row_check (snd row)"
  by (auto simp: sql_inv_def tables_ok_def)

text \<open>Damaged rows of others do not stand in the way: only the rows updated are checked.\<close>

lemma sql_Purge_succeeds:
  assumes "hexDigestPattern cid" "Db_capsules db = Some caps" "map_of caps (Sql_namespace st, cid) \<noteq> None"
    and "Db_artifacts db = Some arts"
    and "\<forall>row \<in> set arts. of_capsule (Sql_namespace st, cid) row \<and> Row_state (snd row) = ''present'' \<longrightarrow>
      length (Row_content_sha (snd row)) = 64"
  shows "\<exists>db'. sql_Purge D st no_sql_faults cid db = (None, db')"
proof -
  have "update_purged D (Sql_namespace st, cid) db \<noteq> Inl err" for err
    using assms(4,5) by (auto simp: update_purged_def Let_def list_ex_iff purge_row_def row_check_def)
  then obtain db' where "update_purged D (Sql_namespace st, cid) db = Inr db'"
    by (cases "update_purged D (Sql_namespace st, cid) db") auto
  moreover have "has_key caps (Sql_namespace st, cid)" using assms(3) by (simp add: has_key_def del: has_key_iff)
  ultimately show ?thesis using assms(1,2) by (simp add: sql_Purge_def call_def no_sql_faults_def finish_def finishRollback_def)
qed

section \<open>Namespaces\<close>

text \<open>
  A table row belongs to one namespace. \<open>foreign ns before after\<close>: the two states of the tables
  have the same rows outside the namespace \<open>ns\<close>, in the same order.
\<close>

definition others :: "string \<Rightarrow> ((string \<times> 'k) \<times> 'r) list \<Rightarrow> ((string \<times> 'k) \<times> 'r) list" where
  "others ns rows = filter (\<lambda>row. fst (fst row) \<noteq> ns) rows"

definition foreign :: "string \<Rightarrow> sql_db \<Rightarrow> sql_db \<Rightarrow> bool" where
  "foreign ns before after \<longleftrightarrow>
     map_option (others ns) (Db_capsules before) = map_option (others ns) (Db_capsules after) \<and>
     map_option (others ns) (Db_artifacts before) = map_option (others ns) (Db_artifacts after)"

lemma others_append [simp]: "others ns (rows @ [((ns, k), r)]) = others ns rows"
  by (simp add: others_def)

lemma foreign_refl [simp]: "foreign ns db db"
  by (simp add: foreign_def)

lemma foreign_trans: "foreign ns a b \<Longrightarrow> foreign ns b c \<Longrightarrow> foreign ns a c"
  by (simp add: foreign_def)

lemma foreign_insert_artifacts:
  "insert_artifacts D st env cid n as db = (err, db') \<Longrightarrow> foreign (Sql_namespace st) db db'"
proof (induction as arbitrary: n db)
  case (Cons a as)
  have "insert_artifact D (Sql_namespace st, cid, Artifact_Name a) (row_of a) db = Inr t \<Longrightarrow>
      foreign (Sql_namespace st) db t" for t
    by (auto simp: insert_artifact_def foreign_def split: option.splits if_splits)
  with Cons show ?case
    by (auto simp: call_def split: option.splits sum.splits intro: foreign_trans)
qed simp

lemma foreign_put_tx:
  assumes "put_tx A D st env r db = (err, db')"
  shows "foreign (Sql_namespace st) db db'"
proof -
  have "insert_capsule D (Sql_namespace st, cid) row db = Inr t \<Longrightarrow> foreign (Sql_namespace st) db t" for cid row t
    by (auto simp: insert_capsule_def foreign_def split: option.splits if_splits)
  with assms foreign_insert_artifacts show ?thesis
    by (fastforce simp: put_tx_def call_def split: sum.splits option.splits if_splits intro: foreign_trans)
qed

lemma foreign_finish:
  "foreign ns db (snd res) \<Longrightarrow> finish env db res = (err, db') \<Longrightarrow> foreign ns db db'"
  by (cases res; cases "fst res") (auto split: option.splits if_splits)

lemma foreign_Put: "sql_Put A D st env r db = (err, db') \<Longrightarrow> foreign (Sql_namespace st) db db'"
  using foreign_put_tx [of A D st env r db]
  by (cases "put_tx A D st env r db") (auto simp: sql_Put_def split: option.splits intro: foreign_finish [rotated])

lemma others_purge:
  "others ns (map (\<lambda>row. if of_capsule (ns, cid) row then (fst row, purge_row (snd row)) else row) rows) = others ns rows"
  by (induction rows) (auto simp: others_def of_capsule_def)

lemma foreign_Purge:
  assumes "sql_Purge D st env cid db = (err, db')"
  shows "foreign (Sql_namespace st) db db'"
proof -
  have "update_purged D (ns, cid) db = Inr t \<Longrightarrow> foreign ns db t" for ns t
    by (auto simp: update_purged_def foreign_def Let_def others_purge split: option.splits if_splits)
  with assms show ?thesis
    by (auto simp: sql_Purge_def call_def split: if_splits option.splits sum.splits intro: foreign_finish [rotated])
qed

text \<open>What a store of another namespace reads depends on the rows of its namespace only.\<close>

lemma others_map_of: "ns' \<noteq> ns \<Longrightarrow> map_of (others ns rows) (ns', k) = map_of rows (ns', k)"
  by (induction rows) (auto simp: others_def)

lemma others_select: "ns' \<noteq> ns \<Longrightarrow> select_artifacts D (ns', cid) (others ns rows) = select_artifacts D (ns', cid) rows"
proof -
  assume "ns' \<noteq> ns"
  then have "filter (of_capsule (ns', cid)) (others ns rows) = filter (of_capsule (ns', cid)) rows"
    by (induction rows) (auto simp: others_def of_capsule_def)
  then show ?thesis by (simp add: select_artifacts_def)
qed

lemma foreign_read:
  assumes "foreign ns before after" "Sql_namespace st \<noteq> ns"
  shows "read_rows D st env cid after = read_rows D st env cid before"
proof -
  have "read_rows D st env cid db = read_rows D st env cid
      (db\<lparr>Db_capsules := map_option (others ns) (Db_capsules db), Db_artifacts := map_option (others ns) (Db_artifacts db)\<rparr>)" for db
    using assms(2)
    by (cases "Db_capsules db"; cases "Db_artifacts db")
      (auto simp: read_rows_def call_def others_map_of others_select split: option.split)
  from this [of before] this [of after] assms(1) show ?thesis
    by (cases before; cases after) (simp add: foreign_def)
qed

lemma foreign_Get:
  "foreign ns before after \<Longrightarrow> Sql_namespace st \<noteq> ns \<Longrightarrow> sql_Get A D st env cid after = sql_Get A D st env cid before"
  using foreign_read [of ns before after st D env cid] by (simp add: sql_Get_def sql_read_def cong: option.case_cong)

lemma foreign_run:
  "store_run (sql_Put A D st) (sql_Purge D st) clean db db' \<Longrightarrow> foreign (Sql_namespace st) db db'"
  by (erule run_relation) (auto intro: foreign_Put foreign_Purge foreign_trans)

section \<open>The contract\<close>

interpretation sql: live_store "sql_Put A D st" "sql_Get A D st" "sql_Purge D st" "sql_holds D st" "sql_inv A D st"
  "\<lambda>env. \<not> Commit_applied env" "sql_keep D" A "Sql_trusted st" "\<lambda>env. env = no_sql_faults" for A D st
proof unfold_locales
  fix db db' :: sql_db and env err
  assume inv: "sql_inv A D st db"
  show "\<not> Commit_applied env \<Longrightarrow> sql_Put A D st env r db = (err, db') \<Longrightarrow> sql_inv A D st db' \<and>
      ((err, sql_holds D st db') = spec_put A (Sql_trusted st) (sql_keep D) r (sql_holds D st db) \<or>
       err \<noteq> None \<and> sql_holds D st db' = sql_holds D st db)" for r
    using sql_put_outcome [OF inv, of env r] by (auto simp: follows_def)
  show "sql_Get A D st env cid db = Inr r \<Longrightarrow> spec_get A (Sql_trusted st) cid (sql_holds D st db) = Inr r" for cid r
    using sql_get_outcome [OF inv, of env cid] by auto
  show "\<not> Commit_applied env \<Longrightarrow> sql_Purge D st env cid db = (err, db') \<Longrightarrow> sql_inv A D st db' \<and>
      ((err, sql_holds D st db') = spec_purge cid (sql_holds D st db) \<or>
       err \<noteq> None \<and> sql_holds D st db' = sql_holds D st db)" for cid
    using sql_purge_outcome [OF inv, of env cid] by (auto simp: follows_def)
  show "env = no_sql_faults \<Longrightarrow> sql_Put A D st env r db = (err, db') \<Longrightarrow>
      (err, sql_holds D st db') = spec_put A (Sql_trusted st) (sql_keep D) r (sql_holds D st db)" for r
    using sql_put_outcome [OF inv, of env r] by (auto simp: follows_def no_sql_faults_def)
  show "env = no_sql_faults \<Longrightarrow> sql_Get A D st env cid db = spec_get A (Sql_trusted st) cid (sql_holds D st db)" for cid
    using sql_get_outcome [OF inv, of env cid] by auto
  show "env = no_sql_faults \<Longrightarrow> sql_Purge D st env cid db = (err, db') \<Longrightarrow>
      (err, sql_holds D st db') = spec_purge cid (sql_holds D st db)" for cid
    using sql_purge_outcome [OF inv, of env cid] by (auto simp: follows_def no_sql_faults_def)
next
  show "admitted A (Sql_trusted st) p \<Longrightarrow> StorageChecksum (sql_keep D p) = StorageChecksum p" for p
    by (rule checksum_keep)
  show "env = no_sql_faults \<Longrightarrow> \<not> Commit_applied env" for env by (simp add: no_sql_faults_def)
qed

lemma sqlite_env_ok: "(\<forall>cid. \<not> Envelope_OK (envelope_Verify A cid '''')) \<Longrightarrow> sql_env_ok A (sqlite_dialect blob)"
  by (simp add: sql_env_ok_def sqlite_dialect_def sqlite_constraint_def)

lemma mysql_env_ok: "(\<forall>cid. \<not> Envelope_OK (envelope_Verify A cid '''')) \<Longrightarrow> sql_env_ok A (mysql_dialect blob)"
  by (simp add: sql_env_ok_def mysql_dialect_def mysql_duplicate_def)

text \<open>After \<open>Init\<close> on a fresh database the invariant holds, and nothing is held.\<close>

lemma sql_Init_inv:
  assumes "sql_env_ok A D" "sql_Init no_sql_faults \<lparr>Db_capsules = None, Db_artifacts = None\<rparr> = (err, db)"
  shows "err = None" "sql_inv A D st db" "sql_holds D st db cid = None"
  using assms
  by (auto simp: sql_Init_def no_sql_faults_def create_def Let_def sql_inv_def tables_ok_def sql_holds_def
      read_rows_def call_def)

text \<open>\<open>Init\<close> on tables that exist changes nothing.\<close>

lemma sql_Init_again:
  assumes "Db_capsules db = Some caps" "Db_artifacts db = Some arts"
  shows "snd (sql_Init env db) = db"
  using assms by (cases db) (simp add: sql_Init_def create_def Let_def split: option.split)

end
