(* ===== verification/MysqlFacts.thy ===== *)
theory MysqlFacts
  imports MysqlStore SqlFacts
begin

text \<open>
  The MySQL store keeps the contract. Each of its transactions is the one of the SQLite package
  in the dialect of MySQL, with the failures of the locking queries in place of those of the
  plain ones, so the invariant and the refinement carry over; and the retries of \<open>Put\<close> are
  invisible and bounded.
\<close>

section \<open>The same transactions\<close>

definition as_sql :: "mysql_store \<Rightarrow> sql_store" where
  "as_sql s = \<lparr>Sql_namespace = Mysql_namespace s, Sql_trusted = Mysql_trusted s\<rparr>"

text \<open>The environment as a transaction sees it that locks what it reads.\<close>

definition locking :: "bool \<Rightarrow> sql_env \<Rightarrow> sql_env" where
  "locking lock env =
     (if lock
      then env\<lparr>Call_fault := (Call_fault env)
        (SelectCapsule := Call_fault env LockCapsule, SelectArtifacts := Call_fault env LockArtifacts)\<rparr>
      else env)"

lemma as_sql_simps [simp]: "Sql_namespace (as_sql s) = Mysql_namespace s" "Sql_trusted (as_sql s) = Mysql_trusted s"
  by (simp_all add: as_sql_def)

lemma locking_simps [simp]:
  "locking False env = env" "Commit_applied (locking lock env) = Commit_applied env"
  "Call_fault (locking lock env) SelectCapsule = Call_fault env (if lock then LockCapsule else SelectCapsule)"
  "Call_fault (locking lock env) SelectArtifacts = Call_fault env (if lock then LockArtifacts else SelectArtifacts)"
  "c \<noteq> SelectCapsule \<Longrightarrow> c \<noteq> SelectArtifacts \<Longrightarrow> Call_fault (locking lock env) c = Call_fault env c"
  "locking lock no_sql_faults = no_sql_faults"
  by (simp_all add: locking_def no_sql_faults_def fun_eq_iff)

lemma call_locking [simp]:
  "call (locking lock env) SelectCapsule x = call env (if lock then LockCapsule else SelectCapsule) x"
  "call (locking lock env) SelectArtifacts x = call env (if lock then LockArtifacts else SelectArtifacts) x"
  "c \<noteq> SelectCapsule \<Longrightarrow> c \<noteq> SelectArtifacts \<Longrightarrow> call (locking lock env) c x = call env c x"
  by (simp_all add: call_def)

lemma rollback_locking [simp]:
  "rollback_joined (locking lock env) ended e = rollback_joined env ended e"
  "finishRollback (locking lock env) ended err = finishRollback env ended err"
  by (simp_all add: finishRollback_def rollback_joined_def tx_Rollback_def split: option.split)

text \<open>The simplifier is to look into the branches of the transactions.\<close>

lemmas branches = sum.case_cong option.case_cong if_cong prod.case_cong

lemma dialect_duplicate [simp]: "Is_duplicate (mysql_dialect blob) = mysql_duplicate"
  by (simp add: mysql_dialect_def)

lemma mysql_rows_eq:
  "mysql_rows blob s env cid lock db = read_rows (mysql_dialect blob) (as_sql s) (locking lock env) cid db"
  by (simp add: mysql_rows_def read_rows_def cong: branches)

lemma mysql_read_eq:
  "mysql_read A blob s env cid lock db = sql_read A (mysql_dialect blob) (as_sql s) (locking lock env) cid db"
proof -
  have "mysql_check A s r sha = check_read A (as_sql s) r sha" for r sha
    by (simp add: mysql_check_def check_read_def cong: branches)
  then show ?thesis by (simp add: mysql_read_def sql_read_def mysql_rows_eq cong: branches)
qed

text \<open>The two versions of \<open>finishRollback\<close> agree where they are used.\<close>

lemma mysql_finishRollback_eq:
  "ended \<or> err \<noteq> None \<Longrightarrow> mysql_finishRollback env ended err = finishRollback env ended err"
  by (auto simp: mysql_finishRollback_def finishRollback_def rollback_joined_def tx_Rollback_def
      split: option.split)

lemma mysql_finish_eq: "mysql_finish env db res = finish (locking lock env) db res"
  by (cases res; cases "fst res") (simp_all add: mysql_finish_def finish_def mysql_finishRollback_eq cong: branches)

lemma mysql_Get_eq: "mysql_Get A blob s env cid db = sql_Get A (mysql_dialect blob) (as_sql s) env cid db"
  by (simp add: mysql_Get_def sql_Get_def mysql_read_eq mysql_finishRollback_eq finishRollback_def
      split: option.split sum.split)

lemma mysql_insert_eq:
  "mysql_insert_artifacts blob s env cid n as db =
     insert_artifacts (mysql_dialect blob) (as_sql s) (locking lock env) cid n as db"
  by (induction as arbitrary: n db) (simp_all cong: branches)

lemma mysql_put_tx_eq:
  "mysql_put_tx A blob s env r db = put_tx A (mysql_dialect blob) (as_sql s) (locking True env) r db"
proof -
  have "(mysql_duplicate_put A blob s env cid hash db, db) =
      (case sql_read A (mysql_dialect blob) (as_sql s) (locking True env) cid db of
         Inl readErr \<Rightarrow> (Some readErr, db)
       | Inr old \<Rightarrow>
           (case StorageChecksum old of
              Inl hashErr \<Rightarrow> (Some hashErr, db)
            | Inr oldHash \<Rightarrow>
                if oldHash \<noteq> hash then (Some (Err ErrConflict), db)
                else if any_purged old then (Some (Err ErrPurged), db)
                else (None, db)))" for cid hash
    by (simp add: mysql_duplicate_put_def mysql_read_eq split: sum.split)
  then show ?thesis
    by (simp add: mysql_put_tx_def put_tx_def mysql_insert_eq [of blob s env _ _ _ _ True] cong: branches)
qed

lemma putOnce_eq: "putOnce A blob s env r db = sql_Put A (mysql_dialect blob) (as_sql s) (locking True env) r db"
  by (simp add: putOnce_def sql_Put_def mysql_put_tx_eq mysql_finish_eq [of env _ _ True] cong: branches)

lemma mysql_Purge_eq: "mysql_Purge blob s env cid db = sql_Purge (mysql_dialect blob) (as_sql s) (locking True env) cid db"
  by (simp add: mysql_Purge_def sql_Purge_def mysql_finish_eq [of env _ _ True] cong: branches)

lemma mysql_Purge_effect:
  "mysql_Purge blob m env cid db = (None, db') \<Longrightarrow>
     \<exists>arts arts'. Db_artifacts db = Some arts \<and> Db_artifacts db' = Some arts' \<and>
       Db_capsules db' = Db_capsules db \<and> erased (Mysql_namespace m, cid) arts arts'"
  unfolding mysql_Purge_eq by (drule sql_Purge_effect) simp

lemma mysql_Init_eq: "mysql_Init env db = sql_Init env db"
  by (simp add: mysql_Init_def sql_Init_def exec_create_def Let_def split: option.split)

abbreviation mysql_inv :: "aac \<Rightarrow> (bytes \<Rightarrow> bytes option) \<Rightarrow> mysql_store \<Rightarrow> sql_db \<Rightarrow> bool" where
  "mysql_inv A blob s \<equiv> sql_inv A (mysql_dialect blob) (as_sql s)"

abbreviation mysql_holds :: "(bytes \<Rightarrow> bytes option) \<Rightarrow> mysql_store \<Rightarrow> sql_db \<Rightarrow> vault" where
  "mysql_holds blob s \<equiv> sql_holds (mysql_dialect blob) (as_sql s)"

section \<open>Refusals are no deadlocks\<close>

text \<open>No error of the checks on a record carries the number of a driver error.\<close>

lemma prepare_artifacts_Inl: "prepare_artifacts n as = Inl e \<Longrightarrow> driver_number e = None"
  by (induction as arbitrary: n) (auto simp: prepare_artifact_def Let_def split: if_splits sum.splits prod.splits)

lemma Prepare_Inl: "Prepare r = Inl e \<Longrightarrow> driver_number e = None"
  by (auto simp: Prepare_def prepare_artifacts_Inl split: if_splits sum.splits)

lemma check_artifacts_Inl: "check_artifacts A m results as = Inl e \<Longrightarrow> driver_number e = None"
proof (induction as arbitrary: results)
  case (Cons a as)
  have digest: "digestAt m f = Inl x \<Longrightarrow> driver_number x = None" for f x
    by (auto simp: digestAt_def split: if_splits option.splits json.splits)
  have state: "check_state A d b = Inl x \<Longrightarrow> driver_number x = None" for d b x
    by (auto simp: check_state_def Let_def split: if_splits option.splits sum.splits)
  have "check_artifact A m results a = Inl x \<Longrightarrow> driver_number x = None" for x
    using digest state by (auto simp: check_artifact_def split: if_splits sum.splits)
  with Cons show ?case by (auto split: sum.splits)
qed simp

lemma Verify_Inl: "Verify A r trusted = Inl e \<Longrightarrow> driver_number e = None"
proof -
  have "VerifyCapsule A data = (v, None) \<Longrightarrow> \<exists>m. DecodePayload data = Inr m" for data v
    by (auto simp: VerifyCapsule_ok_iff)
  then show "Verify A r trusted = Inl e \<Longrightarrow> driver_number e = None"
    using check_artifacts_Inl by (fastforce simp: Verify_def split: if_splits prod.splits sum.splits)
qed

lemma StorageChecksum_Inl: "StorageChecksum r = Inl e \<Longrightarrow> driver_number e = None"
  by (auto simp: StorageChecksum_def marshalRecord_def split: if_splits sum.splits)

lemma spec_put_not_deadlock: "spec_put A trusted keep r V = (err, V') \<Longrightarrow> \<not> deadlock err"
  by (auto simp: deadlock_def spec_put_def admit_def readmit_def
      dest!: Prepare_Inl Verify_Inl StorageChecksum_Inl split: sum.splits option.splits if_splits)

section \<open>Retries\<close>

text \<open>
  A property of all attempts is one of the retried call: if every run that starts in a good
  state ends in a good state with an outcome that is final or leaves the contents alone.
\<close>

lemma retry_loop_outcome:
  assumes run: "\<And>n t err t'. I t \<Longrightarrow> h t = h s \<Longrightarrow> run (Attempt_env R n) t = (err, t') \<Longrightarrow>
      I t' \<and> (Q err (h t') \<or> err \<noteq> None \<and> h t' = h s)"
    and quiet: "\<And>err. Q (Some err) (h t) \<Longrightarrow> h t = h s"
    and "I s0" "h s0 = h s" "retry_loop R run left s0 = (err, s')"
    and keep: "\<And>err V. Q (Some err) V \<Longrightarrow> V = h s"
  shows "I s' \<and> (Q err (h s') \<or> err \<noteq> None \<and> h s' = h s)"
  using assms(3,4,5)
proof (induction left arbitrary: s0)
  case (0 s0)
  then show ?case
    using run [of s0 4] by (auto simp: retry_loop.simps [of R run 0] split: option.splits prod.splits)
next
  case (Suc left)
  obtain e t where t: "run (Attempt_env R (4 - Suc left)) s0 = (e, t)" by fastforce
  have step: "I t \<and> (Q e (h t) \<or> e \<noteq> None \<and> h t = h s)" using run [OF Suc.prems(1,2) t] .
  show ?case
  proof (cases "Ctx_err R (4 - Suc left) = None \<and> deadlock e \<and> Ctx_done R (4 - Suc left) = None")
    case True
    then obtain x where "e = Some x" by (auto simp: deadlock_def split: option.splits)
    with step keep have "h t = h s" by blast
    moreover have "retry_loop R run left t = (err, s')"
      using Suc.prems(3) t True by (simp add: retry_loop.simps [of R run "Suc left"])
    ultimately show ?thesis using Suc.IH step by blast
  next
    case False
    have "e = Some x \<Longrightarrow> h t = h s" for x using step keep by blast
    with False step Suc.prems t show ?thesis
      by (auto simp: retry_loop.simps [of R run "Suc left"] deadlock_def split: option.splits if_splits)
  qed
qed

text \<open>
  The answer is that of the first attempt that does not lose a deadlock, or of the fifth.
\<close>

lemma retry_loop_answer:
  assumes "\<forall>n. Ctx_err R n = None \<and> Ctx_done R n = None" "k \<le> left" "left \<le> 4"
    and "\<forall>n < k. \<exists>e. run (Attempt_env R (4 - left + n)) s = (Some e, s) \<and> deadlock (Some e)"
    and "run (Attempt_env R (4 - left + k)) s = (err, s')" "deadlock err \<Longrightarrow> k = left"
  shows "retry_loop R run left s = (err, s')"
  using assms(2-6)
proof (induction k arbitrary: left)
  case 0
  with assms(1) show ?case by (simp add: retry_loop.simps [of R run left])
next
  case (Suc k)
  then obtain m where m: "left = Suc m" "Suc (4 - Suc m) = 4 - m" by (cases left) auto
  from Suc.prems(3) obtain e where e: "run (Attempt_env R (4 - left)) s = (Some e, s)" "deadlock (Some e)"
    by (auto dest: spec [of _ 0])
  have "retry_loop R run m s = (err, s')"
  proof (rule Suc.IH)
    show "\<forall>n < k. \<exists>e. run (Attempt_env R (4 - m + n)) s = (Some e, s) \<and> deadlock (Some e)"
    proof (intro allI impI)
      fix n assume "n < k"
      with Suc.prems(3) have "\<exists>e. run (Attempt_env R (4 - left + Suc n)) s = (Some e, s) \<and> deadlock (Some e)"
        by blast
      moreover have "4 - left + Suc n = 4 - m + n" using m by linarith
      ultimately show "\<exists>e. run (Attempt_env R (4 - m + n)) s = (Some e, s) \<and> deadlock (Some e)" by metis
    qed
    have "4 - left + Suc k = 4 - m + k" using m by linarith
    then show "run (Attempt_env R (4 - m + k)) s = (err, s')" using Suc.prems(4) by metis
  qed (use Suc.prems m in auto)
  with assms(1) e m(1) show ?case by (simp add: retry_loop.simps [of R run "Suc m"])
qed

lemma mysql_put_outcome:
  fixes s blob
  defines "D \<equiv> mysql_dialect blob" and "st \<equiv> as_sql s"
  assumes "sql_inv A D st db" "\<forall>n. \<not> Commit_applied (Attempt_env R n)" "mysql_Put A blob s R r db = (err, db')"
  shows "sql_inv A D st db' \<and>
    ((err, sql_holds D st db') = spec_put A (Sql_trusted st) (sql_keep D) r (sql_holds D st db) \<or>
     err \<noteq> None \<and> sql_holds D st db' = sql_holds D st db)"
proof (rule retry_loop_outcome [where run = "\<lambda>env. putOnce A blob s env r" and h = "sql_holds D st"])
  show "retry_loop R (\<lambda>env. putOnce A blob s env r) 4 db = (err, db')"
    using assms(5) by (simp add: mysql_Put_def retryDeadlock_def)
  show "sql_inv A D st t' \<and>
      ((e, sql_holds D st t') = spec_put A (Sql_trusted st) (sql_keep D) r (sql_holds D st db) \<or>
       e \<noteq> None \<and> sql_holds D st t' = sql_holds D st db)"
    if "sql_inv A D st t" "sql_holds D st t = sql_holds D st db" "putOnce A blob s (Attempt_env R n) r t = (e, t')"
    for n t e t'
    using sql.put_refines [OF that(1) _ that(3) [unfolded putOnce_eq, folded D_def st_def]] assms(4) that(2) by simp
qed (use assms(3) spec_put_Some in \<open>metis+\<close>)

lemma retry_loop_relation:
  assumes "\<And>env s t err. run env s = (err, t) \<Longrightarrow> P s t" "\<And>s. P s s" "\<And>s t u. P s t \<Longrightarrow> P t u \<Longrightarrow> P s u"
  shows "retry_loop R run left s = (err, t) \<Longrightarrow> P s t"
proof (induction left arbitrary: s)
  case 0
  then show ?case using assms(1,2) by (auto simp: retry_loop.simps [of R run 0] split: option.splits prod.splits)
next
  case (Suc left)
  obtain e u where u: "run (Attempt_env R (4 - Suc left)) s = (e, u)" by (rule prod.exhaust)
  from Suc.prems u have "t = s \<or> t = u \<or> retry_loop R run left u = (err, t)"
    by (auto simp: retry_loop.simps [of R run "Suc left"] split: option.splits if_splits)
  with Suc.IH assms(1) [OF u] assms(2,3) show ?case by blast
qed

lemma foreign_mysql_run:
  assumes "store_run (mysql_Put A blob s) (\<lambda>R. mysql_Purge blob s (Attempt_env R 0)) clean db db'"
  shows "foreign (Mysql_namespace s) db db'"
proof -
  have once: "foreign (Mysql_namespace s) t u" if "putOnce A blob s env r t = (err, u)" for env r t err u
    using foreign_Put [of A "mysql_dialect blob" "as_sql s"] that by (simp add: putOnce_eq)
  have put: "foreign (Mysql_namespace s) t u" if "mysql_Put A blob s R r t = (err, u)" for R r t err u
    using that unfolding mysql_Put_def retryDeadlock_def
    by (rule retry_loop_relation [rotated 3]) (erule once, rule foreign_refl, erule (1) foreign_trans)
  have purge: "foreign (Mysql_namespace s) t u" if "mysql_Purge blob s env cid t = (err, u)" for env cid t err u
    using foreign_Purge [of "mysql_dialect blob" "as_sql s"] that by (simp add: mysql_Purge_eq)
  show ?thesis
    by (rule run_relation [OF assms]) (erule put, erule purge, rule foreign_refl, erule (1) foreign_trans)
qed

text \<open>The MySQL store: its \<open>Put\<close> retries, its reads and purges run once.\<close>

interpretation mysql: store_contract "mysql_Put A blob s" "\<lambda>R. mysql_Get A blob s (Attempt_env R 0)"
  "\<lambda>R. mysql_Purge blob s (Attempt_env R 0)" "sql_holds (mysql_dialect blob) (as_sql s)"
  "sql_inv A (mysql_dialect blob) (as_sql s)"
  "\<lambda>R. \<forall>n. \<not> Commit_applied (Attempt_env R n)" "sql_keep (mysql_dialect blob)" A "Mysql_trusted s" for A blob s
proof unfold_locales
  fix db db' :: sql_db and R :: retry_env and err
  assume inv: "sql_inv A (mysql_dialect blob) (as_sql s) db"
  show "\<forall>n. \<not> Commit_applied (Attempt_env R n) \<Longrightarrow> mysql_Put A blob s R r db = (err, db') \<Longrightarrow>
      sql_inv A (mysql_dialect blob) (as_sql s) db' \<and>
      ((err, sql_holds (mysql_dialect blob) (as_sql s) db') =
         spec_put A (Mysql_trusted s) (sql_keep (mysql_dialect blob)) r (sql_holds (mysql_dialect blob) (as_sql s) db) \<or>
       err \<noteq> None \<and> sql_holds (mysql_dialect blob) (as_sql s) db' = sql_holds (mysql_dialect blob) (as_sql s) db)" for r
    using mysql_put_outcome [OF inv] by simp
  show "mysql_Get A blob s (Attempt_env R 0) cid db = Inr r \<Longrightarrow>
      spec_get A (Mysql_trusted s) cid (sql_holds (mysql_dialect blob) (as_sql s) db) = Inr r" for cid r
    unfolding mysql_Get_eq using sql.get_refines [OF inv] by simp
  show "\<forall>n. \<not> Commit_applied (Attempt_env R n) \<Longrightarrow> mysql_Purge blob s (Attempt_env R 0) cid db = (err, db') \<Longrightarrow>
      sql_inv A (mysql_dialect blob) (as_sql s) db' \<and>
      ((err, sql_holds (mysql_dialect blob) (as_sql s) db') = spec_purge cid (sql_holds (mysql_dialect blob) (as_sql s) db) \<or>
       err \<noteq> None \<and> sql_holds (mysql_dialect blob) (as_sql s) db' = sql_holds (mysql_dialect blob) (as_sql s) db)" for cid
    unfolding mysql_Purge_eq by (rule sql.purge_refines [OF inv]) simp_all
qed (rule checksum_keep)

text \<open>Without faults in an attempt that no deadlock is lost in, \<open>Put\<close> is the specification.\<close>

lemma mysql_put_settles:
  assumes "mysql_inv A blob s db" and "\<forall>n. Ctx_err R n = None \<and> Ctx_done R n = None" and "k \<le> 4"
    and "\<forall>n < k. \<exists>e. putOnce A blob s (Attempt_env R n) r db = (Some e, db) \<and> deadlock (Some e)"
    and "Attempt_env R k = no_sql_faults"
  shows "\<exists>err db'. mysql_Put A blob s R r db = (err, db') \<and>
    (err, mysql_holds blob s db') = spec_put A (Mysql_trusted s) (sql_keep (mysql_dialect blob)) r (mysql_holds blob s db)"
proof -
  obtain err db' where put: "putOnce A blob s no_sql_faults r db = (err, db')" by (rule prod.exhaust)
  then have spec: "(err, mysql_holds blob s db') =
      spec_put A (Mysql_trusted s) (sql_keep (mysql_dialect blob)) r (mysql_holds blob s db)"
    using sql.put_exact [OF assms(1) refl] by (simp add: putOnce_eq)
  then have "\<not> deadlock err" by (metis spec_put_not_deadlock)
  then have "mysql_Put A blob s R r db = (err, db')"
    unfolding mysql_Put_def retryDeadlock_def
    using assms(2-5) put by (intro retry_loop_answer [where k = k]) simp_all
  with spec show ?thesis by blast
qed

end
