(* ===== verification/StoreClients.thy ===== *)
theory StoreClients
  imports JsonlFacts MysqlFacts
begin

text \<open>
  What a client of the stores may rely on whichever of the three it uses: no store accepts or
  returns an unverified record, whatever is in its file or tables and whatever fails; and a
  client that runs the same operations on two of them gets the same answers.
\<close>

section \<open>Failing closed\<close>

text \<open>A record under the identifier it was asked for, verified under the trusted keys.\<close>

definition genuine :: "aac \<Rightarrow> bytes list \<Rightarrow> string \<Rightarrow> Record \<Rightarrow> bool" where
  "genuine A trusted cid r \<longleftrightarrow> Record_CapsuleID r = cid \<and> record_ok A trusted r"

lemma jsonl_Get_closed:
  assumes "jsonl_Get A io cid (s, disk) = Inr r"
  shows "genuine A (Store_trusted s) cid r \<and>
    (\<exists>entry. map_of (Store_index s) cid = Some entry \<and> readAt no_faults disk entry = Inr r)"
  using assms Verify_ok_iff [of A r "Store_trusted s"]
  by (auto simp: jsonl_Get_def genuine_def intro: readAt_faultless
      split: if_splits option.splits sum.splits)

lemma sql_read_closed:
  assumes "sql_read A D st env cid db = Inr r"
  shows "genuine A (Sql_trusted st) cid r \<and>
    (\<exists>sha. read_rows D st no_sql_faults cid db = Inr (r, sha) \<and> StorageChecksum r = Inr sha)"
proof -
  from assms obtain sha where rows: "read_rows D st env cid db = Inr (r, sha)" and check: "check_read A st r sha = Inr r"
    by (auto simp: sql_read_def call_def check_read_def split: if_splits option.splits sum.splits)
  have "read_rows D st no_sql_faults cid db = Inr (r, sha)"
    using rows read_rows_outcome [of D st env cid db] by auto
  moreover have "Record_CapsuleID r = cid"
    using rows by (auto simp: read_rows_def call_def split: option.splits sum.splits)
  moreover have "record_ok A (Sql_trusted st) r \<and> StorageChecksum r = Inr sha"
    using check Verify_ok_iff [of A r "Sql_trusted st"] by (auto simp: check_read_def split: if_splits sum.splits)
  ultimately show ?thesis by (simp add: genuine_def)
qed

lemma sql_Get_closed:
  assumes "sql_Get A D st env cid db = Inr r"
  shows "genuine A (Sql_trusted st) cid r \<and>
    (\<exists>sha. read_rows D st no_sql_faults cid db = Inr (r, sha) \<and> StorageChecksum r = Inr sha)"
proof -
  from assms have "sql_read A D st env cid db = Inr r"
    by (auto simp: sql_Get_def split: option.splits sum.splits)
  then show ?thesis by (rule sql_read_closed)
qed

lemma mysql_Get_closed:
  assumes "mysql_Get A blob m env cid db = Inr r"
  shows "genuine A (Mysql_trusted m) cid r \<and>
    (\<exists>sha. mysql_rows blob m no_sql_faults cid False db = Inr (r, sha) \<and> StorageChecksum r = Inr sha)"
  using assms sql_Get_closed [of A "mysql_dialect blob" "as_sql m" env cid db r] mysql_rows_eq [of blob m _ cid False db]
  by (simp add: mysql_Get_eq)

lemma jsonl_Put_closed:
  "jsonl_Put A io r (s, disk) = (None, sd) \<Longrightarrow> \<exists>p hash. admit A (Store_trusted s) r = Inr (p, hash)"
  by (auto simp: jsonl_Put_admit split: sum.splits)

lemma sql_Put_closed:
  assumes "sql_Put A D st env r db = (None, db')"
  shows "\<exists>p hash. admit A (Sql_trusted st) r = Inr (p, hash)"
proof -
  from assms obtain after where "put_tx A D st env r db = (None, after)"
    by (auto simp: sql_Put_def finish_def finishRollback_def split: option.splits prod.splits)
  then show ?thesis by (auto simp: put_tx_def admit_def split: sum.splits)
qed

text \<open>A retried transaction that succeeds has an attempt that succeeds.\<close>

lemma retry_loop_None:
  "retry_loop R run left s = (None, s') \<Longrightarrow> \<exists>n t. run (Attempt_env R n) t = (None, s')"
proof (induction left arbitrary: s)
  case 0
  then show ?case by (auto simp: retry_loop.simps [of R run 0] split: option.splits prod.splits)
next
  case (Suc left)
  then show ?case
    by (auto simp: retry_loop.simps [of R run "Suc left"] split: option.splits prod.splits if_splits)
qed

lemma mysql_Put_closed:
  assumes "mysql_Put A blob s R r db = (None, db')"
  shows "\<exists>p hash. admit A (Mysql_trusted s) r = Inr (p, hash)"
proof -
  from assms obtain n t where "putOnce A blob s (Attempt_env R n) r t = (None, db')"
    unfolding mysql_Put_def retryDeadlock_def by (blast dest: retry_loop_None)
  then show ?thesis using sql_Put_closed [of A "mysql_dialect blob" "as_sql s"] by (simp add: putOnce_eq)
qed

section \<open>Interchangeable stores\<close>

text \<open>The operations of a client, and what it sees of them.\<close>

datatype store_op = OpPut Record | OpGet string | OpPurge string

datatype answer = Done "go_error option" | Found "Record res"

fun apply_op ::
  "(Record \<Rightarrow> 's \<Rightarrow> go_error option \<times> 's) \<Rightarrow> (string \<Rightarrow> 's \<Rightarrow> Record res) \<Rightarrow>
     (string \<Rightarrow> 's \<Rightarrow> go_error option \<times> 's) \<Rightarrow> 's \<Rightarrow> store_op \<Rightarrow> answer \<times> 's" where
  "apply_op put get purge s (OpPut r) = (case put r s of (err, s') \<Rightarrow> (Done err, s'))"
| "apply_op put get purge s (OpGet cid) = (Found (get cid s), s)"
| "apply_op put get purge s (OpPurge cid) = (case purge cid s of (err, s') \<Rightarrow> (Done err, s'))"

text \<open>The answers to a sequence of operations.\<close>

fun answers :: "('s \<Rightarrow> store_op \<Rightarrow> answer \<times> 's) \<Rightarrow> 's \<Rightarrow> store_op list \<Rightarrow> answer list" where
  "answers step s [] = []"
| "answers step s (x # xs) = (case step s x of (a, s') \<Rightarrow> a # answers step s' xs)"

text \<open>
  Records without empty originals: these are kept whole by every encoding. Empty content is
  the exception (\<open>jsonl_empty_content_unreadable\<close>).
\<close>

definition whole :: "Record \<Rightarrow> bool" where
  "whole r \<longleftrightarrow> (\<forall>a \<in> set (Record_Artifacts r). Artifact_Content a \<noteq> Some '''')"

fun whole_op :: "store_op \<Rightarrow> bool" where
  "whole_op (OpPut r) = whole r"
| "whole_op _ = True"

fun view :: "(Record \<Rightarrow> Record) \<Rightarrow> answer \<Rightarrow> answer" where
  "view f (Found (Inr r)) = Found (Inr (f r))"
| "view f a = a"

lemma whole_purge: "whole r \<Longrightarrow> whole (purge_record r)"
  by (auto simp: whole_def purge_record_def purge_artifact_def)

lemma whole_prepare: "Prepare r = Inr p \<Longrightarrow> whole r \<Longrightarrow> whole p"
  by (auto simp: Prepare_Inr_iff whole_def fill_checksum_def)

lemma admit_whole: "admit A trusted r = Inr (p, hash) \<Longrightarrow> whole r \<Longrightarrow> whole p"
  by (auto simp: admit_Inr_iff whole_prepare)

text \<open>The store that keeps records as they are prepared.\<close>

abbreviation ideal_step :: "aac \<Rightarrow> bytes list \<Rightarrow> vault \<Rightarrow> store_op \<Rightarrow> answer \<times> vault" where
  "ideal_step A trusted \<equiv>
     apply_op (spec_put A trusted (\<lambda>p. p)) (\<lambda>cid V. spec_get A trusted cid V) spec_purge"

definition ideal_vault :: "aac \<Rightarrow> bytes list \<Rightarrow> vault \<Rightarrow> bool" where
  "ideal_vault A trusted V \<longleftrightarrow> (\<forall>cid p. V cid = Some p \<longrightarrow> admitted A trusted p \<and> whole p)"

lemma ideal_step_vault:
  assumes "ideal_vault A trusted V" "whole_op x" "ideal_step A trusted V x = (a, V')"
  shows "ideal_vault A trusted V'"
proof (cases x)
  case (OpPut r)
  with assms(3) have "spec_put A trusted (\<lambda>p. p) r V = (case a of Done err \<Rightarrow> err | Found _ \<Rightarrow> None, V')"
    by (auto split: prod.splits)
  with assms(1,2) OpPut show ?thesis
    by (auto simp: spec_put_def ideal_vault_def admit_whole admit_InrD(1) split: sum.splits option.splits if_splits)
next
  case (OpGet cid)
  with assms show ?thesis by simp
next
  case (OpPurge cid)
  with assms show ?thesis
    by (auto simp: spec_purge_def ideal_vault_def whole_purge admitted_purge split: if_splits option.splits)
qed

text \<open>A store whose encoding keeps what the checks look at.\<close>

locale faithful_store = live_store +
  assumes keep_ok: "admitted A trusted p \<Longrightarrow> whole p \<Longrightarrow> record_ok A trusted (keep p)"
    and keep_purged: "any_purged (keep p) = any_purged p"
    and keep_purge: "purge_record (keep p) = keep (purge_record p)"
begin

abbreviation step :: "'a \<Rightarrow> 'b \<Rightarrow> store_op \<Rightarrow> answer \<times> 'b" where
  "step e \<equiv> apply_op (put e) (get e) (purge e)"

lemma keep_verified: "admitted A trusted p \<Longrightarrow> whole p \<Longrightarrow> \<exists>c c'. Verify A p trusted = Inr c \<and> Verify A (keep p) trusted = Inr c'"
  using keep_ok [of p] Verify_ok_iff [of A p trusted] Verify_ok_iff [of A "keep p" trusted]
  by (cases "Verify A p trusted"; cases "Verify A (keep p) trusted") (auto simp: admitted_def)

lemma readmit_keep:
  "admitted A trusted p \<Longrightarrow> whole p \<Longrightarrow> readmit A trusted hash (keep p) = readmit A trusted hash p"
  using keep_verified [of p] keep_checksum [of p] by (auto simp: readmit_def keep_purged)

lemma put_view:
  "ideal_vault A trusted V \<Longrightarrow>
     spec_put A trusted keep r (map_option keep \<circ> V) =
       (case spec_put A trusted (\<lambda>p. p) r V of (err, V') \<Rightarrow> (err, map_option keep \<circ> V'))"
  by (auto simp: spec_put_def ideal_vault_def readmit_keep fun_upd_def fun_eq_iff split: sum.split option.split)

lemma get_view:
  "ideal_vault A trusted V \<Longrightarrow>
     Found (spec_get A trusted cid (map_option keep \<circ> V)) = view keep (Found (spec_get A trusted cid V))"
  using keep_verified by (fastforce simp: spec_get_def ideal_vault_def split: sum.split option.split)

lemma purge_view:
  "spec_purge cid (map_option keep \<circ> V) = (case spec_purge cid V of (err, V') \<Rightarrow> (err, map_option keep \<circ> V'))"
  by (auto simp: spec_purge_def fun_upd_def fun_eq_iff keep_purge split: option.split)

lemma step_view:
  assumes "inv s" "faultless e" "holds s = map_option keep \<circ> V" "ideal_vault A trusted V"
    and "ideal_step A trusted V x = (a, V')" "step e s x = (b, s')"
  shows "inv s' \<and> holds s' = map_option keep \<circ> V' \<and> b = view keep a"
proof (cases x)
  case (OpPut r)
  obtain err t where put: "put e r s = (err, t)" by (rule prod.exhaust)
  with assms OpPut put_view [OF assms(4), of r] put_exact [OF assms(1,2) put]
    put_inv [OF assms(1) faultless_clean [OF assms(2)] put] show ?thesis
    by (auto split: prod.splits)
next
  case (OpGet cid)
  with assms get_exact [OF assms(1,2), of cid] get_view [OF assms(4), of cid] show ?thesis by auto
next
  case (OpPurge cid)
  obtain err t where purge: "purge e cid s = (err, t)" by (rule prod.exhaust)
  with assms OpPurge purge_view [of cid V] purge_exact [OF assms(1,2) purge]
    purge_inv [OF assms(1) faultless_clean [OF assms(2)] purge] show ?thesis
    by (auto split: prod.splits)
qed

text \<open>The store answers as the ideal one, up to its encoding.\<close>

lemma answers_view:
  assumes "inv s" "faultless e" "holds s = map_option keep \<circ> V" "ideal_vault A trusted V" "\<forall>x \<in> set xs. whole_op x"
  shows "answers (step e) s xs = map (view keep) (answers (ideal_step A trusted) V xs)"
  using assms(1,3-)
proof (induction xs arbitrary: s V)
  case (Cons x xs)
  obtain a V' b s' where st: "ideal_step A trusted V x = (a, V')" "step e s x = (b, s')" by fastforce
  from step_view [OF Cons.prems(1) assms(2) Cons.prems(2,3) st] ideal_step_vault [OF Cons.prems(3) _ st(1)]
  show ?case using Cons.prems(4) st Cons.IH [of s' V'] by simp
qed simp

lemma answers_empty:
  assumes "inv s" "faultless e" "\<forall>cid. holds s cid = None" "\<forall>x \<in> set xs. whole_op x"
  shows "answers (step e) s xs = map (view keep) (answers (ideal_step A trusted) (\<lambda>_. None) xs)"
  by (rule answers_view) (use assms in \<open>auto simp: ideal_vault_def fun_eq_iff\<close>)

end

section \<open>The three stores\<close>

text \<open>A JSONL file keeps a whole record as it is.\<close>

lemma stored_whole: "whole p \<Longrightarrow> stored p = p"
proof -
  assume p: "whole p"
  have "stored_artifact a = a" if "a \<in> set (Record_Artifacts p)" for a
    using p that by (cases a; cases "Artifact_Content a") (auto simp: whole_def stored_artifact_def stored_content_def)
  then have "map stored_artifact (Record_Artifacts p) = Record_Artifacts p" by (simp add: map_idI)
  then show ?thesis by (simp add: stored_def)
qed

lemma any_purged_stored: "any_purged (stored p) = any_purged p"
  by (auto simp: any_purged_def stored_artifact_def list_ex_iff)

interpretation jsonl_faithful: faithful_store "jsonl_Put A" "jsonl_Get A" jsonl_Purge jsonl_holds "jsonl_inv A trusted"
  write_clean stored A trusted "\<lambda>io. io = no_faults" for A trusted
  by unfold_locales (auto simp: stored_whole admitted_def any_purged_stored stored_purge)

text \<open>
  What a driver reads back from a blob is the blob; \<open>e\<close> is what it makes of an empty one.
\<close>

definition blob_of :: "bytes option \<Rightarrow> bytes \<Rightarrow> bytes option" where
  "blob_of e c = (if c = '''' then e else Some c)"

definition by_name :: "Record \<Rightarrow> Record" where
  "by_name p = p\<lparr>Record_Artifacts := sort_key Artifact_Name (Record_Artifacts p)\<rparr>"

lemma record_ok_by_name: "record_ok A trusted p \<Longrightarrow> record_ok A trusted (by_name p)"
  using signed_ok_cong [of "by_name p" p A trusted]
  by (auto simp: record_ok_def inventory_ok_def by_name_def distinct_map)

lemma keep_whole:
  assumes "whole p" "Driver_blob D = blob_of e"
  shows "sql_keep D p = by_name p"
proof -
  have "blobbed D a = a" if "a \<in> set (Record_Artifacts p)" for a
    using assms that by (cases a; cases "Artifact_Content a") (auto simp: whole_def blobbed_def blob_of_def)
  then have "map (blobbed D) (Record_Artifacts p) = Record_Artifacts p" by (simp add: map_idI)
  then show ?thesis by (simp add: sql_keep_def by_name_def)
qed

lemma any_purged_keep: "any_purged (sql_keep D p) = any_purged p"
  by (auto simp: any_purged_def sql_keep_def list_ex_iff blobbed_def)

lemma sql_faithful:
  assumes "Driver_blob D = blob_of e" "admitted A trusted p" "whole p"
  shows "record_ok A trusted (sql_keep D p)"
  using record_ok_by_name [of A trusted p] keep_whole [OF assms(3,1)] assms(2) by (simp add: admitted_def)

interpretation sqlite_faithful: faithful_store "sql_Put A (sqlite_dialect (blob_of e)) st" "sql_Get A (sqlite_dialect (blob_of e)) st"
  "sql_Purge (sqlite_dialect (blob_of e)) st" "sql_holds (sqlite_dialect (blob_of e)) st"
  "sql_inv A (sqlite_dialect (blob_of e)) st" "\<lambda>env. \<not> Commit_applied env" "sql_keep (sqlite_dialect (blob_of e))"
  A "Sql_trusted st" "\<lambda>env. env = no_sql_faults" for A st e
  by unfold_locales (simp_all add: sql_faithful sqlite_dialect_def any_purged_keep purge_keep)

text \<open>The retrying store of MySQL, when no attempt meets a fault and no context ends.\<close>

definition no_retry_faults :: "retry_env \<Rightarrow> bool" where
  "no_retry_faults R \<longleftrightarrow> (\<forall>n. Ctx_err R n = None \<and> Ctx_done R n = None \<and> Attempt_env R n = no_sql_faults)"

interpretation mysql_faithful: faithful_store "mysql_Put A (blob_of e) s" "\<lambda>R. mysql_Get A (blob_of e) s (Attempt_env R 0)"
  "\<lambda>R. mysql_Purge (blob_of e) s (Attempt_env R 0)" "mysql_holds (blob_of e) s" "mysql_inv A (blob_of e) s"
  "\<lambda>R. \<forall>n. \<not> Commit_applied (Attempt_env R n)" "sql_keep (mysql_dialect (blob_of e))" A "Mysql_trusted s"
  no_retry_faults for A e s
proof unfold_locales
  fix db db' :: sql_db and R :: retry_env and err
  assume inv: "mysql_inv A (blob_of e) s db" and R: "no_retry_faults R"
  then have env: "Attempt_env R 0 = no_sql_faults" by (simp add: no_retry_faults_def)
  show "mysql_Put A (blob_of e) s R r db = (err, db') \<Longrightarrow> (err, mysql_holds (blob_of e) s db') =
      spec_put A (Mysql_trusted s) (sql_keep (mysql_dialect (blob_of e))) r (mysql_holds (blob_of e) s db)" for r
    using mysql_put_settles [OF inv, of R 0 r] R by (auto simp: no_retry_faults_def)
  show "mysql_Get A (blob_of e) s (Attempt_env R 0) cid db =
      spec_get A (Mysql_trusted s) cid (mysql_holds (blob_of e) s db)" for cid
    using sql.get_exact [OF inv refl, of cid] by (simp add: env mysql_Get_eq)
  show "mysql_Purge (blob_of e) s (Attempt_env R 0) cid db = (err, db') \<Longrightarrow>
      (err, mysql_holds (blob_of e) s db') = spec_purge cid (mysql_holds (blob_of e) s db)" for cid
    using sql.purge_exact [OF inv refl] by (simp add: env mysql_Purge_eq)
next
  show "no_retry_faults R \<Longrightarrow> \<forall>n. \<not> Commit_applied (Attempt_env R n)" for R
    by (simp add: no_retry_faults_def no_sql_faults_def)
qed (auto simp: sql_faithful mysql_dialect_def any_purged_keep purge_keep)

text \<open>Two encodings of the same ideal answers.\<close>

lemma view_view: "view f (view g a) = view (\<lambda>r. f (g r)) a"
  by (cases a; cases "case a of Found r \<Rightarrow> r | Done _ \<Rightarrow> Inl (Err ErrInvalid)") auto

text \<open>Everything the ideal store returns is whole.\<close>

definition whole_answer :: "answer \<Rightarrow> bool" where
  "whole_answer a \<longleftrightarrow> (case a of Found (Inr r) \<Rightarrow> whole r | _ \<Rightarrow> True)"

lemma ideal_answers_whole:
  "ideal_vault A trusted V \<Longrightarrow> \<forall>x \<in> set xs. whole_op x \<Longrightarrow>
     \<forall>a \<in> set (answers (ideal_step A trusted) V xs). whole_answer a"
proof (induction xs arbitrary: V)
  case (Cons x xs)
  obtain a V' where st: "ideal_step A trusted V x = (a, V')" by fastforce
  have "whole_answer a"
    using st Cons.prems(1)
    by (cases x) (auto simp: whole_answer_def spec_get_def ideal_vault_def split: prod.splits sum.splits option.splits if_splits)
  moreover have "ideal_vault A trusted V'"
    using Cons.prems by (intro ideal_step_vault [OF _ _ st]) auto
  ultimately show ?case using Cons st by simp
qed simp

lemma view_whole:
  assumes "\<And>p. whole p \<Longrightarrow> f p = g p" "whole_answer a"
  shows "view f a = view g a"
  using assms by (cases a; cases "case a of Found r \<Rightarrow> r | Done _ \<Rightarrow> Inl (Err ErrInvalid)") (auto simp: whole_answer_def)

text \<open>The operations of the stores, as a client calls them while nothing fails.\<close>

definition jsonl_client :: "aac \<Rightarrow> Store \<times> disk \<Rightarrow> store_op \<Rightarrow> answer \<times> Store \<times> disk" where
  "jsonl_client A = apply_op (jsonl_Put A no_faults) (jsonl_Get A no_faults) (jsonl_Purge no_faults)"

definition sqlite_client :: "aac \<Rightarrow> bytes option \<Rightarrow> sql_store \<Rightarrow> sql_db \<Rightarrow> store_op \<Rightarrow> answer \<times> sql_db" where
  "sqlite_client A e st =
     (let D = sqlite_dialect (blob_of e) in
      apply_op (sql_Put A D st no_sql_faults) (sql_Get A D st no_sql_faults) (sql_Purge D st no_sql_faults))"

definition mysql_client ::
  "aac \<Rightarrow> bytes option \<Rightarrow> retry_env \<Rightarrow> mysql_store \<Rightarrow> sql_db \<Rightarrow> store_op \<Rightarrow> answer \<times> sql_db" where
  "mysql_client A e R s =
     apply_op (mysql_Put A (blob_of e) s R) (mysql_Get A (blob_of e) s (Attempt_env R 0))
       (mysql_Purge (blob_of e) s (Attempt_env R 0))"

lemmas [go_eval] = genuine_def blob_of_def by_name_def jsonl_client_def sqlite_client_def mysql_client_def

definition ideal_answers :: "aac \<Rightarrow> bytes list \<Rightarrow> store_op list \<Rightarrow> answer list" where
  "ideal_answers A trusted xs = answers (ideal_step A trusted) (\<lambda>_. None) xs"

lemma ideal_answers_by_name:
  assumes "\<forall>x \<in> set xs. whole_op x" "\<And>p. whole p \<Longrightarrow> f p = g p"
  shows "map (view f) (ideal_answers A trusted xs) = map (view g) (ideal_answers A trusted xs)"
  using ideal_answers_whole [of A trusted "\<lambda>_. None" xs] assms
  by (auto simp: ideal_answers_def ideal_vault_def intro: view_whole)

lemma jsonl_client_answers:
  assumes "jsonl_inv A trusted sd" "\<forall>cid. jsonl_holds sd cid = None" "\<forall>x \<in> set xs. whole_op x"
  shows "answers (jsonl_client A) sd xs = map (view (\<lambda>p. p)) (ideal_answers A trusted xs)"
  using jsonl_faithful.answers_empty [OF assms(1) refl assms(2,3)]
    ideal_answers_by_name [OF assms(3), of stored "\<lambda>p. p" A trusted]
  by (simp add: jsonl_client_def ideal_answers_def stored_whole)

lemma sqlite_client_answers:
  assumes "sql_inv A (sqlite_dialect (blob_of e)) st db" "\<forall>cid. sql_holds (sqlite_dialect (blob_of e)) st db cid = None"
    and "\<forall>x \<in> set xs. whole_op x"
  shows "answers (sqlite_client A e st) db xs = map (view by_name) (ideal_answers A (Sql_trusted st) xs)"
  using sqlite_faithful.answers_empty [OF assms(1) refl assms(2,3)]
    ideal_answers_by_name [OF assms(3), of "sql_keep (sqlite_dialect (blob_of e))" by_name A "Sql_trusted st"]
  by (simp add: sqlite_client_def Let_def ideal_answers_def keep_whole sqlite_dialect_def)

lemma mysql_client_answers:
  assumes "mysql_inv A (blob_of e) s db" "no_retry_faults R" "\<forall>cid. mysql_holds (blob_of e) s db cid = None"
    and "\<forall>x \<in> set xs. whole_op x"
  shows "answers (mysql_client A e R s) db xs = map (view by_name) (ideal_answers A (Mysql_trusted s) xs)"
  using mysql_faithful.answers_empty [OF assms]
    ideal_answers_by_name [OF assms(4), of "sql_keep (mysql_dialect (blob_of e))" by_name A "Mysql_trusted s"]
  by (simp add: mysql_client_def ideal_answers_def keep_whole mysql_dialect_def)

text \<open>Reading by name what has been read as it is.\<close>

lemma view_answers: "map (view f) (map (view (\<lambda>p. p)) as) = map (view f) as"
  by (simp add: view_view)

end
