(* ===== verification/JsonlThreads.thy ===== *)
theory JsonlThreads
  imports StoreClients
begin

text \<open>
  The JSONL store under concurrent calls (\<open>artifact/jsonl/store.go\<close>). Elsewhere an operation of
  the store is a function on its state; here it is the sequence of steps that the code makes:
  the checks before the lock, the wait for the mutex, each access to the index and to the file
  while the mutex is held, the release, and the checks after it. The steps of any number of
  goroutines interleave. The theorems at the end of the library rest on the invariant proved
  here: whoever holds the mutex is on the way to what the atomic operation does.
\<close>

section \<open>Calls and sections\<close>

datatype jsonl_call = CallInit | CallPut Record | CallGet string | CallPurge string

text \<open>
  Where a goroutine is in its critical section. The arguments are its local variables. The
  section ends at a call of \<open>Unlock\<close> or at a \<open>return\<close> out of it (\<open>Leave\<close>), with what it brings out.
  \<open>Init\<close>, \<open>Put\<close> and \<open>Purge\<close> have deferred the release of the mutex to their return; \<open>Get\<close> has not,
  and calls \<open>Unlock\<close> on each of its two paths.
\<close>

datatype lock_section =
    InitCreate
  | PutLookup Record string | PutRead indexEntry Record string
  | PutSeek Record | PutWrite Record bytes nat | PutIndex Record nat nat
  | GetLookup string | GetRead indexEntry
  | PurgeLookup string | PurgeRead string indexEntry | PurgeCopy string Record
  | PurgeRename bytes line_index | PurgeIndex line_index
  | Unlock answer
  | Leave answer

definition deferred :: "jsonl_call \<Rightarrow> bool" where
  "deferred job = (case job of CallInit \<Rightarrow> True | CallPut r \<Rightarrow> True | CallGet cid \<Rightarrow> False | CallPurge cid \<Rightarrow> True)"

text \<open>The checks before the lock: an answer, or the start of the critical section.\<close>

definition enter :: "aac \<Rightarrow> bytes list \<Rightarrow> jsonl_call \<Rightarrow> answer + lock_section" where
  "enter A trusted job =
     (case job of
        CallInit \<Rightarrow> Inr InitCreate
      | CallPut record \<Rightarrow>
          (case Prepare record of
             Inl err \<Rightarrow> Inl (Done (Some err))
           | Inr r \<Rightarrow>
               (case Verify A r trusted of
                  Inl err \<Rightarrow> Inl (Done (Some err))
                | Inr _ \<Rightarrow>
                    (case StorageChecksum r of
                       Inl err \<Rightarrow> Inl (Done (Some err))
                     | Inr hash \<Rightarrow> Inr (PutLookup r hash))))
      | CallGet cid \<Rightarrow>
          if \<not> hexDigestPattern cid then Inl (Found (Inl (Err ErrInvalid))) else Inr (GetLookup cid)
      | CallPurge cid \<Rightarrow>
          if \<not> hexDigestPattern cid then Inl (Done (Some (Err ErrInvalid))) else Inr (PurgeLookup cid))"

lemma enter_put: "admit A trusted r = Inr (p, hash) \<Longrightarrow> enter A trusted (CallPut r) = Inr (PutLookup p hash)"
  by (auto simp: enter_def admit_def split: sum.splits)

section \<open>The steps of a section\<close>

definition put_lookup :: "Store \<Rightarrow> Record \<Rightarrow> string \<Rightarrow> lock_section" where
  "put_lookup s r hash =
     (case map_of (Store_index s) (Record_CapsuleID r) of
        Some entry \<Rightarrow> PutRead entry r hash
      | None \<Rightarrow> PutSeek r)"

definition put_seek :: "jsonl_io \<Rightarrow> disk \<Rightarrow> Record \<Rightarrow> lock_section" where
  "put_seek io disk r =
     (case marshalRecord r of
        Inl err \<Rightarrow> Leave (Done (Some err))
      | Inr data \<Rightarrow>
          (case os_open io disk of
             Inl err \<Rightarrow> Leave (Done (Some err))
           | Inr content \<Rightarrow>
               (case Io_seek io of
                  Some err \<Rightarrow> Leave (Done (Some err))
                | None \<Rightarrow> PutWrite r data (length content))))"

text \<open>A write at the offset of the handle, over whatever the file has there by then.\<close>

definition write_at :: "nat \<Rightarrow> bytes \<Rightarrow> disk \<Rightarrow> disk" where
  "write_at offset bs disk =
     map_option (\<lambda>content. take offset content @ bs @ drop (offset + length bs) content) disk"

text \<open>
  The \<open>Write\<close> of the line, which may fail after some bytes. It is one step to the other goroutines,
  which do not read the file before the mutex is released; a process that dies within it is the
  matter of \<open>JsonlCrash\<close>.
\<close>

definition put_write :: "jsonl_io \<Rightarrow> disk \<Rightarrow> Record \<Rightarrow> bytes \<Rightarrow> nat \<Rightarrow> lock_section \<times> disk" where
  "put_write io disk r data offset =
     (case Io_write io of
        Some (n, err) \<Rightarrow> (Leave (Done (Some err)), write_at offset (take n (data @ [newline])) disk)
      | None \<Rightarrow> (PutIndex r offset (length data), write_at offset (data @ [newline]) disk))"

definition put_index :: "Record \<Rightarrow> nat \<Rightarrow> nat \<Rightarrow> Store \<Rightarrow> Store" where
  "put_index r offset len s =
     s\<lparr>Store_index := AList.update (Record_CapsuleID r) \<lparr>Entry_offset = offset, Entry_length = len\<rparr> (Store_index s)\<rparr>"

definition get_lookup :: "Store \<Rightarrow> string \<Rightarrow> lock_section" where
  "get_lookup s cid =
     (case map_of (Store_index s) cid of
        None \<Rightarrow> Unlock (Found (Inl (Err ErrNotFound)))
      | Some entry \<Rightarrow> GetRead entry)"

definition purge_lookup :: "Store \<Rightarrow> string \<Rightarrow> lock_section" where
  "purge_lookup s cid =
     (case map_of (Store_index s) cid of
        None \<Rightarrow> Leave (Done (Some (Err ErrNotFound)))
      | Some entry \<Rightarrow> PurgeRead cid entry)"

definition purge_read :: "jsonl_io \<Rightarrow> disk \<Rightarrow> string \<Rightarrow> indexEntry \<Rightarrow> lock_section" where
  "purge_read io disk cid entry =
     (case readAt io disk entry of
        Inl err \<Rightarrow> Leave (Done (Some err))
      | Inr target \<Rightarrow>
          if Record_CapsuleID target \<noteq> cid then Leave (Done (Some ErrOtherCapsule))
          else PurgeCopy cid (purge_record target))"

text \<open>\<open>rewrite\<close> up to the rename: the temporary file and the index for it.\<close>

definition copy_file :: "jsonl_io \<Rightarrow> disk \<Rightarrow> string \<Rightarrow> Record \<Rightarrow> lock_section" where
  "copy_file io disk target replacement =
     (case os_open io disk of
        Inl err \<Rightarrow> Leave (Done (Some err))
      | Inr content \<Rightarrow>
          (case or_else (Io_create io) (or_else (Io_stat io) (Io_chmod io)) of
             Some err \<Rightarrow> Leave (Done (Some err))
           | None \<Rightarrow>
               (case scan_file io content of (ls, scan_err) \<Rightarrow>
                  (case rewrite_lines target replacement [] [] False ls of
                     Inl err \<Rightarrow> Leave (Done (Some err))
                   | Inr (out, idx, found) \<Rightarrow>
                       (case or_else scan_err
                               (or_else
                                 (err_if (\<not> found)
                                   (Wrapf ''%w: target line vanished during rewrite'' [] (Err ErrCorrupt)))
                                 (or_else (Io_flush io) (Io_close io))) of
                          Some err \<Rightarrow> Leave (Done (Some err))
                        | None \<Rightarrow> PurgeRename out idx)))))"

definition rename_copy :: "jsonl_io \<Rightarrow> disk \<Rightarrow> bytes \<Rightarrow> line_index \<Rightarrow> lock_section \<times> disk" where
  "rename_copy io disk out idx =
     (case Io_rename io of
        Some err \<Rightarrow> (Leave (Done (Some err)), disk)
      | None \<Rightarrow> (PurgeIndex idx, Some out))"

text \<open>Each step reads or writes the index or the file once.\<close>

fun section_step :: "aac \<Rightarrow> jsonl_io \<Rightarrow> lock_section \<times> Store \<times> disk \<Rightarrow> lock_section \<times> Store \<times> disk" where
  "section_step A io (InitCreate, s, disk) = (case jsonl_Init io disk of (err, disk') \<Rightarrow> (Leave (Done err), s, disk'))"
| "section_step A io (PutLookup r hash, s, disk) = (put_lookup s r hash, s, disk)"
| "section_step A io (PutRead entry r hash, s, disk) = (Leave (Done (put_existing A io s disk entry r hash)), s, disk)"
| "section_step A io (PutSeek r, s, disk) = (put_seek io disk r, s, disk)"
| "section_step A io (PutWrite r data offset, s, disk) =
     (case put_write io disk r data offset of (next, disk') \<Rightarrow> (next, s, disk'))"
| "section_step A io (PutIndex r offset len, s, disk) = (Leave (Done None), put_index r offset len s, disk)"
| "section_step A io (GetLookup cid, s, disk) = (get_lookup s cid, s, disk)"
| "section_step A io (GetRead entry, s, disk) = (Unlock (Found (readAt io disk entry)), s, disk)"
| "section_step A io (PurgeLookup cid, s, disk) = (purge_lookup s cid, s, disk)"
| "section_step A io (PurgeRead cid entry, s, disk) = (purge_read io disk cid entry, s, disk)"
| "section_step A io (PurgeCopy cid replacement, s, disk) = (copy_file io disk cid replacement, s, disk)"
| "section_step A io (PurgeRename out idx, s, disk) = (case rename_copy io disk out idx of (next, disk') \<Rightarrow> (next, s, disk'))"
| "section_step A io (PurgeIndex idx, s, disk) = (Leave (Done None), s\<lparr>Store_index := idx\<rparr>, disk)"
| "section_step A io (Unlock out, s, disk) = (Unlock out, s, disk)"
| "section_step A io (Leave out, s, disk) = (Leave out, s, disk)"

text \<open>What is done with the outcome after the lock is released: \<open>Get\<close> checks the record.\<close>

definition settle :: "aac \<Rightarrow> bytes list \<Rightarrow> jsonl_call \<Rightarrow> answer \<Rightarrow> answer" where
  "settle A trusted job out =
     (case (job, out) of
        (CallGet cid, Found (Inr record)) \<Rightarrow>
          if Record_CapsuleID record \<noteq> cid then Found (Inl ErrOtherCapsule)
          else (case Verify A record trusted of Inl err \<Rightarrow> Found (Inl err) | Inr _ \<Rightarrow> Found (Inr record))
      | _ \<Rightarrow> out)"

lemmas [go_eval] = enter_def put_lookup_def put_seek_def write_at_def put_write_def put_index_def get_lookup_def
  purge_lookup_def purge_read_def copy_file_def rename_copy_def settle_def deferred_def

section \<open>Sections end, and are the atomic operations\<close>

text \<open>The steps left in a section, at most.\<close>

fun rank :: "lock_section \<Rightarrow> nat" where
  "rank InitCreate = 1"
| "rank (PutLookup r hash) = 4" | "rank (PutRead entry r hash) = 1"
| "rank (PutSeek r) = 3" | "rank (PutWrite r data offset) = 2" | "rank (PutIndex r offset len) = 1"
| "rank (GetLookup cid) = 2" | "rank (GetRead entry) = 1"
| "rank (PurgeLookup cid) = 5" | "rank (PurgeRead cid entry) = 4" | "rank (PurgeCopy cid replacement) = 3"
| "rank (PurgeRename out idx) = 2" | "rank (PurgeIndex idx) = 1"
| "rank (Unlock out) = 0" | "rank (Leave out) = 0"

fun outcome :: "lock_section \<Rightarrow> answer option" where
  "outcome (Unlock out) = Some out"
| "outcome (Leave out) = Some out"
| "outcome _ = None"

lemma rank_zero: "rank x = 0 \<longleftrightarrow> (\<exists>out. outcome x = Some out)"
  by (cases x) simp_all

lemma outcome_Some: "outcome x = Some out \<longleftrightarrow> x = Unlock out \<or> x = Leave out"
  by (cases x) auto

text \<open>The sections that end in an \<open>Unlock\<close> of their own.\<close>

fun explicit :: "lock_section \<Rightarrow> bool" where
  "explicit (GetLookup cid) = True"
| "explicit (GetRead entry) = True"
| "explicit (Unlock out) = True"
| "explicit _ = False"

lemma enter_explicit: "enter A trusted job = Inr x \<Longrightarrow> explicit x \<longleftrightarrow> \<not> deferred job"
  by (auto simp: enter_def deferred_def split: jsonl_call.splits sum.splits if_splits)

lemma section_step_explicit: "section_step A io (x, sd) = (y, td) \<Longrightarrow> explicit y \<longleftrightarrow> explicit x"
  by (cases x; cases sd)
    (auto simp: put_lookup_def put_seek_def put_write_def get_lookup_def purge_lookup_def purge_read_def copy_file_def
      rename_copy_def split: option.splits sum.splits prod.splits if_splits)

lemma section_step_rank: "section_step A io (x, sd) = (y, td) \<Longrightarrow> rank x \<noteq> 0 \<Longrightarrow> rank y < rank x"
  by (cases x; cases sd)
    (auto simp: put_lookup_def put_seek_def put_write_def get_lookup_def purge_lookup_def purge_read_def copy_file_def
      rename_copy_def split: option.splits sum.splits prod.splits if_splits)

lemma rank_bound: "rank x \<le> 5"
  by (cases x) simp_all

text \<open>A section run to its end by its holder alone.\<close>

definition complete :: "aac \<Rightarrow> jsonl_io \<Rightarrow> lock_section \<times> Store \<times> disk \<Rightarrow> lock_section \<times> Store \<times> disk" where
  "complete A io = section_step A io ^^ 5"

lemma end_stays: "rank x = 0 \<Longrightarrow> section_step A io (x, sd) = (x, sd)"
  by (cases x; cases sd) simp_all

lemma ends_stay: "rank x = 0 \<Longrightarrow> (section_step A io ^^ n) (x, sd) = (x, sd)"
  by (induction n) (simp_all add: end_stays)

lemma steps_end: "rank (fst c) \<le> n \<Longrightarrow> rank (fst ((section_step A io ^^ n) c)) = 0"
proof (induction n arbitrary: c)
  case (Suc n)
  obtain x sd y td where c: "c = (x, sd)" "section_step A io c = (y, td)" by (metis prod.exhaust)
  show ?case
  proof (cases "rank x = 0")
    case True
    then show ?thesis using c ends_stay by (metis fst_conv)
  next
    case False
    then have "rank y < rank x" using section_step_rank c by blast
    with Suc.IH [of "(y, td)"] Suc.prems c show ?thesis by (simp add: funpow_Suc_right del: funpow.simps)
  qed
qed simp

lemma complete_end:
  obtains y sd out where "complete A io c = (y, sd)" "rank y = 0" "outcome y = Some out"
proof -
  obtain y sd where y: "complete A io c = (y, sd)" by (rule prod.exhaust)
  moreover have "rank y = 0" using steps_end [of c 5 A io] rank_bound [of "fst c"] y by (simp add: complete_def)
  ultimately show thesis using that rank_zero by blast
qed

lemma complete_step: "complete A io (section_step A io c) = complete A io c"
proof -
  obtain y sd out where y: "complete A io c = (y, sd)" "rank y = 0" by (rule complete_end)
  have "complete A io (section_step A io c) = section_step A io (complete A io c)"
    by (simp add: complete_def funpow_swap1)
  then show ?thesis using y by (simp add: end_stays)
qed

lemma complete_simps:
  "rank (fst c) \<noteq> 0 \<Longrightarrow> complete A io c = complete A io (section_step A io c)"
  "complete A io (Leave out, sd) = (Leave out, sd)"
  "complete A io (Unlock out, sd) = (Unlock out, sd)"
  by (simp_all add: complete_step) (simp_all add: complete_def ends_stay)

lemma complete_steps: "complete A io ((section_step A io ^^ n) c) = complete A io c"
  by (induction n) (simp_all add: complete_step)

text \<open>A section changes the file in one step, and not after it.\<close>

fun late :: "lock_section \<Rightarrow> bool" where
  "late (PutIndex r offset len) = True"
| "late (PurgeIndex idx) = True"
| "late (Unlock out) = True"
| "late (Leave out) = True"
| "late _ = False"

lemma section_step_disk:
  "section_step A io (x, s, disk) = (y, s', disk') \<Longrightarrow> disk' = disk \<or> late y"
  "late x \<Longrightarrow> section_step A io (x, s, disk) = (y, s', disk') \<Longrightarrow> late y \<and> disk' = disk"
  by (cases x; auto simp: put_write_def rename_copy_def split: prod.splits option.splits)+

lemma late_complete: "late x \<Longrightarrow> snd (snd (complete A io (x, s, disk))) = disk"
  by (cases x) (simp_all add: complete_simps(1) complete_simps(2,3))

text \<open>The sections a goroutine comes through, from its entry \<open>x\<close> and the state \<open>c\<close> it found.\<close>

definition reached :: "aac \<Rightarrow> jsonl_io \<Rightarrow> lock_section \<times> Store \<times> disk \<Rightarrow> lock_section \<times> Store \<times> disk \<Rightarrow> bool" where
  "reached A io c d \<longleftrightarrow> (\<exists>n. (section_step A io ^^ n) c = d)"

lemma reached_refl: "reached A io c c"
  unfolding reached_def by (rule exI [of _ 0]) simp

lemma reached_step: "reached A io c d \<Longrightarrow> reached A io c (section_step A io d)"
  unfolding reached_def by (metis funpow.simps(2) comp_apply)

lemma reached_induct [consumes 1, case_names start step]:
  assumes "reached A io c d" and "P c" and "\<And>d. P d \<Longrightarrow> P (section_step A io d)"
  shows "P d"
proof -
  have "P ((section_step A io ^^ n) c)" for n by (induction n) (simp_all add: assms(2,3))
  with assms(1) show ?thesis by (auto simp: reached_def)
qed

lemma reached_complete: "reached A io c d \<Longrightarrow> complete A io d = complete A io c"
  by (induction rule: reached_induct) (simp_all add: complete_step)

lemma reached_explicit: "reached A io c d \<Longrightarrow> explicit (fst d) \<longleftrightarrow> explicit (fst c)"
proof (induction rule: reached_induct)
  case (step d)
  then show ?case by (metis section_step_explicit prod.collapse)
qed simp

lemma reached_disk:
  assumes "reached A io c d"
  shows "snd (snd d) = snd (snd c) \<or> late (fst d)"
  using assms
proof (induction rule: reached_induct)
  case (step d)
  obtain x s disk y s' disk' where d: "d = (x, s, disk)" "section_step A io d = (y, s', disk')" by (metis prod.exhaust)
  from section_step_disk [where A = A and io = io and x = x and s = s and disk = disk and y = y and s' = s' and disk' = disk'] d step
  show ?case by auto
qed simp

text \<open>The trusted keys are set when the store is opened and stay.\<close>

lemma section_step_trusted:
  "section_step A io (x, s, disk) = (y, s', disk') \<Longrightarrow> Store_trusted s' = Store_trusted s"
  by (cases x) (auto simp: put_index_def split: prod.splits)

text \<open>The whole call as one step: the operations of the store as they are modelled elsewhere.\<close>

definition atomic :: "aac \<Rightarrow> jsonl_io \<Rightarrow> jsonl_call \<Rightarrow> Store \<times> disk \<Rightarrow> answer \<times> Store \<times> disk" where
  "atomic A io job sd =
     (case job of
        CallInit \<Rightarrow> (case jsonl_Init io (snd sd) of (err, disk') \<Rightarrow> (Done err, fst sd, disk'))
      | CallPut r \<Rightarrow> (case jsonl_Put A io r sd of (err, sd') \<Rightarrow> (Done err, sd'))
      | CallGet cid \<Rightarrow> (Found (jsonl_Get A io cid sd), sd)
      | CallPurge cid \<Rightarrow> (case jsonl_Purge io cid sd of (err, sd') \<Rightarrow> (Done err, sd')))"

lemma enter_refused:
  "enter A (Store_trusted (fst sd)) job = Inl ans \<Longrightarrow>
     atomic A io job sd = (settle A (Store_trusted (fst sd)) job ans, sd)"
  by (cases job; cases sd)
    (auto simp: enter_def atomic_def settle_def jsonl_Put_def jsonl_Get_def jsonl_Purge_def split: sum.splits if_splits)

lemma write_at_end: "write_at (length content) bs (Some content) = Some (content @ bs)"
  by (simp add: write_at_def)

lemma complete_put:
  "complete A io (PutLookup r hash, s, disk) =
     (case map_of (Store_index s) (Record_CapsuleID r) of
        Some entry \<Rightarrow> (Leave (Done (put_existing A io s disk entry r hash)), s, disk)
      | None \<Rightarrow> (case put_line io s disk r of (err, sd) \<Rightarrow> (Leave (Done err), sd)))"
  by (auto simp: complete_simps(1) complete_simps(2) put_lookup_def put_seek_def put_write_def put_index_def put_line_def
      os_open_def write_at_end split: option.splits sum.splits)

lemma complete_get:
  "complete A io (GetLookup cid, s, disk) =
     (case map_of (Store_index s) cid of
        None \<Rightarrow> (Unlock (Found (Inl (Err ErrNotFound))), s, disk)
      | Some entry \<Rightarrow> (Unlock (Found (readAt io disk entry)), s, disk))"
  by (simp add: complete_simps(1) complete_simps(3) get_lookup_def split: option.split)

lemma complete_rename:
  "complete A io (PurgeRename out idx, s, disk) =
     (case Io_rename io of
        Some err \<Rightarrow> (Leave (Done (Some err)), s, disk)
      | None \<Rightarrow> (Leave (Done None), s\<lparr>Store_index := idx\<rparr>, Some out))"
  by (simp add: complete_simps(1) complete_simps(2) rename_copy_def split: option.split)

lemma rename_last:
  "(case or_else a (or_else b (or_else c (or_else d r))) of Some e \<Rightarrow> f e | None \<Rightarrow> x) =
     (case or_else a (or_else b (or_else c d)) of Some e \<Rightarrow> f e | None \<Rightarrow> (case r of Some e \<Rightarrow> f e | None \<Rightarrow> x))"
  by (cases a; cases b; cases c; cases d) simp_all

lemma complete_copy:
  "complete A io (PurgeCopy cid replacement, s, disk) =
     (case rewrite io cid replacement (s, disk) of (err, sd) \<Rightarrow> (Leave (Done err), sd))"
proof -
  have "complete A io (PurgeCopy cid replacement, s, disk) = complete A io (copy_file io disk cid replacement, s, disk)"
    by (simp add: complete_simps(1))
  also have "\<dots> = (case rewrite io cid replacement (s, disk) of (err, sd) \<Rightarrow> (Leave (Done err), sd))"
    unfolding copy_file_def rewrite_def rename_last
    by (simp add: complete_simps(2) complete_rename split: option.split sum.split prod.split)
  finally show ?thesis .
qed

lemma complete_purge:
  "complete A io (PurgeLookup cid, s, disk) =
     (case map_of (Store_index s) cid of
        None \<Rightarrow> (Leave (Done (Some (Err ErrNotFound))), s, disk)
      | Some entry \<Rightarrow>
          (case readAt io disk entry of
             Inl err \<Rightarrow> (Leave (Done (Some err)), s, disk)
           | Inr target \<Rightarrow>
               if Record_CapsuleID target \<noteq> cid then (Leave (Done (Some ErrOtherCapsule)), s, disk)
               else (case rewrite io cid (purge_record target) (s, disk) of (err, sd) \<Rightarrow> (Leave (Done err), sd))))"
  by (simp add: complete_simps(1) [of "(PurgeLookup cid, s, disk)" for cid s disk]
      complete_simps(1) [of "(PurgeRead cid entry, s, disk)" for cid entry s disk] complete_simps(2) complete_copy
      purge_lookup_def purge_read_def split: option.split sum.split)

lemma complete_init:
  "complete A io (InitCreate, s, disk) = (case jsonl_Init io disk of (err, disk') \<Rightarrow> (Leave (Done err), s, disk'))"
  by (simp add: complete_simps(1) complete_simps(2) split: prod.split)

text \<open>A section without interference, and the checks after it, are the atomic operation.\<close>

lemma complete_atomic:
  assumes "enter A (Store_trusted (fst sd)) job = Inr x" "complete A io (x, sd) = (y, td)" "outcome y = Some out"
  shows "atomic A io job sd = (settle A (Store_trusted (fst sd)) job out, td)"
proof -
  obtain s disk where sd: "sd = (s, disk)" by (cases sd)
  show ?thesis
  proof (cases job)
    case CallInit
    with assms show ?thesis by (auto simp: sd enter_def complete_init atomic_def settle_def split: prod.splits)
  next
    case (CallPut r)
    with assms show ?thesis
      by (auto simp: sd enter_def complete_put atomic_def settle_def jsonl_Put_def
          split: sum.splits prod.splits option.splits)
  next
    case (CallGet cid)
    with assms show ?thesis
      by (auto simp: sd enter_def complete_get atomic_def settle_def jsonl_Get_def
          split: sum.splits option.splits if_splits)
  next
    case (CallPurge cid)
    with assms show ?thesis
      by (auto simp: sd enter_def complete_purge atomic_def settle_def jsonl_Purge_def
          split: sum.splits prod.splits option.splits if_splits)
  qed
qed

section \<open>Goroutines\<close>

text \<open>
  A goroutine is between calls, before the lock, waiting for it, in its section, or after the
  release. The faults a call meets are chosen with the call.
\<close>

datatype phase =
    Idle
  | Entering jsonl_call jsonl_io
  | Waiting jsonl_call jsonl_io lock_section
  | Holding jsonl_call jsonl_io lock_section
  | Settling jsonl_call answer

record system =
  Mutex :: "nat option"
  Shared :: "Store \<times> disk"
  Phase :: "nat \<Rightarrow> phase"

text \<open>
  What a step shows: a call, its return with the answer, or nothing. \<open>Lin\<close> marks the moment
  at which a call takes effect; the code does not see it.
\<close>

datatype label =
    Call nat jsonl_call jsonl_io
  | Lin nat jsonl_call jsonl_io answer
  | Ret nat answer
  | Tau nat

definition keys_of :: "system \<Rightarrow> bytes list" where
  "keys_of c = Store_trusted (fst (Shared c))"

abbreviation turn :: "system \<Rightarrow> nat \<Rightarrow> phase \<Rightarrow> system" where
  "turn c t p \<equiv> c\<lparr>Phase := (Phase c)(t := p)\<rparr>"

text \<open>
  One step of one goroutine. A call refused before the lock never waits for it; \<open>Lock\<close> is
  possible while nobody holds the mutex; the section proceeds whatever the others do. A call of
  \<open>Unlock\<close> releases the mutex; a return out of the section releases it only if the call has
  deferred that. The checks after the section see the outcome only.
\<close>

inductive thread_step :: "aac \<Rightarrow> system \<Rightarrow> label \<Rightarrow> system \<Rightarrow> bool" for A where
  invoke: "Phase c t = Idle \<Longrightarrow> thread_step A c (Call t job io) (turn c t (Entering job io))"
| refuse: "Phase c t = Entering job io \<Longrightarrow> enter A (keys_of c) job = Inl out \<Longrightarrow>
    thread_step A c (Lin t job io (settle A (keys_of c) job out)) (turn c t (Settling job out))"
| ready: "Phase c t = Entering job io \<Longrightarrow> enter A (keys_of c) job = Inr x \<Longrightarrow>
    thread_step A c (Tau t) (turn c t (Waiting job io x))"
| lock: "Phase c t = Waiting job io x \<Longrightarrow> Mutex c = None \<Longrightarrow>
    thread_step A c (Tau t) (turn c t (Holding job io x)\<lparr>Mutex := Some t\<rparr>)"
| work: "Phase c t = Holding job io x \<Longrightarrow> rank x \<noteq> 0 \<Longrightarrow> section_step A io (x, Shared c) = (y, sd) \<Longrightarrow>
    thread_step A c (Tau t) (turn c t (Holding job io y)\<lparr>Shared := sd\<rparr>)"
| unlock: "Phase c t = Holding job io (Unlock out) \<Longrightarrow>
    thread_step A c (Lin t job io (settle A (keys_of c) job out)) (turn c t (Settling job out)\<lparr>Mutex := None\<rparr>)"
| leave: "Phase c t = Holding job io (Leave out) \<Longrightarrow>
    thread_step A c (Lin t job io (settle A (keys_of c) job out))
      (turn c t (Settling job out)\<lparr>Mutex := if deferred job then None else Mutex c\<rparr>)"
| return: "Phase c t = Settling job out \<Longrightarrow>
    thread_step A c (Ret t (settle A (keys_of c) job out)) (turn c t Idle)"

inductive_cases thread_stepE: "thread_step A c l c'"

inductive thread_run :: "aac \<Rightarrow> system \<Rightarrow> label list \<Rightarrow> system \<Rightarrow> bool" for A where
  nothing: "thread_run A c [] c"
| snoc: "thread_run A c tr d \<Longrightarrow> thread_step A d l e \<Longrightarrow> thread_run A c (tr @ [l]) e"

definition quiet :: "Store \<times> disk \<Rightarrow> system" where
  "quiet sd = \<lparr>Mutex = None, Shared = sd, Phase = (\<lambda>_. Idle)\<rparr>"

section \<open>Linearization\<close>

text \<open>What the labels of one goroutine must look like: call, effect, return of the same answer.\<close>

datatype progress = Ready | Called jsonl_call jsonl_io | Answered answer | Wrong

definition advance :: "progress \<Rightarrow> label \<Rightarrow> progress" where
  "advance p l =
     (case l of
        Tau t \<Rightarrow> p
      | Call t job io \<Rightarrow> (if p = Ready then Called job io else Wrong)
      | Lin t job io ans \<Rightarrow> (if p = Called job io then Answered ans else Wrong)
      | Ret t ans \<Rightarrow> (if p = Answered ans then Ready else Wrong))"

fun actor :: "label \<Rightarrow> nat" where
  "actor (Call t job io) = t"
| "actor (Lin t job io ans) = t"
| "actor (Ret t ans) = t"
| "actor (Tau t) = t"

definition progress_of :: "nat \<Rightarrow> label list \<Rightarrow> progress" where
  "progress_of t tr = foldl advance Ready (filter (\<lambda>l. actor l = t) tr)"

text \<open>The calls in the order in which they take effect, each done at once.\<close>

fun effects :: "label list \<Rightarrow> (jsonl_call \<times> jsonl_io \<times> answer) list" where
  "effects [] = []"
| "effects (Lin t job io ans # tr) = (job, io, ans) # effects tr"
| "effects (_ # tr) = effects tr"

fun replay :: "aac \<Rightarrow> (jsonl_call \<times> jsonl_io \<times> answer) list \<Rightarrow> Store \<times> disk \<Rightarrow> (Store \<times> disk) option" where
  "replay A [] sd = Some sd"
| "replay A ((job, io, ans) # es) sd =
     (case atomic A io job sd of (ans', sd') \<Rightarrow> if ans' = ans then replay A es sd' else None)"

lemma effects_append [simp]: "effects (tr @ us) = effects tr @ effects us"
  by (induction tr rule: effects.induct) simp_all

lemma replay_append [simp]:
  "replay A (es @ fs) sd = (case replay A es sd of None \<Rightarrow> None | Some sd' \<Rightarrow> replay A fs sd')"
  by (induction A es sd rule: replay.induct) (auto split: prod.split)

lemma progress_append [simp]:
  "progress_of t (tr @ [l]) = (if actor l = t then advance (progress_of t tr) l else progress_of t tr)"
  by (simp add: progress_of_def)

text \<open>The invariant, with the state \<open>sd\<close> that the effects so far have made.\<close>

fun holding :: "phase \<Rightarrow> bool" where
  "holding (Holding job io x) = True"
| "holding _ = False"

fun phase_progress :: "aac \<Rightarrow> bytes list \<Rightarrow> phase \<Rightarrow> progress" where
  "phase_progress A trusted Idle = Ready"
| "phase_progress A trusted (Entering job io) = Called job io"
| "phase_progress A trusted (Waiting job io x) = Called job io"
| "phase_progress A trusted (Holding job io x) = Called job io"
| "phase_progress A trusted (Settling job out) = Answered (settle A trusted job out)"

text \<open>What a phase says of the shared state and of the state \<open>sd\<close>.\<close>

fun phase_ok :: "aac \<Rightarrow> Store \<times> disk \<Rightarrow> Store \<times> disk \<Rightarrow> phase \<Rightarrow> bool" where
  "phase_ok A sd shared (Waiting job io x) = (enter A (Store_trusted (fst sd)) job = Inr x)"
| "phase_ok A sd shared (Holding job io x) =
     (\<exists>x0. enter A (Store_trusted (fst sd)) job = Inr x0 \<and> reached A io (x0, sd) (x, shared))"
| "phase_ok A sd shared _ = True"

definition lin_inv :: "aac \<Rightarrow> bytes list \<Rightarrow> Store \<times> disk \<Rightarrow> system \<Rightarrow> bool" where
  "lin_inv A trusted sd c \<longleftrightarrow>
     Store_trusted (fst sd) = trusted \<and> keys_of c = trusted \<and>
     (\<forall>t. phase_ok A sd (Shared c) (Phase c t)) \<and>
     (\<forall>t. holding (Phase c t) \<longleftrightarrow> Mutex c = Some t) \<and>
     (Mutex c = None \<longrightarrow> Shared c = sd)"

lemma phase_ok_other:
  "\<not> holding p \<Longrightarrow> Store_trusted (fst sd') = Store_trusted (fst sd) \<Longrightarrow> phase_ok A sd' sh' p = phase_ok A sd sh p"
  by (cases p) simp_all

text \<open>A step by a goroutine that neither holds the mutex nor takes it leaves the invariant alone.\<close>

lemma lin_inv_turn:
  assumes "lin_inv A trusted sd c" "\<not> holding (Phase c t)" "\<not> holding p" "phase_ok A sd (Shared c) p"
  shows "lin_inv A trusted sd (turn c t p)"
  using assms by (auto simp: lin_inv_def keys_of_def)

lemma lock_inv:
  assumes "lin_inv A trusted sd c" "Phase c t = Waiting job io x" "Mutex c = None"
  shows "lin_inv A trusted sd (turn c t (Holding job io x)\<lparr>Mutex := Some t\<rparr>)"
proof -
  have "enter A (Store_trusted (fst sd)) job = Inr x" using assms(1,2) unfolding lin_inv_def by (metis phase_ok.simps(1))
  with assms reached_refl show ?thesis by (auto simp: lin_inv_def keys_of_def)
qed

lemma work_inv:
  assumes "lin_inv A trusted sd c" "Phase c t = Holding job io x" "section_step A io (x, Shared c) = (y, td)"
  shows "lin_inv A trusted sd (turn c t (Holding job io y)\<lparr>Shared := td\<rparr>)"
proof -
  have trusted: "Store_trusted (fst td) = Store_trusted (fst (Shared c))"
    using section_step_trusted [of A io x "fst (Shared c)" "snd (Shared c)" y "fst td" "snd td"] assms(3) by simp
  have mutex: "Mutex c = Some t" using assms(1,2) unfolding lin_inv_def by (metis holding.simps(1))
  have "phase_ok A sd (Shared c) (Holding job io x)" using assms(1,2) unfolding lin_inv_def by metis
  then obtain x0 where "enter A (Store_trusted (fst sd)) job = Inr x0" "reached A io (x0, sd) (x, Shared c)" by auto
  with reached_step [of A io "(x0, sd)" "(x, Shared c)"] assms(3) have "phase_ok A sd td (Holding job io y)" by simp
  moreover have "phase_ok A sd td (Phase c u)" if "u \<noteq> t" for u
    using assms(1) that mutex phase_ok_other [of "Phase c u" sd sd A td "Shared c"] by (auto simp: lin_inv_def)
  ultimately show ?thesis using assms(1) trusted mutex by (auto simp: lin_inv_def keys_of_def)
qed

text \<open>The section of a call that has not deferred the release ends in \<open>Unlock\<close>, the others do not.\<close>

lemma holder_explicit:
  assumes "lin_inv A trusted sd c" "Phase c t = Holding job io x"
  shows "explicit x \<longleftrightarrow> \<not> deferred job"
proof -
  have "phase_ok A sd (Shared c) (Holding job io x)" using assms unfolding lin_inv_def by metis
  then obtain x0 where "enter A (Store_trusted (fst sd)) job = Inr x0" "reached A io (x0, sd) (x, Shared c)" by auto
  with reached_explicit enter_explicit show ?thesis by (metis fst_conv)
qed

lemma release_inv:
  assumes "lin_inv A trusted sd c" "Phase c t = Holding job io x" "outcome x = Some out"
  shows "atomic A io job sd = (settle A trusted job out, Shared c)"
    "lin_inv A trusted (Shared c) (turn c t (Settling job out)\<lparr>Mutex := None\<rparr>)"
proof -
  have "phase_ok A sd (Shared c) (Holding job io x)" using assms unfolding lin_inv_def by metis
  then obtain x0 where x0: "enter A (Store_trusted (fst sd)) job = Inr x0" "reached A io (x0, sd) (x, Shared c)" by auto
  have "complete A io (x, Shared c) = (x, Shared c)"
    using assms(3) by (auto simp: outcome_Some complete_simps)
  with reached_complete [OF x0(2)] have "complete A io (x0, sd) = (x, Shared c)" by simp
  from complete_atomic [OF x0(1) this assms(3)] assms(1) show "atomic A io job sd = (settle A trusted job out, Shared c)"
    by (simp add: lin_inv_def)
  have mutex: "Mutex c = Some t" using assms(1,2) unfolding lin_inv_def by (metis holding.simps(1))
  have "phase_ok A (Shared c) (Shared c) (Phase c u)" if "u \<noteq> t" for u
    using assms(1) that mutex phase_ok_other [of "Phase c u" "Shared c" sd A "Shared c" "Shared c"]
    by (auto simp: lin_inv_def keys_of_def)
  with assms(1) mutex show "lin_inv A trusted (Shared c) (turn c t (Settling job out)\<lparr>Mutex := None\<rparr>)"
    by (auto simp: lin_inv_def keys_of_def)
qed

lemma step_linearizes:
  assumes "lin_inv A trusted sd c" "thread_step A c l c'"
  shows "\<exists>sd'. replay A (effects [l]) sd = Some sd' \<and> lin_inv A trusted sd' c' \<and>
    (\<forall>t. phase_progress A trusted (Phase c' t) =
       (if actor l = t then advance (phase_progress A trusted (Phase c t)) l else phase_progress A trusted (Phase c t)))"
  using assms(2)
proof (cases rule: thread_step.cases)
  case (invoke t job io)
  with assms(1) show ?thesis by (auto simp: advance_def intro!: lin_inv_turn)
next
  case (refuse t job io out)
  have keys: "keys_of c = trusted" "Store_trusted (fst sd) = trusted" using assms(1) by (simp_all add: lin_inv_def)
  with refuse(4) have "atomic A io job sd = (settle A trusted job out, sd)"
    using enter_refused [of A sd job out io] by simp
  with refuse keys assms(1) show ?thesis by (auto simp: advance_def intro!: lin_inv_turn)
next
  case (ready t job io x)
  have "keys_of c = trusted" "Store_trusted (fst sd) = trusted" using assms(1) by (simp_all add: lin_inv_def)
  with ready assms(1) show ?thesis by (auto simp: advance_def intro!: lin_inv_turn)
next
  case (lock t job io x)
  with lock_inv [OF assms(1) lock(3,4)] show ?thesis by (auto simp: advance_def)
next
  case (work t job io x y td)
  with work_inv [OF assms(1) work(3,5)] show ?thesis by (auto simp: advance_def)
next
  case (unlock t job io out)
  have "keys_of c = trusted" using assms(1) by (simp add: lin_inv_def)
  with unlock release_inv [OF assms(1) unlock(3)] show ?thesis by (auto simp: advance_def)
next
  case (leave t job io out)
  have "keys_of c = trusted" "deferred job"
    using assms(1) holder_explicit [OF assms(1) leave(3)] by (simp_all add: lin_inv_def)
  with leave release_inv [OF assms(1) leave(3)] show ?thesis by (auto simp: advance_def)
next
  case (return t job out)
  have "keys_of c = trusted" using assms(1) by (simp add: lin_inv_def)
  with return assms(1) show ?thesis by (auto simp: advance_def intro!: lin_inv_turn)
qed

lemma run_linearizes:
  assumes "thread_run A (quiet sd0) tr c"
  shows "\<exists>sd. replay A (effects tr) sd0 = Some sd \<and> lin_inv A (Store_trusted (fst sd0)) sd c \<and>
    (\<forall>t. progress_of t tr = phase_progress A (Store_trusted (fst sd0)) (Phase c t))"
  using assms
proof (induction "quiet sd0" tr c rule: thread_run.induct)
  case nothing
  show ?case by (simp add: lin_inv_def quiet_def keys_of_def progress_of_def)
next
  case (snoc tr d l e)
  then obtain sd where sd: "replay A (effects tr) sd0 = Some sd" "lin_inv A (Store_trusted (fst sd0)) sd d"
    "\<forall>t. progress_of t tr = phase_progress A (Store_trusted (fst sd0)) (Phase d t)" by blast
  from step_linearizes [OF sd(2) snoc(3)] sd(1,3) show ?case by (auto simp: fun_eq_iff)
qed

section \<open>Every call can return\<close>

lemma run_append:
  "thread_run A d us e \<Longrightarrow> thread_run A c tr d \<Longrightarrow> thread_run A c (tr @ us) e"
  by (induction rule: thread_run.induct)
    (simp, metis append.assoc thread_run.snoc)

lemma run_one: "thread_step A c l d \<Longrightarrow> thread_run A c [l] d"
  using thread_run.snoc [OF thread_run.nothing] by fastforce

lemma run_cons: "thread_step A c l d \<Longrightarrow> thread_run A d tr e \<Longrightarrow> thread_run A c (l # tr) e"
  using run_append [OF _ run_one] by fastforce

text \<open>The holder of the mutex releases it within six steps of its own.\<close>

fun invocation :: "label \<Rightarrow> bool" where
  "invocation (Call t job io) = True"
| "invocation _ = False"

lemma holder_releases:
  assumes "Phase c t = Holding job io x" and "explicit x \<longleftrightarrow> \<not> deferred job"
  shows "\<exists>tr out sd. thread_run A c tr (turn c t (Settling job out)\<lparr>Mutex := None, Shared := sd\<rparr>) \<and>
    length tr \<le> Suc (rank x) \<and> (\<forall>l \<in> set tr. actor l = t \<and> \<not> invocation l)"
  using assms
proof (induction "rank x" arbitrary: c x rule: less_induct)
  case less
  show ?case
  proof (cases "rank x = 0")
    case True
    then obtain out where out: "outcome x = Some out" by (auto simp: rank_zero)
    have "thread_step A c (Lin t job io (settle A (keys_of c) job out)) (turn c t (Settling job out)\<lparr>Mutex := None\<rparr>)"
    proof (cases "x = Unlock out")
      case True
      with less.prems(1) show ?thesis by (intro thread_step.unlock) simp
    next
      case False
      with out less.prems have "Phase c t = Holding job io (Leave out)" "deferred job" by (auto simp: outcome_Some)
      from thread_step.leave [OF this(1), of A] this(2) show ?thesis by simp
    qed
    from run_one [OF this] show ?thesis
      by (intro exI [of _ "[Lin t job io (settle A (keys_of c) job out)]"] exI [of _ out] exI [of _ "Shared c"]) simp
  next
    case False
    obtain y sd where y: "section_step A io (x, Shared c) = (y, sd)" by (rule prod.exhaust)
    let ?d = "turn c t (Holding job io y)\<lparr>Shared := sd\<rparr>"
    have step: "thread_run A c [Tau t] ?d" using less.prems(1) False y by (intro run_one thread_step.work)
    have lt: "rank y < rank x" using section_step_rank [OF y False] .
    obtain tr out td where tr: "thread_run A ?d tr (turn ?d t (Settling job out)\<lparr>Mutex := None, Shared := td\<rparr>)"
      "length tr \<le> Suc (rank y)" "\<forall>l \<in> set tr. actor l = t \<and> \<not> invocation l"
      using less.hyps [OF lt, of ?d] section_step_explicit [OF y] less.prems(2) by auto
    from run_append [OF tr(1) step] tr(2,3) lt show ?thesis
      by (intro exI [of _ "Tau t # tr"] exI [of _ out] exI [of _ td]) simp
  qed
qed

text \<open>
  A goroutine can return within a number of steps that are its own or the mutex holder's, and
  for which nobody begins another call.
\<close>

definition returns_within :: "aac \<Rightarrow> nat set \<Rightarrow> nat \<Rightarrow> nat \<Rightarrow> system \<Rightarrow> bool" where
  "returns_within A us t n c \<longleftrightarrow>
     (\<exists>tr c'. thread_run A c tr c' \<and> length tr \<le> n \<and> Phase c' t = Idle \<and>
        (\<forall>l \<in> set tr. actor l \<in> us \<and> \<not> invocation l))"

lemma returns_mono: "returns_within A us t m c \<Longrightarrow> m \<le> n \<Longrightarrow> returns_within A us t n c"
  unfolding returns_within_def by (meson le_trans)

lemma returns_after:
  assumes "thread_run A c tr d" "\<forall>l \<in> set tr. actor l \<in> us \<and> \<not> invocation l"
    and "returns_within A us t m d" "length tr + m \<le> n"
  shows "returns_within A us t n c"
proof -
  obtain vs c' where vs: "thread_run A d vs c'" "length vs \<le> m" "Phase c' t = Idle"
    "\<forall>l \<in> set vs. actor l \<in> us \<and> \<not> invocation l"
    using assms(3) unfolding returns_within_def by blast
  have "thread_run A c (tr @ vs) c'" using run_append [OF vs(1) assms(1)] .
  moreover have "length (tr @ vs) \<le> n" using vs(2) assms(4) by simp
  moreover have "\<forall>l \<in> set (tr @ vs). actor l \<in> us \<and> \<not> invocation l" using vs(4) assms(2) by auto
  ultimately show ?thesis using vs(3) unfolding returns_within_def by blast
qed

lemma returns_step:
  "thread_step A c l d \<Longrightarrow> actor l \<in> us \<Longrightarrow> \<not> invocation l \<Longrightarrow> returns_within A us t m d \<Longrightarrow>
     returns_within A us t (Suc m) c"
  by (rule returns_after [OF run_one, where m = m]) simp_all

lemma idle_returns: "Phase c t = Idle \<Longrightarrow> returns_within A us t 0 c"
  unfolding returns_within_def by (intro exI [of _ "[]"] exI [of _ c]) (simp add: thread_run.nothing)

lemma settling_returns:
  assumes "Phase c t = Settling job out" and "t \<in> us"
  shows "returns_within A us t (Suc 0) c"
  by (rule returns_step [OF thread_step.return [OF assms(1)] _ _ idle_returns]) (simp_all add: assms(2))

lemma holding_returns:
  assumes "Phase c t = Holding job io x" and "explicit x \<longleftrightarrow> \<not> deferred job" and "t \<in> us"
  shows "returns_within A us t 7 c"
proof -
  obtain tr out sd where tr: "thread_run A c tr (turn c t (Settling job out)\<lparr>Mutex := None, Shared := sd\<rparr>)"
    "length tr \<le> Suc (rank x)" "\<forall>l \<in> set tr. actor l = t \<and> \<not> invocation l"
    using holder_releases [OF assms(1,2)] by blast
  have "returns_within A us t (Suc 0) (turn c t (Settling job out)\<lparr>Mutex := None, Shared := sd\<rparr>)"
    by (rule settling_returns [of _ _ job out]) (simp_all add: assms(3))
  from returns_after [OF tr(1) _ this] tr(2,3) rank_bound [of x] assms(3) show ?thesis by simp
qed

lemma waiting_returns:
  assumes "Phase c t = Waiting job io x" and "Mutex c = None" and "explicit x \<longleftrightarrow> \<not> deferred job" and "t \<in> us"
  shows "returns_within A us t (Suc 7) c"
  by (rule returns_step [OF thread_step.lock [OF assms(1,2)] _ _ holding_returns [of _ _ job io x]])
    (simp_all add: assms(3,4))

text \<open>With the mutex free, nine steps are enough; another holder needs six before.\<close>

lemma free_returns:
  assumes "Mutex c = None" and "t \<in> us"
    and "\<And>job io x. Phase c t = Waiting job io x \<or> Phase c t = Holding job io x \<Longrightarrow> explicit x \<longleftrightarrow> \<not> deferred job"
  shows "returns_within A us t (Suc (Suc 7)) c"
proof (cases "Phase c t")
  case Idle
  then show ?thesis by (rule returns_mono [OF idle_returns]) simp
next
  case (Entering job io)
  show ?thesis
  proof (cases "enter A (keys_of c) job")
    case (Inl out)
    have "returns_within A us t (Suc (Suc 0)) c"
      by (rule returns_step [OF thread_step.refuse [OF Entering Inl] _ _ settling_returns [of _ _ job out]])
        (simp_all add: assms(2))
    then show ?thesis by (rule returns_mono) simp
  next
    case (Inr x)
    show ?thesis
      by (rule returns_step [OF thread_step.ready [OF Entering Inr] _ _ waiting_returns [of _ _ job io x]])
        (simp_all add: assms(1,2) enter_explicit [OF Inr])
  qed
next
  case (Waiting job io x)
  from waiting_returns [OF this assms(1) _ assms(2)] assms(3) Waiting have "returns_within A us t (Suc 7) c" by blast
  then show ?thesis by (rule returns_mono) simp
next
  case (Holding job io x)
  from holding_returns [OF this _ assms(2)] assms(3) Holding have "returns_within A us t 7 c" by blast
  then show ?thesis by (rule returns_mono) simp
next
  case (Settling job out)
  from settling_returns [OF this assms(2)] show ?thesis by (rule returns_mono) simp
qed

lemma waiting_explicit:
  assumes "lin_inv A trusted sd c" and "Phase c t = Waiting job io x \<or> Phase c t = Holding job io x"
  shows "explicit x \<longleftrightarrow> \<not> deferred job"
proof (cases "Phase c t = Waiting job io x")
  case True
  then have "enter A (Store_trusted (fst sd)) job = Inr x"
    using assms(1) unfolding lin_inv_def by (metis phase_ok.simps(1))
  then show ?thesis by (rule enter_explicit)
qed (use assms holder_explicit in blast)

lemma reachable_returns:
  assumes "lin_inv A trusted sd c" and "us = {u. u = t \<or> Mutex c = Some u}"
  shows "returns_within A us t 15 c"
proof (cases "Mutex c")
  case None
  have "returns_within A us t (Suc (Suc 7)) c"
  proof (rule free_returns [OF None])
    show "t \<in> us" by (simp add: assms(2))
    show "explicit x \<longleftrightarrow> \<not> deferred job" if "Phase c t = Waiting job io x \<or> Phase c t = Holding job io x" for job io x
      using waiting_explicit [OF assms(1) that] .
  qed
  then show ?thesis by (rule returns_mono) simp
next
  case (Some u)
  then have "holding (Phase c u)" using assms(1) by (simp add: lin_inv_def)
  then obtain job io x where held: "Phase c u = Holding job io x" by (cases "Phase c u") simp_all
  from holder_releases [OF held holder_explicit [OF assms(1) held], of A] obtain tr out td where
    tr: "thread_run A c tr (turn c u (Settling job out)\<lparr>Mutex := None, Shared := td\<rparr>)" "length tr \<le> Suc (rank x)"
      "\<forall>l \<in> set tr. actor l = u \<and> \<not> invocation l"
    by blast
  let ?d = "turn c u (Settling job out)\<lparr>Mutex := None, Shared := td\<rparr>"
  have "returns_within A us t (Suc (Suc 7)) ?d"
  proof (rule free_returns)
    show "explicit y \<longleftrightarrow> \<not> deferred j" if "Phase ?d t = Waiting j io y \<or> Phase ?d t = Holding j io y" for j io y
      using that waiting_explicit [OF assms(1), of t j io y] by (cases "t = u") auto
  qed (simp_all add: assms(2))
  from returns_after [OF tr(1) _ this, of 15] tr(2,3) rank_bound [of x] assms(2) Some show ?thesis by simp
qed

section \<open>The contract under concurrency\<close>

lemma store_run_append:
  "store_run put purge clean t u \<Longrightarrow> store_run put purge clean s t \<Longrightarrow> store_run put purge clean s u"
  by (induction rule: store_run.induct) (auto intro: store_run.run_step)

text \<open>One call is a step of the store's history, or changes nothing.\<close>

lemma atomic_step:
  assumes "jsonl_inv A trusted sd" "write_clean io" "atomic A io job sd = (ans, sd')"
  shows "store_run (jsonl_Put A) jsonl_Purge write_clean sd sd'"
proof (cases job)
  case CallInit
  obtain data where "snd sd = Some data" using assms(1) by (auto simp: jsonl_inv_def jsonl_layout_def)
  with CallInit assms(3) show ?thesis by (cases sd) (auto simp: atomic_def jsonl_Init_def intro: store_run.run_refl)
next
  case (CallPut r)
  obtain err t where put: "jsonl_Put A io r sd = (err, t)" by (rule prod.exhaust)
  have "store_step (jsonl_Put A) jsonl_Purge write_clean sd t"
    using assms(2) put by (rule store_step.step_put)
  from single_step [OF this] assms(3) show ?thesis by (simp add: CallPut put atomic_def)
next
  case (CallGet cid)
  with assms(3) show ?thesis by (auto simp: atomic_def intro: store_run.run_refl)
next
  case (CallPurge cid)
  obtain err t where purge: "jsonl_Purge io cid sd = (err, t)" by (rule prod.exhaust)
  have "store_step (jsonl_Put A) jsonl_Purge write_clean sd t"
    using assms(2) purge by (rule store_step.step_purge)
  from single_step [OF this] assms(3) show ?thesis by (simp add: CallPurge purge atomic_def)
qed

definition clean_effects :: "(jsonl_call \<times> jsonl_io \<times> answer) list \<Rightarrow> bool" where
  "clean_effects es \<longleftrightarrow> (\<forall>(job, io, ans) \<in> set es. write_clean io)"

lemma replay_run:
  assumes "jsonl_inv A trusted sd" "clean_effects es" "replay A es sd = Some sd'"
  shows "store_run (jsonl_Put A) jsonl_Purge write_clean sd sd' \<and> jsonl_inv A trusted sd'"
  using assms
proof (induction A es sd rule: replay.induct)
  case (1 A sd)
  then show ?case by (auto intro: store_run.run_refl)
next
  case (2 A job io ans es sd)
  obtain t where t: "atomic A io job sd = (ans, t)" "replay A es t = Some sd'"
    using "2.prems"(3) by (auto split: prod.splits if_splits)
  have run: "store_run (jsonl_Put A) jsonl_Purge write_clean sd t"
    by (rule atomic_step [OF "2.prems"(1) _ t(1)]) (use "2.prems"(2) in \<open>simp add: clean_effects_def\<close>)
  then have "jsonl_inv A trusted t" using jsonl.run_holds "2.prems"(1) by blast
  with "2.IH" [OF t(1) [symmetric] refl] "2.prems"(2) t(2)
  have "store_run (jsonl_Put A) jsonl_Purge write_clean t sd' \<and> jsonl_inv A trusted sd'"
    by (simp add: clean_effects_def)
  then show ?case using store_run_append [OF _ run] by simp
qed

text \<open>A \<open>Put\<close> that took effect and was accepted is never lost.\<close>

lemma accepted_kept:
  assumes "jsonl_inv A trusted sd" "clean_effects es" "replay A es sd = Some sd'"
    and "(CallPut r, io, Done None) \<in> set es"
  shows "\<exists>p hash old. admit A trusted r = Inr (p, hash) \<and>
    jsonl_holds sd' (Record_CapsuleID r) = Some old \<and> StorageChecksum old = Inr hash"
proof -
  obtain xs ys where es: "es = xs @ (CallPut r, io, Done None) # ys" using assms(4) by (auto simp: in_set_conv_decomp)
  obtain s t where s: "replay A xs sd = Some s" "atomic A io (CallPut r) s = (Done None, t)" "replay A ys t = Some sd'"
    using assms(3) by (auto simp: es split: option.splits prod.splits if_splits)
  have clean: "clean_effects xs" "write_clean io" "clean_effects ys" using assms(2) by (auto simp: es clean_effects_def)
  have inv: "jsonl_inv A trusted s" using replay_run [OF assms(1) clean(1) s(1)] by simp
  have put: "jsonl_Put A io r s = (None, t)" using s(2) by (auto simp: atomic_def split: prod.splits)
  obtain p hash old where p: "admit A trusted r = Inr (p, hash)" "jsonl_holds t (Record_CapsuleID r) = Some old"
    "StorageChecksum old = Inr hash"
    using jsonl.put_accepted [OF inv clean(2) put] by metis
  have inv_t: "jsonl_inv A trusted t" by (rule jsonl.put_inv [OF inv clean(2) put])
  have "jsonl_holds sd' (Record_CapsuleID r) \<in> {Some old, Some (purge_record old)}"
    using jsonl.run_holds [of A sd] replay_run [OF inv_t clean(3) s(3)] jsonl.run_holds [OF _ inv_t] p(2) by blast
  with p show ?thesis by auto
qed

text \<open>A \<open>Purge\<close> that took effect and was accepted is final.\<close>

lemma purge_kept:
  assumes "jsonl_inv A trusted sd" "clean_effects es" "replay A es sd = Some sd'"
    and "(CallPurge cid, io, Done None) \<in> set es"
  shows "\<exists>r. jsonl_holds sd' cid = Some (purge_record r)"
proof -
  obtain xs ys where es: "es = xs @ (CallPurge cid, io, Done None) # ys" using assms(4) by (auto simp: in_set_conv_decomp)
  obtain s t where s: "replay A xs sd = Some s" "atomic A io (CallPurge cid) s = (Done None, t)" "replay A ys t = Some sd'"
    using assms(3) by (auto simp: es split: option.splits prod.splits if_splits)
  have clean: "clean_effects xs" "write_clean io" "clean_effects ys" using assms(2) by (auto simp: es clean_effects_def)
  have inv: "jsonl_inv A trusted s" using replay_run [OF assms(1) clean(1) s(1)] by simp
  have purge: "jsonl_Purge io cid s = (None, t)" using s(2) by (auto simp: atomic_def split: prod.splits)
  then have "(None, jsonl_holds t) = spec_purge cid (jsonl_holds s)"
    using jsonl.purge_refines [OF inv clean(2)] by blast
  then obtain r where r: "jsonl_holds t cid = Some (purge_record r)"
    by (auto simp: spec_purge_def split: if_splits option.splits)
  have inv_t: "jsonl_inv A trusted t" by (rule jsonl.purge_inv [OF inv clean(2) purge])
  with jsonl.purged_forever [OF _ inv_t r] replay_run [OF inv_t clean(3) s(3)] show ?thesis by blast
qed

text \<open>
  What a history owes to its client: the records held at the start stay, as they are or purged;
  accepted records are held; accepted purges stay.
\<close>

definition history_kept :: "aac \<Rightarrow> bytes list \<Rightarrow> vault \<Rightarrow> (jsonl_call \<times> jsonl_io \<times> answer) list \<Rightarrow> vault \<Rightarrow> bool" where
  "history_kept A trusted V es W \<longleftrightarrow>
     (\<forall>cid r. V cid = Some r \<longrightarrow> W cid \<in> {Some r, Some (purge_record r)}) \<and>
     (\<forall>r io. (CallPut r, io, Done None) \<in> set es \<longrightarrow>
        (\<exists>p hash old. admit A trusted r = Inr (p, hash) \<and>
           W (Record_CapsuleID r) = Some old \<and> StorageChecksum old = Inr hash)) \<and>
     (\<forall>cid io. (CallPurge cid, io, Done None) \<in> set es \<longrightarrow> (\<exists>r. W cid = Some (purge_record r)))"

lemma history_keeps:
  assumes "jsonl_inv A trusted sd" "clean_effects es" "replay A es sd = Some sd'"
    and "store_run (jsonl_Put A) jsonl_Purge write_clean sd' td"
  shows "history_kept A trusted (jsonl_holds sd) es (jsonl_holds td)"
proof -
  have sd': "store_run (jsonl_Put A) jsonl_Purge write_clean sd sd'" "jsonl_inv A trusted sd'"
    using replay_run [OF assms(1-3)] by simp_all
  have later: "jsonl_holds td cid \<in> {Some r, Some (purge_record r)}" if "jsonl_holds sd' cid = Some r" for cid r
    using jsonl.run_holds [OF assms(4) sd'(2)] that by blast
  have "jsonl_holds td cid \<in> {Some r, Some (purge_record r)}" if "jsonl_holds sd cid = Some r" for cid r
    using jsonl.run_holds [OF store_run_append [OF assms(4) sd'(1)] assms(1)] that by blast
  moreover have "\<exists>p hash old. admit A trusted r = Inr (p, hash) \<and>
      jsonl_holds td (Record_CapsuleID r) = Some old \<and> StorageChecksum old = Inr hash"
    if put: "(CallPut r, io, Done None) \<in> set es" for r io
  proof -
    from accepted_kept [OF assms(1-3) put] obtain p hash old where
      "admit A trusted r = Inr (p, hash)" "jsonl_holds sd' (Record_CapsuleID r) = Some old" "StorageChecksum old = Inr hash"
      by blast
    with later [of "Record_CapsuleID r" old] show ?thesis by auto
  qed
  moreover have "\<exists>r. jsonl_holds td cid = Some (purge_record r)"
    if "(CallPurge cid, io, Done None) \<in> set es" for cid io
    using purge_kept [OF assms(1-3) that] later by fastforce
  ultimately show ?thesis unfolding history_kept_def by blast
qed

end
