(* ===== verification/StoreSamples.thy ===== *)
theory StoreSamples
  imports Samples SealedRecord StoreClients JsonlThreads
begin

text \<open>
  A concrete record for the evaluated examples of the stores: a Capsule with a committed
  response, the bound original of that response, an attachment without a binding, and an
  artifact that was never retained.
\<close>

definition trusted_key :: bytes where
  "trusted_key = replicate 32 CHR ''k''"

definition response_members :: members where
  "response_members =
     [(''format_version'', JStr FormatVersion), (''canonicalization_id'', JStr CanonicalizationID),
      (''effect'', JObj [(''response_digest'', JStr (sample_hex 3))]), (''capsule_id'', JStr (sample_hex 5))]"

definition response_artifact :: Artifact where
  "response_artifact = \<lparr>Artifact_Name = ''response'', Artifact_Binding = EffectResponseDigest,
     Artifact_Content = Some ''123'', Artifact_State = Present, Artifact_ContentSHA256 = ''''\<rparr>"

definition note_artifact :: "bytes \<Rightarrow> Artifact" where
  "note_artifact c = \<lparr>Artifact_Name = ''note'', Artifact_Binding = '''',
     Artifact_Content = Some c, Artifact_State = Present, Artifact_ContentSHA256 = ''''\<rparr>"

definition secret_artifact :: Artifact where
  "secret_artifact = \<lparr>Artifact_Name = ''secret'', Artifact_Binding = '''',
     Artifact_Content = None, Artifact_State = NeverRetained, Artifact_ContentSHA256 = ''''\<rparr>"

definition note_record :: "bytes \<Rightarrow> Record" where
  "note_record c = \<lparr>Record_CapsuleID = sample_hex 5, Record_Capsule = print_json (JObj response_members),
     Record_ProducerEnvelope = sample_hex 5 @ trusted_key,
     Record_Artifacts = [response_artifact, note_artifact c, secret_artifact]\<rparr>"

definition note_prepared :: "bytes \<Rightarrow> Record" where
  "note_prepared c = (note_record c)\<lparr>Record_Artifacts := map fill_checksum (Record_Artifacts (note_record c))\<rparr>"

lemma response_decode: "DecodePayload (print_json (JObj response_members)) = Inr response_members"
proof -
  have "decodeStrictJSON (print_json (JObj response_members)) = Inr (JObj response_members)"
    using hexDigestPattern_utf8 [OF sample_hex_pattern [of 3]] hexDigestPattern_utf8 [OF sample_hex_pattern [of 5]]
    by (intro decode_print_json) (simp_all add: response_members_def go_consts maxJSONDepth_def)
  then show ?thesis by (simp add: DecodePayload_Inr_iff)
qed

lemma response_signed: "signed_ok sample_aac [trusted_key] (note_record c)"
  using response_decode sample_hex_pattern [of 5]
  by (simp add: signed_ok_def note_record_def verifies_iff verifyClass1_def sample_aac_def sample_verify_def
      response_members_def go_consts VerifyEnvelope_def Let_def sample_envelope_verify_def trusted_key_def
      sample_hex_def authorized_def)

lemma response_digest: "DigestJSON sample_aac (RawMessage ''123'') = Inr (sample_hex 3)"
proof -
  have lex: "lex_number ''123'' = Some (''123'', '''')"
    by (simp add: lex_number_defs digit_def between_def)
  have "v2_value (v2_fuel ''123'') 0 ''123'' = Some (JNum ''123'', '''')"
    by (simp add: v2_fuel_def v2_scalar_def json_space_def lex v2_value.simps(2) [of 7, simplified])
  then have raw: "jsonv2_Marshal (RawMessage ''123'') = Inr ''123''"
    by (simp add: RawMessage_def v2_parse_def)
  have "decodeStrictJSON (print_json (JNum ''123'')) = Inr (JNum ''123'')"
    by (rule decode_print_json) (simp_all add: number_text_def lex_number_defs digit_def between_def maxJSONDepth_def)
  then show ?thesis
    using raw by (simp add: DigestJSON_def marshalDigestValue_def sample_aac_def numeral_3_eq_3)
qed

lemma response_committed: "digestAt response_members EffectResponseDigest = Inr (sample_hex 3)"
  by (simp add: digestAt_def DigestFields_def go_consts response_members_def sample_hex_pattern)

lemma note_inventory: "inventory_ok sample_aac (print_json (JObj response_members)) (Record_Artifacts (note_prepared c))"
  unfolding inventory_ok_def
proof (intro conjI exI)
  show "distinct (map Artifact_Name (Record_Artifacts (note_prepared c)))"
    by (simp add: note_prepared_def note_record_def response_artifact_def note_artifact_def secret_artifact_def
        fill_checksum_def)
  show "DecodePayload (print_json (JObj response_members)) = Inr response_members" by (rule response_decode)
  have "EffectResponseDigest \<noteq> ''''" by (simp add: go_consts)
  then show "\<forall>a \<in> set (Record_Artifacts (note_prepared c)). artifact_ok sample_aac response_members a"
    using response_digest response_committed
    by (simp add: note_prepared_def note_record_def response_artifact_def note_artifact_def secret_artifact_def
        fill_checksum_def artifact_ok_def original_ok_def namePattern_def alnum_def between_def)
qed

lemma note_limits: "length c \<le> 1024 \<Longrightarrow> within_limits (note_prepared c)"
proof -
  have "length (print_json (JObj response_members)) \<le> 1024"
    by (simp add: response_members_def go_consts print_string_def print_char_def sample_hex_def hex_nibble_def)
  then show "length c \<le> 1024 \<Longrightarrow> within_limits (note_prepared c)"
    by (simp add: within_limits_def record_length_def note_prepared_def note_record_def fill_checksum_def
        response_artifact_def note_artifact_def secret_artifact_def content_length_def
        max_artifacts_def max_envelope_def max_record_def trusted_key_def sample_hex_def)
qed

lemma note_prepare: "length c \<le> 1024 \<Longrightarrow> Prepare (note_record c) = Inr (note_prepared c)"
proof -
  assume "length c \<le> 1024"
  then have "within_limits (note_prepared c)" by (rule note_limits)
  then have "within_limits (note_record c)" by (simp add: note_prepared_def within_limits_def)
  then show ?thesis
    by (simp add: Prepare_Inr_iff note_prepared_def)
      (simp add: note_record_def preparable_def response_artifact_def note_artifact_def secret_artifact_def)
qed

lemma note_record_ok: "record_ok sample_aac [trusted_key] (note_prepared c)"
  using response_signed [of c] note_inventory [of c] signed_ok_cong [of "note_prepared c" "note_record c"]
  by (simp add: record_ok_def note_prepared_def note_record_def)

lemma note_admit:
  assumes "length c \<le> 1024"
  obtains hash where "admit sample_aac [trusted_key] (note_record c) = Inr (note_prepared c, hash)"
  using checksum_defined [OF note_record_ok [of c]] note_prepare [OF assms] note_record_ok [of c]
  by (auto simp: admit_Inr_iff)

lemma note_admitted: "length c \<le> 1024 \<Longrightarrow> admitted sample_aac [trusted_key] (note_prepared c)"
  using note_admit admit_InrD(1) by metis

lemma note_id [simp]: "Record_CapsuleID (note_record c) = sample_hex 5" "Record_CapsuleID (note_prepared c) = sample_hex 5"
  by (simp_all add: note_record_def note_prepared_def)

lemma open_sample: "open_ok ''ns'' [trusted_key]"
  by (simp add: open_ok_def namePattern_def alnum_def between_def trusted_key_def)

text \<open>A second record, under another identifier and without artifacts.\<close>

definition bare_record :: Record where
  "bare_record = \<lparr>Record_CapsuleID = sample_hex 6, Record_Capsule = Built_JSON (sample_capsule (sample_hex 6)),
     Record_ProducerEnvelope = sample_hex 6 @ trusted_key, Record_Artifacts = []\<rparr>"

lemma bare_admitted: "admitted sample_aac [trusted_key] bare_record"
proof -
  have verifies: "verifies sample_aac (Built_JSON (sample_capsule (sample_hex 6))) (sample_hex 6)"
    by (rule sample_capsule_verifies [OF sample_hex_pattern])
  then obtain m where m: "DecodePayload (Built_JSON (sample_capsule (sample_hex 6))) = Inr m"
    by (auto simp: verifies_def VerifyCapsule_def split: sum.splits)
  have "signed_ok sample_aac [trusted_key] bare_record"
    using verifies sample_hex_pattern [of 6]
    by (simp add: signed_ok_def bare_record_def VerifyEnvelope_def Let_def sample_aac_def sample_envelope_verify_def
        trusted_key_def sample_hex_def authorized_def)
  moreover have "length (Built_JSON (sample_capsule (sample_hex 6))) \<le> 1024"
    by (simp add: sample_capsule_def Let_def go_consts print_string_def print_char_def sample_hex_def hex_nibble_def)
  ultimately show ?thesis
    using m by (simp add: admitted_def record_ok_def inventory_ok_def within_limits_def record_length_def bare_record_def
        max_artifacts_def max_envelope_def max_record_def trusted_key_def sample_hex_def)
qed

text \<open>A JSONL store with one record.\<close>

definition fresh_store :: Store where
  "fresh_store = \<lparr>Store_path = ''artifacts.jsonl'', Store_namespace = ''ns'', Store_trusted = [trusted_key],
     Store_index = []\<rparr>"

lemma fresh_layout: "jsonl_layout sample_aac [trusted_key] [] (fresh_store, Some [])"
  by (simp add: jsonl_layout_def fresh_store_def)

lemma fresh_inv: "jsonl_inv sample_aac [trusted_key] (fresh_store, Some [])"
  using fresh_layout by (auto simp: jsonl_inv_def)

lemma fresh_holds: "jsonl_holds (fresh_store, Some []) cid = None"
  using layout_holds_None [OF fresh_layout] by simp

text \<open>A SQL store on tables just created.\<close>

definition sample_sql :: sql_store where
  "sample_sql = \<lparr>Sql_namespace = ''ns'', Sql_trusted = [trusted_key]\<rparr>"

definition sample_mysql :: mysql_store where
  "sample_mysql = \<lparr>Mysql_namespace = ''ns'', Mysql_trusted = [trusted_key]\<rparr>"

lemma sample_mysql_sql [simp]: "as_sql sample_mysql = sample_sql" "Mysql_trusted sample_mysql = [trusted_key]"
  by (simp_all add: as_sql_def sample_mysql_def sample_sql_def)

definition sample_dialect :: sql_dialect where
  "sample_dialect = sqlite_dialect Some"

definition empty_tables :: sql_db where
  "empty_tables = \<lparr>Db_capsules = Some [], Db_artifacts = Some []\<rparr>"

lemma sample_env_ok: "sql_env_ok sample_aac sample_dialect" "sql_env_ok sample_aac (mysql_dialect Some)"
  by (simp_all add: sample_dialect_def sqlite_env_ok mysql_env_ok sample_aac_def sample_envelope_verify_def)

lemma empty_tables_inv:
  "sql_env_ok sample_aac D \<Longrightarrow> sql_inv sample_aac D sample_sql empty_tables"
  "sql_inv sample_aac (sqlite_dialect blob) sample_sql empty_tables"
  "sql_inv sample_aac (mysql_dialect blob) sample_sql empty_tables"
  by (simp_all add: sql_inv_def sqlite_env_ok mysql_env_ok tables_ok_def empty_tables_def read_rows_def call_def
      no_sql_faults_def sample_aac_def sample_envelope_verify_def)

lemma empty_inv: "sql_inv sample_aac sample_dialect sample_sql empty_tables"
  "sql_inv sample_aac (mysql_dialect Some) sample_sql empty_tables"
  by (simp_all add: sample_env_ok empty_tables_inv)

lemma empty_holds: "sql_holds D sample_sql empty_tables cid = None"
  by (simp add: sql_holds_def empty_tables_def read_rows_def call_def no_sql_faults_def)

lemma note_stored: "c \<noteq> '''' \<Longrightarrow> stored (note_prepared c) = note_prepared c"
  by (simp add: stored_def note_prepared_def note_record_def stored_artifact_def stored_content_def
      fill_checksum_def response_artifact_def note_artifact_def secret_artifact_def)

text \<open>The JSONL store after the first \<open>Put\<close>.\<close>

lemma note_put:
  obtains sd where "jsonl_Put sample_aac no_faults (note_record ''hi'') (fresh_store, Some []) = (None, sd)"
    "jsonl_inv sample_aac [trusted_key] sd" "jsonl_holds sd (sample_hex 5) = Some (note_prepared ''hi'')"
proof -
  obtain hash where admit: "admit sample_aac [trusted_key] (note_record ''hi'') = Inr (note_prepared ''hi'', hash)"
    by (rule note_admit [of "''hi''"]) simp_all
  obtain err sd where put: "jsonl_Put sample_aac no_faults (note_record ''hi'') (fresh_store, Some []) = (err, sd)"
    by (rule prod.exhaust)
  have "(err, jsonl_holds sd) = spec_put sample_aac [trusted_key] stored (note_record ''hi'') (jsonl_holds (fresh_store, Some []))"
    by (rule jsonl.put_exact [OF fresh_inv refl put])
  then have "err = None" "jsonl_holds sd (sample_hex 5) = Some (note_prepared ''hi'')"
    using admit by (simp_all add: spec_put_def fresh_holds note_stored)
  with put jsonl.put_inv [OF fresh_inv jsonl.faultless_clean [OF refl] put] show thesis by (intro that) simp_all
qed

text \<open>The same on the tables of SQLite.\<close>

lemma note_sql_put:
  obtains db where "sql_Put sample_aac sample_dialect sample_sql no_sql_faults (note_record ''hi'') empty_tables = (None, db)"
    "sql_inv sample_aac sample_dialect sample_sql db"
    "sql_holds sample_dialect sample_sql db (sample_hex 5) = Some (sql_keep sample_dialect (note_prepared ''hi''))"
proof -
  have trusted: "Sql_trusted sample_sql = [trusted_key]" by (simp add: sample_sql_def)
  obtain hash where admit: "admit sample_aac [trusted_key] (note_record ''hi'') = Inr (note_prepared ''hi'', hash)"
    by (rule note_admit [of "''hi''"]) simp_all
  obtain err db where put: "sql_Put sample_aac sample_dialect sample_sql no_sql_faults (note_record ''hi'') empty_tables = (err, db)"
    by (rule prod.exhaust)
  have "(err, sql_holds sample_dialect sample_sql db) = spec_put sample_aac (Sql_trusted sample_sql)
      (sql_keep sample_dialect) (note_record ''hi'') (sql_holds sample_dialect sample_sql empty_tables)"
    by (rule sql.put_exact [OF empty_inv(1) refl put])
  then have "err = None"
    "sql_holds sample_dialect sample_sql db (sample_hex 5) = Some (sql_keep sample_dialect (note_prepared ''hi''))"
    using admit by (simp_all add: trusted spec_put_def empty_holds)
  with put sql.put_inv [OF empty_inv(1) sql.faultless_clean [OF refl] put] show thesis by (intro that) simp_all
qed

text \<open>What was put is read back.\<close>

lemma note_put_get:
  obtains sd r where "jsonl_Put sample_aac no_faults (note_record ''hi'') (fresh_store, Some []) = (None, sd)"
    "jsonl_Get sample_aac no_faults (sample_hex 5) sd = Inr r"
proof (rule note_put)
  fix sd assume sd: "jsonl_Put sample_aac no_faults (note_record ''hi'') (fresh_store, Some []) = (None, sd)"
    "jsonl_inv sample_aac [trusted_key] sd" "jsonl_holds sd (sample_hex 5) = Some (note_prepared ''hi'')"
  have "jsonl_Get sample_aac no_faults (sample_hex 5) sd = Inr (note_prepared ''hi'')"
    using jsonl.get_exact [OF sd(2) refl, of "sample_hex 5"] sd(3) sample_hex_pattern [of 5]
      note_record_ok [of "''hi''"] Verify_ok_iff [of sample_aac "note_prepared ''hi''" "[trusted_key]"]
    by (auto simp: spec_get_def split: sum.splits)
  with sd(1) show thesis by (rule that)
qed

lemma note_sql_put_get:
  obtains db r where "sql_Put sample_aac sample_dialect sample_sql no_sql_faults (note_record ''hi'') empty_tables = (None, db)"
    "sql_Get sample_aac sample_dialect sample_sql no_sql_faults (sample_hex 5) db = Inr r"
proof (rule note_sql_put)
  fix db assume db: "sql_Put sample_aac sample_dialect sample_sql no_sql_faults (note_record ''hi'') empty_tables = (None, db)"
    "sql_inv sample_aac sample_dialect sample_sql db"
    "sql_holds sample_dialect sample_sql db (sample_hex 5) = Some (sql_keep sample_dialect (note_prepared ''hi''))"
  let ?p = "sql_keep sample_dialect (note_prepared ''hi'')"
  have "Driver_blob sample_dialect = blob_of (Some '''')"
    by (simp add: sample_dialect_def sqlite_dialect_def blob_of_def fun_eq_iff)
  moreover have "whole (note_prepared ''hi'')"
    by (simp add: whole_def note_prepared_def note_record_def fill_checksum_def response_artifact_def note_artifact_def
        secret_artifact_def)
  ultimately have "record_ok sample_aac [trusted_key] ?p"
    using note_admitted [of "''hi''"] by (intro sql_faithful) simp_all
  then have "sql_Get sample_aac sample_dialect sample_sql no_sql_faults (sample_hex 5) db = Inr ?p"
    using sql.get_exact [OF db(2) refl, of "sample_hex 5"] db(3) sample_hex_pattern [of 5]
      Verify_ok_iff [of sample_aac ?p "[trusted_key]"]
    by (auto simp: spec_get_def sample_sql_def split: sum.splits)
  with db(1) show thesis by (rule that)
qed

text \<open>The sealed agent call, filed with its payload and an attachment.\<close>

lemma sample_envelope_accepts: "envelope_accepts sample_aac sample_cose"
  by (auto simp: envelope_accepts_def sample_aac_def sample_envelope_verify_def sample_cose_def unsigned_message_def
      Let_def PublicKeySize_def length_hex split: if_splits)

definition payload_original :: Artifact where
  "payload_original = \<lparr>Artifact_Name = ''payload'', Artifact_Binding = PayloadDigest,
     Artifact_Content = Some ''{\"leaf_index\":7}'', Artifact_State = Present, Artifact_ContentSHA256 = ''''\<rparr>"

lemma payload_marshal: "marshalDigestValue (RawMessage ''{\"leaf_index\":7}'') = marshalDigestValue (Seal_Payload sample_seal)"
proof -
  have "v2_parse ''{\"leaf_index\":7}'' = Some (JObj [(''leaf_index'', JNum ''7'')])" by code_simp
  moreover have "v2_print (JObj [(''leaf_index'', JNum ''7'')]) = ''{\"leaf_index\":7}''" by code_simp
  ultimately show ?thesis by (simp add: RawMessage_def sample_seal_def marshalDigestValue_def)
qed

lemma payload_original_of: "original_of sample_seal payload_original" "c \<noteq> '''' \<Longrightarrow> original_of sample_seal (note_artifact c)"
  using payload_marshal
  by (simp_all add: original_of_def payload_original_def note_artifact_def same_json_def sample_seal_def
      namePattern_def alnum_def between_def)

lemma sealed_key: "identity_publicKey (Seal_Identity sample_seal) \<in> set [trusted_key]"
  by (simp add: sample_seal_def sample_identity_def sample_key_def ed25519_Public_def trusted_key_def)

lemma sample_signed_length: "Sign sample_aac sample_cose rnd b identity = Inr env \<Longrightarrow> length env = 96"
proof (erule Sign_InrE)
  fix signer payload message verifier
  assume *: "length (identity_publicKey identity) = PublicKeySize" "hexDigestPattern (Built_CapsuleID b)"
    "hex_DecodeString (Built_CapsuleID b) = Some payload"
    "cose_Sign sample_cose rnd (unsigned_message (identity_publicKey identity) payload) signer = Inr message"
    "cose_NewVerifier sample_cose AlgorithmEdDSA (identity_publicKey identity) = Inr verifier"
    "cose_Verify sample_cose message verifier = None" "cose_MarshalCBOR sample_cose message = Inr env"
  have "length payload = 32" using *(2,3) hex_capsule_id by fastforce
  with * show "length env = 96"
    by (auto simp: sample_cose_def unsigned_message_def Let_def PublicKeySize_def length_hex split: if_splits)
qed

lemma print_chars_length: "length (concat (map print_char s)) \<le> 6 * length s"
  by (induction s) (auto simp: print_char_def)

lemma sample_time: "length (concat (map print_char (format_seconds 63902880000123456000))) \<le> 114"
  "length (concat (map print_char (pad 6 123456))) \<le> 36"
  using print_chars_length [of "format_seconds 63902880000123456000"] print_chars_length [of "pad 6 123456"]
  by (simp_all add: format_seconds_length year_9999_def length_pad)

lemma sealed_limits:
  assumes "Seal sample_aac sample_cose [] in_order sample_seal = Inr r"
  shows "within_limits (sealed_record r [payload_original, note_artifact ''hi''])"
proof -
  have r: "Result_Payload r = Built_JSON (plain_built sealed_input)" "Sign sample_aac sample_cose [] (plain_built sealed_input) sample_identity = Inr (Result_Envelope r)"
    using assms sample_seal_build by (auto elim!: Seal_InrE simp: sample_seal_def)
  have "length (Built_JSON (plain_built sealed_input)) \<le> 4096"
    using sample_time
    by (simp add: plain_built_def sealed_input_def plain_input_eval print_string_def sample_hex_def hex_nibble_def
        print_char_def formatTimestamp_def)
  moreover have "length (Result_Envelope r) = 96"
    using r(2) by (rule sample_signed_length)
  ultimately show ?thesis using r(1)
    by (simp add: within_limits_def record_length_def sealed_record_def payload_original_def note_artifact_def
        content_length_def max_artifacts_def max_envelope_def max_record_def)
qed

text \<open>A line that breaks off after its identifier.\<close>

definition damaged_line :: bytes where
  "damaged_line = ''{\"capsule_id\":\"'' @ sample_hex 6 @ ''\",''"

lemma damaged_line_sample:
  "clean_line damaged_line" "peek damaged_line = (sample_hex 6, False)" "unmarshalRecord damaged_line = None"
proof -
  show "peek damaged_line = (sample_hex 6, False)" "unmarshalRecord damaged_line = None" by code_simp+
  have "newline \<notin> set damaged_line" "last damaged_line \<noteq> carriage_return" "length damaged_line = 81" by code_simp+
  then show "clean_line damaged_line" by (simp add: clean_line_def max_line_def)
qed

section \<open>Two goroutines\<close>

text \<open>
  The first goroutine puts the record, the second asks for it; the second has called before
  the first has taken the mutex, and waits for it.
\<close>

definition pair :: "nat option \<Rightarrow> Store \<times> disk \<Rightarrow> phase \<Rightarrow> phase \<Rightarrow> system" where
  "pair m sd p q = \<lparr>Mutex = m, Shared = sd, Phase = (\<lambda>_. Idle)(0 := p, 1 := q)\<rparr>"

lemma pair_simps [simp]:
  "Mutex (pair m sd p q) = m" "Shared (pair m sd p q) = sd" "keys_of (pair m sd p q) = Store_trusted (fst sd)"
  "Phase (pair m sd p q) 0 = p" "Phase (pair m sd p q) 1 = q" "Phase (pair m sd p q) (Suc 0) = q"
  "turn (pair m sd p q) 0 p' = pair m sd p' q" "turn (pair m sd p q) (Suc 0) q' = pair m sd p q'"
  "pair m sd p q\<lparr>Mutex := m'\<rparr> = pair m' sd p q" "pair m sd p q\<lparr>Shared := sd'\<rparr> = pair m sd' p q"
  by (auto simp: pair_def keys_of_def)

lemma quiet_pair: "quiet sd = pair None sd Idle Idle"
  by (auto simp: quiet_def pair_def)

abbreviation put_note :: jsonl_call where "put_note \<equiv> CallPut (note_record ''hi'')"
abbreviation get_note :: jsonl_call where "get_note \<equiv> CallGet (sample_hex 5)"

text \<open>The steps of the two.\<close>

lemma pair_runs:
  "thread_run A (pair m sd (Entering j io) q) tr c \<Longrightarrow> thread_run A (pair m sd Idle q) (Call 0 j io # tr) c"
  "enter A (Store_trusted (fst sd)) j = Inr x \<Longrightarrow> thread_run A (pair m sd (Waiting j io x) q) tr c \<Longrightarrow>
     thread_run A (pair m sd (Entering j io) q) (Tau 0 # tr) c"
  "thread_run A (pair (Some 0) sd (Holding j io x) q) tr c \<Longrightarrow> thread_run A (pair None sd (Waiting j io x) q) (Tau 0 # tr) c"
  "rank x \<noteq> 0 \<Longrightarrow> section_step A io (x, sd) = (y, sd') \<Longrightarrow> thread_run A (pair m sd' (Holding j io y) q) tr c \<Longrightarrow>
     thread_run A (pair m sd (Holding j io x) q) (Tau 0 # tr) c"
  "deferred j \<Longrightarrow> settle A (Store_trusted (fst sd)) j out = ans \<Longrightarrow>
     thread_run A (pair None sd (Settling j out) q) tr c \<Longrightarrow>
     thread_run A (pair m sd (Holding j io (Leave out)) q) (Lin 0 j io ans # tr) c"
  "settle A (Store_trusted (fst sd)) j out = ans \<Longrightarrow> thread_run A (pair m sd Idle q) tr c \<Longrightarrow>
     thread_run A (pair m sd (Settling j out) q) (Ret 0 ans # tr) c"
  "thread_run A (pair m sd q (Entering j io)) tr c \<Longrightarrow> thread_run A (pair m sd q Idle) (Call 1 j io # tr) c"
  "enter A (Store_trusted (fst sd)) j = Inr x \<Longrightarrow> thread_run A (pair m sd q (Waiting j io x)) tr c \<Longrightarrow>
     thread_run A (pair m sd q (Entering j io)) (Tau 1 # tr) c"
  "thread_run A (pair (Some 1) sd q (Holding j io x)) tr c \<Longrightarrow> thread_run A (pair None sd q (Waiting j io x)) (Tau 1 # tr) c"
  "rank x \<noteq> 0 \<Longrightarrow> section_step A io (x, sd) = (y, sd') \<Longrightarrow> thread_run A (pair m sd' q (Holding j io y)) tr c \<Longrightarrow>
     thread_run A (pair m sd q (Holding j io x)) (Tau 1 # tr) c"
  "settle A (Store_trusted (fst sd)) j out = ans \<Longrightarrow> thread_run A (pair None sd q (Settling j out)) tr c \<Longrightarrow>
     thread_run A (pair m sd q (Holding j io (Unlock out))) (Lin 1 j io ans # tr) c"
  "settle A (Store_trusted (fst sd)) j out = ans \<Longrightarrow> thread_run A (pair m sd q Idle) tr c \<Longrightarrow>
     thread_run A (pair m sd q (Settling j out)) (Ret 1 ans # tr) c"
  using run_cons [OF thread_step.invoke [of "pair m sd Idle q" 0 A j io], of tr c]
    run_cons [OF thread_step.ready [of "pair m sd (Entering j io) q" 0 j io A x], of tr c]
    run_cons [OF thread_step.lock [of "pair None sd (Waiting j io x) q" 0 j io x A], of tr c]
    run_cons [OF thread_step.work [of "pair m sd (Holding j io x) q" 0 j io x A y sd'], of tr c]
    run_cons [OF thread_step.leave [of "pair m sd (Holding j io (Leave out)) q" 0 j io out A], of tr c]
    run_cons [OF thread_step.return [of "pair m sd (Settling j out) q" 0 j out A], of tr c]
    run_cons [OF thread_step.invoke [of "pair m sd q Idle" 1 A j io], of tr c]
    run_cons [OF thread_step.ready [of "pair m sd q (Entering j io)" 1 j io A x], of tr c]
    run_cons [OF thread_step.lock [of "pair None sd q (Waiting j io x)" 1 j io x A], of tr c]
    run_cons [OF thread_step.work [of "pair m sd q (Holding j io x)" 1 j io x A y sd'], of tr c]
    run_cons [OF thread_step.unlock [of "pair m sd q (Holding j io (Unlock out))" 1 j io out A], of tr c]
    run_cons [OF thread_step.return [of "pair m sd q (Settling j out)" 1 j out A], of tr c]
  by simp_all

definition race_trace :: "label list" where
  "race_trace =
     [Call 0 put_note no_faults, Call 1 get_note no_faults, Tau 0, Tau 1, Tau 0, Tau 0, Tau 0, Tau 0, Tau 0,
      Lin 0 put_note no_faults (Done None), Tau 1, Tau 1, Tau 1,
      Lin 1 get_note no_faults (Found (Inr (note_prepared ''hi''))), Ret 0 (Done None),
      Ret 1 (Found (Inr (note_prepared ''hi'')))]"

text \<open>The steps of the \<open>Put\<close>, on the empty store.\<close>

definition note_line :: bytes where
  "note_line = record_line (note_prepared ''hi'')"

lemma put_note_steps:
  obtains hash where "enter sample_aac [trusted_key] put_note = Inr (PutLookup (note_prepared ''hi'') hash)"
    "put_lookup fresh_store (note_prepared ''hi'') hash = PutSeek (note_prepared ''hi'')"
    "put_seek no_faults (Some []) (note_prepared ''hi'') = PutWrite (note_prepared ''hi'') note_line 0"
proof -
  obtain hash where admit: "admit sample_aac [trusted_key] (note_record ''hi'') = Inr (note_prepared ''hi'', hash)"
    by (rule note_admit [of "''hi''"]) simp_all
  show thesis
    using enter_put [OF admit] marshal_line [OF note_admitted [of "''hi''", simplified]]
    by (intro that [of hash]) (simp_all add: put_lookup_def put_seek_def os_open_def no_faults_def fresh_store_def note_line_def)
qed

text \<open>A first goroutine that is about to write the line.\<close>

lemma about_to_write:
  "thread_run sample_aac (quiet (fresh_store, Some [])) [Call 0 put_note no_faults, Tau 0, Tau 0, Tau 0, Tau 0]
     (pair (Some 0) (fresh_store, Some []) (Holding put_note no_faults (PutWrite (note_prepared ''hi'') note_line 0)) Idle)"
proof -
  have trusted: "Store_trusted fresh_store = [trusted_key]" by (simp add: fresh_store_def)
  obtain hash where steps: "enter sample_aac [trusted_key] put_note = Inr (PutLookup (note_prepared ''hi'') hash)"
    "put_lookup fresh_store (note_prepared ''hi'') hash = PutSeek (note_prepared ''hi'')"
    "put_seek no_faults (Some []) (note_prepared ''hi'') = PutWrite (note_prepared ''hi'') note_line 0"
    by (rule put_note_steps)
  show ?thesis
    unfolding quiet_pair
    by (rule pair_runs(1), rule pair_runs(2), simp only: fst_conv trusted, rule steps(1), rule pair_runs(3))
      (rule pair_runs(4) thread_run.nothing | simp add: steps)+
qed

lemma race:
  obtains c where "thread_run sample_aac (quiet (fresh_store, Some [])) race_trace c" "Mutex c = None"
proof -
  let ?A = sample_aac and ?p = "note_prepared ''hi''" and ?n = no_faults
  let ?line = "record_line ?p" and ?s = fresh_store
  let ?e = "\<lparr>Entry_offset = 0, Entry_length = length ?line\<rparr>" and ?disk = "Some (?line @ [newline])"
  let ?t = "?s\<lparr>Store_index := [(sample_hex 5, ?e)]\<rparr>"
  note short = note_admitted [of "''hi''", simplified]
  have trusted: "Store_trusted ?s = [trusted_key]" "Store_trusted ?t = [trusted_key]" "Store_index ?s = []"
    by (simp_all add: fresh_store_def)
  obtain hash where admit: "admit ?A [trusted_key] (note_record ''hi'') = Inr (?p, hash)"
    by (rule note_admit [of "''hi''"]) simp_all
  note enter = enter_put [OF admit]
  have enter_get: "enter ?A [trusted_key] get_note = Inr (GetLookup (sample_hex 5))"
    by (simp add: enter_def sample_hex_pattern)
  have read: "readAt ?n ?disk ?e = Inr ?p"
    using unmarshal_line [OF short] by (simp add: readAt_def os_open_def no_faults_def note_stored)
  have settled: "settle ?A [trusted_key] put_note (Done None) = Done None"
    "settle ?A [trusted_key] get_note (Found (Inr ?p)) = Found (Inr ?p)"
    using note_record_ok [of "''hi''"] Verify_ok_iff [of ?A ?p "[trusted_key]"]
    by (auto simp: settle_def split: sum.splits)
  have steps: "deferred put_note" "put_lookup ?s ?p hash = PutSeek ?p" "put_seek ?n (Some []) ?p = PutWrite ?p ?line 0"
    "put_write ?n (Some []) ?p ?line 0 = (PutIndex ?p 0 (length ?line), ?disk)" "put_index ?p 0 (length ?line) ?s = ?t"
    "get_lookup ?t (sample_hex 5) = GetRead ?e"
    using marshal_line [OF short] trusted(3)
    by (simp_all add: deferred_def put_lookup_def put_seek_def put_write_def put_index_def get_lookup_def os_open_def write_at_def
        no_faults_def)
  show thesis
  proof (rule that)
    show "thread_run ?A (quiet (?s, Some [])) race_trace (pair None (?t, ?disk) Idle Idle)"
      unfolding quiet_pair race_trace_def
    proof (rule pair_runs(1), rule pair_runs(7), rule pair_runs(2), simp only: fst_conv trusted, rule enter,
        rule pair_runs(8), simp only: fst_conv trusted, rule enter_get, rule pair_runs(3), rule pair_runs(4))
      show "section_step ?A ?n (PutLookup ?p hash, ?s, Some []) = (PutSeek ?p, ?s, Some [])" by (simp add: steps)
    qed (rule pair_runs(4) pair_runs(5) pair_runs(6) pair_runs(9-12) thread_run.nothing |
        simp add: steps read trusted settled)+
  qed simp
qed

end
