(* ===== verification/PayloadSchema.thy ===== *)
theory PayloadSchema
  imports BuildFacts
begin

text \<open>
  The members of a payload, stated as a table: for every member \<open>Build\<close> can assign, the name
  it has on the wire and what it holds for a given input. Nothing here refers to the functions
  of \<open>Build\<close> that render structs to maps; the lemmas show that these functions fill the table.
\<close>

section \<open>What a member can be\<close>

type_synonym member_law = "json option \<Rightarrow> bool" \<comment> \<open>\<open>None\<close>: the member is absent\<close>

definition absent :: member_law where
  "absent x \<longleftrightarrow> x = None"

definition text_is :: "string \<Rightarrow> member_law" where
  "text_is s x \<longleftrightarrow> x = Some (JStr s)"

definition bool_is :: "bool \<Rightarrow> member_law" where
  "bool_is b x \<longleftrightarrow> x = Some (JBool b)"

text \<open>A text that is left out when it is empty, and a member that is left out with its field.\<close>

definition text_unless_empty :: "string \<Rightarrow> member_law" where
  "text_unless_empty s x \<longleftrightarrow> (if s = '''' then x = None else x = Some (JStr s))"

definition when_given :: "('a \<Rightarrow> member_law) \<Rightarrow> 'a option \<Rightarrow> member_law" where
  "when_given P f x \<longleftrightarrow> (case f of None \<Rightarrow> x = None | Some a \<Rightarrow> P a x)"

text \<open>The members of a table, and no others.\<close>

definition fills :: "(string \<times> member_law) list \<Rightarrow> members \<Rightarrow> bool" where
  "fills laws m \<longleftrightarrow> set (keys m) \<subseteq> set (map fst laws) \<and> (\<forall>(k, P) \<in> set laws. P (map_of m k))"

definition object_of :: "(string \<times> member_law) list \<Rightarrow> member_law" where
  "object_of laws x \<longleftrightarrow> (\<exists>m. x = Some (JObj m) \<and> fills laws m)"

definition object_unless_empty :: "(string \<times> member_law) list \<Rightarrow> member_law" where
  "object_unless_empty laws x \<longleftrightarrow> (if fills laws [] then x = None else object_of laws x)"

definition array_of :: "('a \<Rightarrow> member_law) \<Rightarrow> 'a list \<Rightarrow> member_law" where
  "array_of P as x \<longleftrightarrow> (\<exists>vs. x = Some (JArr vs) \<and> list_all2 (\<lambda>a v. P a (Some v)) as vs)"

lemmas member_laws = absent_def text_is_def bool_is_def text_unless_empty_def when_given_def

section \<open>The table\<close>

definition digest_members :: "string \<Rightarrow> string \<Rightarrow> string \<Rightarrow> (string \<times> member_law) list" where
  "digest_members t alg d = [(''type'', text_is t), (''digest_alg'', text_is alg), (''digest'', text_is d)]"

definition slot_schema :: "digestReference \<Rightarrow> member_law" where
  "slot_schema r = object_of
     (digest_members (digestReference_Type r) (digestReference_DigestAlg r) (digestReference_Digest r) @
      [(''slot'', text_unless_empty (digestReference_Slot r))])"

definition reference_schema :: "Reference \<Rightarrow> member_law" where
  "reference_schema r = object_of
     (digest_members (Reference_Type r) (Reference_DigestAlg r) (Reference_Digest r) @
      [(''citation_purpose'', text_unless_empty (Reference_CitationPurpose r)),
       (''log_coordinates'', when_given (\<lambda>c x. \<exists>v. marshalDigestValue c = Inr v \<and> x = Some v) (Reference_LogCoordinates r))])"

definition provenance_schema :: "ProvenanceMode \<Rightarrow> member_law" where
  "provenance_schema p = object_of
     [(''mode'', text_is (ProvenanceMode_Mode p)),
      (''source_ref'', when_given (\<lambda>r. object_of
         (digest_members (Reference_Type r) (Reference_DigestAlg r) (Reference_Digest r))) (ProvenanceMode_SourceRef p)),
      (''source_asserted_at'', text_unless_empty (ProvenanceMode_SourceAssertedAt p)),
      (''import_batch'', text_unless_empty (ProvenanceMode_ImportBatch p)),
      (''imported_at'', text_unless_empty (ProvenanceMode_ImportedAt p)),
      (''time_rung'', text_unless_empty (ProvenanceMode_TimeRung p))]"

definition disposition_schema :: "Disposition \<Rightarrow> member_law" where
  "disposition_schema d = object_of
     [(''decision'', text_is (Disposition_Decision d)),
      (''approver'', text_is (Disposition_Approver d)),
      (''human_disposed'', bool_is (Disposition_HumanDisposed d)),
      (''verdict_class'', text_unless_empty (Disposition_VerdictClass d)),
      (''reason_digest'', text_unless_empty (Disposition_ReasonDigest d))]"

definition effect_schema :: "Effect \<Rightarrow> member_law" where
  "effect_schema e = object_of
     [(''type'', text_is (Effect_Type e)),
      (''status'', text_is (Effect_Status e)),
      (''irreversibility_class'', text_is (Effect_IrreversibilityClass e)),
      (''effect_attestation'', text_unless_empty (Effect_EffectAttestation e)),
      (''request_digest'', text_unless_empty (Effect_RequestDigest e)),
      (''response_digest'', text_unless_empty (Effect_ResponseDigest e)),
      (''external_ref'', text_unless_empty (Effect_ExternalRef e))]"

definition chain_schema :: "Chain \<Rightarrow> member_law" where
  "chain_schema c = object_of
     [(''parent_capsule_id'', text_is (Chain_ParentCapsuleID c)), (''relation'', text_is (Chain_Relation c))]"

text \<open>What was done to the world, as the caller states it, and whether a parent is named.\<close>

definition assurance_schema :: "Input \<Rightarrow> member_law" where
  "assurance_schema i = object_of
     [(''effect_mode'', text_is
        (case map_option Effect_Status (Input_Effect i) of
           None \<Rightarrow> EffectModeNotApplicable
         | Some st \<Rightarrow>
             if st = EffectPlanned then EffectModeNotApplicable
             else if st = EffectConfirmed then EffectModeConfirmed else EffectModeDispatchedUnconfirmed)),
      (''attestation_mode'', text_is AttestationModeSelfAttested),
      (''ledger_mode'', text_is
        (case Input_Chain i of None \<Rightarrow> LedgerModeStandalone | Some _ \<Rightarrow> LedgerModeChained))]"

definition compute_members :: "Input \<Rightarrow> (string \<times> member_law) list" where
  "compute_members i =
     (let stated = (\<lambda>field. when_given (\<lambda>c. text_unless_empty (field c)) (Input_Compute i));
          bound = (\<lambda>P. when_given (\<lambda>b. when_given (P b) (CarriedArtifact b)) (Input_binding i)) in
      [(''agent_input_digest'', stated Compute_AgentInputDigest),
       (''agent_output_digest'', stated Compute_AgentOutputDigest),
       (''runtime'', stated Compute_Runtime),
       (''carried_artifact'', bound (\<lambda>b. slot_schema)),
       (''carried_input_digest'', bound (\<lambda>b r. text_is (CarriedInputDigest b))),
       (''composed_members'', when_given
          (\<lambda>b. if ComposedMembers b = [] then absent else array_of slot_schema (ComposedMembers b)) (Input_binding i))])"

definition attestation_members :: "Input \<Rightarrow> (string \<times> member_law) list" where
  "attestation_members i =
     [(''provider'', when_given (\<lambda>m. text_unless_empty (Model_Provider m)) (Input_Model i)),
      (''model_id'', when_given (\<lambda>m. text_unless_empty (Model_ModelID m)) (Input_Model i)),
      (''compute_attestation'', object_unless_empty (compute_members i))]"

definition base_schema :: "Input \<Rightarrow> (string \<times> member_law) list" where
  "base_schema i =
     [(''spec_version'', text_is (if Input_specVersion i = '''' then SpecVersion else Input_specVersion i)),
      (''format_version'', text_is FormatVersion),
      (''canonicalization_id'', text_is CanonicalizationID),
      (''action_id'', text_is (Input_ActionID i)),
      (''action_type'', text_is (Input_ActionType i)),
      (''operator'', text_is (Input_Operator i)),
      (''developer'', text_is (Input_Developer i)),
      (''timestamp'', text_is (formatTimestamp (Input_Timestamp i))),
      (''assurance'', assurance_schema i),
      (''epoch_id'', text_unless_empty (Input_EpochID i)),
      (''domain'', text_unless_empty (Input_Domain i)),
      (''provenance'', text_unless_empty (Input_Provenance i)),
      (''provenance_mode'', when_given provenance_schema (Input_ProvenanceMode i)),
      (''disposition'', when_given disposition_schema (Input_Disposition i)),
      (''effect'', when_given effect_schema (Input_Effect i)),
      (''chain'', when_given chain_schema (Input_Chain i)),
      (''model_attestation'', object_unless_empty (attestation_members i)),
      (''references'', when_given (array_of reference_schema) (Input_References i))]"

section \<open>The rendering functions fill the table\<close>

lemma object_of_JObj: "object_of laws (Some (JObj m)) \<longleftrightarrow> fills laws m"
  by (simp add: object_of_def)

lemma fills_Nil [simp]: "fills [] m \<longleftrightarrow> m = []"
  by (simp add: fills_def)

lemma keys_within: "fst ` set m \<subseteq> S \<Longrightarrow> set (keys m) \<subseteq> S"
  by simp

lemma slot_schema_map: "slot_schema r (Some (JObj (digestReferenceMap r)))"
  by (auto simp: slot_schema_def object_of_def fills_def digest_members_def digestReferenceMap_def member_laws)

lemma plain_schema_map:
  "object_of (digest_members (Reference_Type r) (Reference_DigestAlg r) (Reference_Digest r))
     (Some (JObj (digestReferenceMap (plain_reference r))))"
  by (auto simp: object_of_def fills_def digest_members_def digestReferenceMap_def plain_reference_def member_laws)

lemma reference_schema_value: "reference_value r = Inr v \<Longrightarrow> reference_schema r (Some v)"
  by (auto simp: reference_value_def reference_schema_def object_of_JObj fills_def digest_members_def
      digestReferenceMap_def plain_reference_def member_laws Let_def split: option.splits sum.splits if_splits)

lemma provenance_schema_map: "provenance_schema p (Some (JObj (provenanceModeMap p)))"
  using plain_schema_map
  by (auto simp: provenance_schema_def object_of_JObj fills_def provenanceModeMap_def member_laws split: option.splits)

lemma disposition_schema_map: "disposition_schema d (Some (JObj (dispositionMap d)))"
  by (auto simp: disposition_schema_def object_of_def fills_def dispositionMap_def member_laws)

lemma effect_schema_map: "effect_schema e (Some (JObj (effectMap e)))"
  by (auto simp: effect_schema_def object_of_def fills_def effectMap_def member_laws)

lemma chain_schema_map: "chain_schema c (Some (JObj (chainMap c)))"
  by (auto simp: chain_schema_def object_of_def fills_def chainMap_def member_laws)

lemma assurance_schema_map: "assurance_schema i (Some (JObj (assuranceMap (Input_Effect i) (Input_Chain i))))"
  by (auto simp: assurance_schema_def object_of_def fills_def assuranceMap_def effect_mode_def member_laws
      split: option.splits)

lemma array_of_map: "(\<And>a. P a (Some (f a))) \<Longrightarrow> array_of P as (Some (JArr (map f as)))"
  by (simp add: array_of_def list_all2_conv_all_nth)

text \<open>The map of the compute attestation, key by key.\<close>

lemma compute_keys:
  "set (keys (computeAttestationMap c b)) \<subseteq> {''agent_input_digest'', ''agent_output_digest'', ''runtime'',
     ''carried_artifact'', ''carried_input_digest'', ''composed_members''}"
  by (cases c; cases b; cases "CarriedArtifact (the b)") (simp_all add: computeAttestationMap_def Let_def)

lemma compute_lookup:
  "map_of (computeAttestationMap c b) ''agent_input_digest'' = Option.bind c (\<lambda>c.
     if Compute_AgentInputDigest c = [] then None else Some (JStr (Compute_AgentInputDigest c)))"
  "map_of (computeAttestationMap c b) ''agent_output_digest'' = Option.bind c (\<lambda>c.
     if Compute_AgentOutputDigest c = [] then None else Some (JStr (Compute_AgentOutputDigest c)))"
  "map_of (computeAttestationMap c b) ''runtime'' = Option.bind c (\<lambda>c.
     if Compute_Runtime c = [] then None else Some (JStr (Compute_Runtime c)))"
  "map_of (computeAttestationMap c b) ''carried_artifact'' = Option.bind b (\<lambda>b.
     map_option (\<lambda>r. JObj (digestReferenceMap r)) (CarriedArtifact b))"
  "map_of (computeAttestationMap c b) ''carried_input_digest'' = Option.bind b (\<lambda>b.
     map_option (\<lambda>r. JStr (CarriedInputDigest b)) (CarriedArtifact b))"
  "map_of (computeAttestationMap c b) ''composed_members'' = Option.bind b (\<lambda>b.
     if ComposedMembers b = [] then None
     else Some (JArr (map (\<lambda>r. JObj (digestReferenceMap r)) (ComposedMembers b))))"
  by (simp_all add: computeAttestationMap_def Let_def split: option.split)

lemma compute_members_map: "fills (compute_members i) (computeAttestationMap (Input_Compute i) (Input_binding i))"
proof -
  have "set (map fst (compute_members i)) = {''agent_input_digest'', ''agent_output_digest'', ''runtime'',
     ''carried_artifact'', ''carried_input_digest'', ''composed_members''}"
    by (simp add: compute_members_def Let_def)
  moreover have "\<forall>(k, P) \<in> set (compute_members i).
      P (map_of (computeAttestationMap (Input_Compute i) (Input_binding i)) k)"
    using slot_schema_map array_of_map [of slot_schema, OF slot_schema_map]
    by (simp add: compute_members_def Let_def compute_lookup member_laws split: option.split)
  ultimately show ?thesis unfolding fills_def using compute_keys by (simp only:)
qed

text \<open>A law that allows a member to be absent allows nothing else for the same input.\<close>

definition decided :: "member_law \<Rightarrow> bool" where
  "decided P \<longleftrightarrow> (P None \<longrightarrow> (\<forall>x. P x \<longrightarrow> x = None))"

lemma decided_laws:
  "decided absent" "decided (text_is s)" "decided (text_unless_empty s)" "decided (object_of laws)"
  "decided (array_of Q as)" "decided (object_unless_empty laws)"
  by (auto simp: decided_def absent_def text_is_def text_unless_empty_def object_of_def array_of_def
      object_unless_empty_def)

lemma decided_when_given: "(\<And>a. f = Some a \<Longrightarrow> decided (P a)) \<Longrightarrow> decided (when_given P f)"
  by (auto simp: decided_def when_given_def split: option.splits)

lemma unless_empty:
  assumes "fills laws m" and "\<forall>(k, P) \<in> set laws. decided P"
  shows "object_unless_empty laws (if m = [] then None else Some (JObj m))"
proof (cases "m = []")
  case False
  then obtain k v where k: "map_of m k = Some v" by (cases m) (auto intro: that [of "fst (hd m)"])
  then have "k \<in> set (keys m)" by (force dest: map_of_SomeD)
  then have "k \<in> set (map fst laws)" using assms(1) unfolding fills_def by blast
  then obtain P where P: "(k, P) \<in> set laws" by auto
  with assms k have "decided P" "P (Some v)" by (auto simp: fills_def)
  then have "\<not> P None" by (auto simp: decided_def)
  with P have "\<not> fills laws []" by (auto simp: fills_def)
  with assms(1) False show ?thesis by (simp add: object_unless_empty_def object_of_JObj)
qed (use assms(1) in \<open>simp add: object_unless_empty_def\<close>)

lemma compute_members_decided: "\<forall>(k, P) \<in> set (compute_members i). decided P"
  by (simp add: compute_members_def Let_def slot_schema_def decided_when_given decided_laws)

lemma attestation_members_decided: "\<forall>(k, P) \<in> set (attestation_members i). decided P"
  by (simp add: attestation_members_def decided_when_given decided_laws)

lemma attestation_members_map:
  "object_unless_empty (attestation_members i) (map_option JObj (modelAttestationMap i))"
proof -
  let ?c = "computeAttestationMap (Input_Compute i) (Input_binding i)"
  define m where "m = put_if (?c \<noteq> []) ''compute_attestation'' (JObj ?c)
    (case Input_Model i of None \<Rightarrow> []
     | Some d \<Rightarrow> put_str ''provider'' (Model_Provider d) (put_str ''model_id'' (Model_ModelID d) []))"
  have "map_option JObj (modelAttestationMap i) = (if m = [] then None else Some (JObj m))"
    by (simp add: modelAttestationMap_def Let_def m_def)
  moreover have "fills (attestation_members i) m"
    using unless_empty [OF compute_members_map compute_members_decided, of i]
    by (auto simp: fills_def attestation_members_def m_def member_laws split: option.splits)
  ultimately show ?thesis using unless_empty attestation_members_decided by auto
qed

text \<open>Every member but the references is as the table says before extensions are added.\<close>

lemma base_payload_texts:
  "text_is (if Input_specVersion i = '''' then SpecVersion else Input_specVersion i) (map_of (base_payload i) ''spec_version'')"
  "text_unless_empty (Input_EpochID i) (map_of (base_payload i) ''epoch_id'')"
  "text_unless_empty (Input_Domain i) (map_of (base_payload i) ''domain'')"
  "text_unless_empty (Input_Provenance i) (map_of (base_payload i) ''provenance'')"
  by (simp_all add: base_payload_def member_laws)

lemma when_given_map: "(\<And>a. P a (Some (f a))) \<Longrightarrow> when_given P x (map_option f x)"
  by (simp add: when_given_def split: option.split)

lemma base_payload_member:
  "\<forall>(k, P) \<in> set (base_schema i). k \<noteq> ''references'' \<longrightarrow> P (map_of (base_payload i) k)"
  unfolding base_schema_def list.set ball_simps prod.case
  by (intro conjI impI base_payload_texts)
    (simp_all only: base_payload_profile base_payload_optional text_is_def assurance_schema_map
      attestation_members_map when_given_map provenance_schema_map disposition_schema_map effect_schema_map
      chain_schema_map not_True_eq_False simp_thms)

lemma base_schema_names: "set (map fst (base_schema i)) \<subseteq> set baseMembers - {''capsule_id''}"
  by (simp add: base_schema_def baseMembers_def)

text \<open>The base members that the table does not have are reserved names, which \<open>Build\<close> never writes.\<close>

lemma base_payload_within: "set (keys (base_payload i)) \<subseteq> set (map fst (base_schema i))"
  unfolding base_payload_def set_map
  by (rule keys_put_subset(3), rule keys_put_subset(3), rule keys_put_subset(3), rule keys_put_subset(3),
      rule keys_put_subset(3), rule keys_put_subset(2), rule keys_put_subset(2), rule keys_put_subset(2))
    (simp_all add: base_schema_def)

lemma Build_keys:
  assumes "range_ok rng" and "Build A rng i = Inr b"
  shows "set (keys (Built_Value b)) \<subseteq>
    insert ''capsule_id'' (set (map fst (base_schema i))) \<union> Extension_Name ` set (Input_Extensions i)"
proof
  fix k assume k: "k \<in> set (keys (Built_Value b))"
  then have some: "map_of (Built_Value b) k \<noteq> None" by (simp add: map_of_eq_None_iff)
  consider "k \<in> Extension_Name ` set (Input_Extensions i)" | "k \<in> set baseMembers"
    using k Build_members(5) [OF assms] by blast
  then show "k \<in> insert ''capsule_id'' (set (map fst (base_schema i))) \<union> Extension_Name ` set (Input_Extensions i)"
  proof cases
    case 2
    have "''references'' \<in> set (map fst (base_schema i))" by (simp add: base_schema_def)
    moreover have "k \<in> set (map fst (base_schema i))" if "k \<noteq> ''capsule_id''" "k \<noteq> ''references''"
    proof -
      have "map_of (base_payload i) k \<noteq> None" using Build_base_member [OF assms, of k] 2 that some by simp
      then show ?thesis using base_payload_within [of i] by (auto simp: map_of_eq_None_iff)
    qed
    ultimately show ?thesis by blast
  qed blast
qed

text \<open>And so is every member of the built payload.\<close>

lemma Build_schema:
  assumes "range_ok rng" and "Build A rng i = Inr b" and "(k, P) \<in> set (base_schema i)"
  shows "P (map_of (Built_Value b) k)"
proof (cases "k = ''references''")
  case True
  then have "P = when_given (array_of reference_schema) (Input_References i)"
    using assms(3) by (auto simp: base_schema_def)
  with True Build_references [OF assms(1,2)] show ?thesis
    by (auto simp: when_given_def array_of_def reference_schema_value split: option.splits
        elim!: list.rel_mono_strong)
next
  case False
  moreover have "k \<in> set (map fst (base_schema i))" using assms(3) by force
  then have "k \<in> set baseMembers - {''capsule_id''}" using base_schema_names [of i] by blast
  ultimately have "map_of (Built_Value b) k = map_of (base_payload i) k"
    using Build_base_member [OF assms(1,2)] by blast
  with False base_payload_member [of i] assms(3) show ?thesis by auto
qed

end
