(* ===== verification/TornText.thy ===== *)
theory TornText
  imports RecordJson
begin

text \<open>
  Text that is cut off. The reader of \<open>encoding/json/v2\<close> looks no further than a value it has
  read: what follows changes nothing (numbers apart, which may go on). So no proper beginning
  of a printed object reads as a value, and a record line of which only a part has reached the
  file yields neither a record nor, to a caller that looks at the error, an identifier.
\<close>

section \<open>More text after a literal\<close>

lemma hex4_more: "hex4 s = Some (n, r) \<Longrightarrow> hex4 (s @ q) = Some (n, r @ q)"
  by (auto simp: hex4_def split: list.splits option.splits)

lemma lex_u_more:
  assumes "lex_u t = Some (n, r)" and "lex_string r \<noteq> None"
  shows "lex_u (t @ q) = Some (n, r @ q)"
proof -
  obtain m u where hex: "hex4 t = Some (m, u)" using assms(1) by (auto simp: lex_u_def split: option.splits)
  note hex' = hex4_more [OF hex, of q]
  show ?thesis
  proof (cases "surrogate m")
    case False
    with assms(1) hex hex' show ?thesis by (simp add: lex_u_def)
  next
    case True
    show ?thesis
    proof (cases u)
      case Nil
      with assms True hex show ?thesis by (simp add: lex_u_def)
    next
      case (Cons a v)
      show ?thesis
      proof (cases v)
        case Nil
        then have r: "r = [a]" using assms(1) True hex Cons by (simp add: lex_u_def)
        with assms(2) have "byte a \<noteq> 92" by (auto simp: lex_string.simps(2))
        with assms(1) True hex hex' Cons Nil r show ?thesis by (cases q) (simp_all add: lex_u_def)
      next
        case (Cons b w)
        show ?thesis
        proof (cases "byte a = 92 \<and> byte b = 117")
          case False
          with assms(1) True hex hex' \<open>u = a # v\<close> Cons show ?thesis by (auto simp: lex_u_def)
        next
          case esc: True
          show ?thesis
          proof (cases "hex4 w")
            case None
            with assms(1) True hex \<open>u = a # v\<close> Cons esc have "r = a # b # w" by (simp add: lex_u_def)
            with assms(2) esc None show ?thesis by (simp add: lex_string.simps(2) lex_u_def)
          next
            case (Some kz)
            obtain k z where kz: "kz = (k, z)" by (cases kz)
            show ?thesis
              using assms(1) True hex hex' \<open>u = a # v\<close> Cons esc Some hex4_more [of w k z q]
              by (auto simp: lex_u_def kz split: if_splits)
          qed
        qed
      qed
    qed
  qed
qed

lemma lex_string_more: "lex_string s = Some (x, r) \<Longrightarrow> lex_string (s @ q) = Some (x, r @ q)"
proof (induction s arbitrary: x r rule: lex_string.induct)
  case (2 c s)
  show ?case
  proof (cases "byte c = 92")
    case False
    with "2.prems" "2.IH"(3) show ?thesis by (auto simp: lex_string.simps(2) split: if_splits option.splits)
  next
    case True
    with "2.prems" obtain e t where s: "s = e # t" by (auto simp: lex_string.simps(2) split: list.splits)
    show ?thesis
    proof (cases "byte e = 117")
      case u: True
      with True s "2.prems" obtain n p y where p: "lex_u t = Some (n, p)" "lex_string p = Some (y, r)" "x = encode_rune n @ y"
        by (auto simp: lex_string.simps(2) split: option.splits)
      moreover have "lex_string (p @ q) = Some (y, r @ q)" using "2.IH"(1) True s u p by simp
      moreover have "lex_u (t @ q) = Some (n, p @ q)" by (rule lex_u_more) (simp_all add: p)
      ultimately show ?thesis using True s u by (simp add: lex_string.simps(2))
    next
      case False
      with True s "2.prems" obtain a y where p: "simple_escape e = Some a" "lex_string t = Some (y, r)" "x = a # y"
        by (auto simp: lex_string.simps(2) split: option.splits)
      moreover have "lex_string (t @ q) = Some (y, r @ q)" using "2.IH"(2) True s False p by simp
      ultimately show ?thesis using True s False by (simp add: lex_string.simps(2))
    qed
  qed
qed simp

lemma v2_string_more:
  assumes "v2_string s = Some (x, r)"
  shows "v2_string (s @ q) = Some (x, r @ q)"
proof -
  from assms have lex: "lex_string s = Some (x, r)" and raw: "utf8_valid (take (length s - length r - 1) s)"
    "paired (take (length s - length r - 1) s)"
    by (auto simp: v2_string_def Let_def split: option.splits prod.splits if_splits)
  have "take (length (s @ q) - length (r @ q) - 1) (s @ q) = take (length s - length r - 1) s" by simp
  with lex_string_more [OF lex, of q] raw show ?thesis unfolding v2_string_def Let_def by simp
qed

lemma takeWhile_more:
  "dropWhile P xs \<noteq> [] \<Longrightarrow> takeWhile P (xs @ ys) = takeWhile P xs \<and> dropWhile P (xs @ ys) = dropWhile P xs @ ys"
  by (induction xs) auto

lemma lex_number_more:
  assumes "lex_number s = Some (n, r)" and "r \<noteq> []"
  shows "lex_number (s @ q) = Some (n, r @ q)"
proof -
  from assms(1) obtain m s1 i s2 f s3 e where
    m: "lex_minus s = (m, s1)" and i: "lex_int s1 = Some (i, s2)"
    and f: "lex_frac s2 = Some (f, s3)" and e: "lex_exp s3 = Some (e, r)" and n: "n = m @ i @ f @ e"
    by (auto simp: lex_number_def split: option.splits prod.splits)
  have "s3 \<noteq> []" using lex_exp_sound [OF e] assms(2) by auto
  then have "s2 \<noteq> []" using lex_frac_sound [OF f] by auto
  then have "s1 \<noteq> []" using lex_int_sound [OF i] by auto
  then have "s \<noteq> []" using lex_minus_sound [OF m] by auto
  have sign: "lex_sign (cs @ q) = (g, ds @ q)" if "lex_sign cs = (g, ds)" "takeWhile digit ds \<noteq> []" for cs g ds
    using that by (cases cs) (auto simp: lex_sign_def split: if_splits)
  have "lex_minus (s @ q) = (m, s1 @ q)"
    using m \<open>s \<noteq> []\<close> by (cases s) (auto simp: lex_minus_def split: if_splits)
  moreover have "lex_int (s1 @ q) = Some (i, s2 @ q)"
    using i \<open>s1 \<noteq> []\<close> \<open>s2 \<noteq> []\<close> takeWhile_more [of digit s1 q]
    by (cases s1) (auto simp: lex_int_def split: if_splits)
  moreover have "lex_frac (s2 @ q) = Some (f, s3 @ q)"
    using f \<open>s2 \<noteq> []\<close> \<open>s3 \<noteq> []\<close> takeWhile_more [of digit "tl s2" q]
    by (cases s2) (auto simp: lex_frac_def split: if_splits)
  moreover have "lex_exp (s3 @ q) = Some (e, r @ q)"
  proof (cases s3)
    case (Cons c cs)
    obtain g ds where g: "lex_sign cs = (g, ds)" by (cases "lex_sign cs")
    show ?thesis
      using e assms(2) Cons g sign [OF g] takeWhile_more [of digit ds q]
      by (auto simp: lex_exp_def split: if_splits)
  qed (use \<open>s3 \<noteq> []\<close> in simp)
  ultimately show ?thesis using n by (simp add: lex_number_def)
qed

lemma skip_space_more: "skip_space s = c # t \<Longrightarrow> skip_space (s @ q) = c # t @ q"
  unfolding skip_space_def using takeWhile_more [of json_space s q] by simp

section \<open>More text after a value\<close>

definition open_ended :: "json \<Rightarrow> bool" where
  "open_ended v \<longleftrightarrow> (\<exists>n. v = JNum n)"

lemma v2_scalar_more:
  assumes "v2_scalar s = Some (v, r)" and "open_ended v \<longrightarrow> r \<noteq> []"
  shows "v2_scalar (s @ q) = Some (v, r @ q)"
  using assms
  by (auto simp: v2_scalar_def open_ended_def match_append v2_string_more
      dest: lex_number_more [of _ _ _ q] split: list.splits if_splits)

lemma v2_name_more:
  assumes "v2_name first s = Some (k, r)"
  shows "v2_name first (s @ q) = Some (k, r @ q)"
proof -
  define head where "head = (\<lambda>s. if first then s else (case s of c # t \<Rightarrow> if c = CHR '','' then skip_space t else [] | [] \<Rightarrow> []))"
  from assms obtain u p b where *: "head s = CHR 0x22 # u" "v2_string u = Some (k, p)" "skip_space p = b # r" "b = CHR '':''"
    unfolding v2_name_def head_def [symmetric]
    by (auto simp: head_def split: list.splits option.splits if_splits)
  have "head (s @ q) = CHR 0x22 # u @ q"
    using *(1) skip_space_more [of "tl s" "CHR 0x22" u q] by (cases s) (auto simp: head_def split: if_splits)
  moreover note v2_string_more [OF *(2), of q] skip_space_more [OF *(3), of q]
  ultimately show ?thesis using *(4) unfolding v2_name_def by (simp add: head_def)
qed

lemma v2_more:
  "v2_value f d s = Some (v, r) \<Longrightarrow> open_ended v \<longrightarrow> r \<noteq> [] \<Longrightarrow> v2_value f d (s @ q) = Some (v, r @ q)"
  "v2_members f d first acc s = (m, Some r) \<Longrightarrow> v2_members f d first acc (s @ q) = (m, Some (r @ q))"
  "v2_elements f d first vs s = Some (ws, r) \<Longrightarrow> v2_elements f d first vs (s @ q) = Some (ws, r @ q)"
proof (induction f d s and f d first acc s and f d first vs s arbitrary: v r and m r and ws r
    rule: v2_value_v2_members_v2_elements.induct)
  case (2 f d s)
  then obtain c t where ct: "skip_space s = c # t" by (auto split: list.splits)
  note more = skip_space_more [OF ct, of q]
  consider (obj) "c = CHR ''{''" | (arr) "c = CHR ''[''" | (scalar) "c \<noteq> CHR ''{''" "c \<noteq> CHR ''[''" by blast
  then show ?case
  proof cases
    case obj
    with "2.prems"(1) ct obtain m where m: "\<not> v2_max_depth \<le> d" "v2_members f (Suc d) True [] t = (m, Some r)" "v = JObj m"
      by (auto split: if_splits prod.splits option.splits)
    from "2.IH"(1) [OF ct obj m(1,2)] m more obj show ?thesis by simp
  next
    case arr
    with "2.prems"(1) ct obtain vs where vs: "\<not> v2_max_depth \<le> d" "v2_elements f (Suc d) True [] t = Some (vs, r)" "v = JArr vs"
      by (auto split: if_splits prod.splits option.splits)
    have "c \<noteq> CHR ''{''" using arr by simp
    from "2.IH"(2) [OF ct this arr vs(1,2)] vs more arr show ?thesis by simp
  next
    case scalar
    with "2.prems" ct have "v2_scalar (c # t) = Some (v, r)" by simp
    from v2_scalar_more [OF this "2.prems"(2), of q] more scalar show ?thesis by simp
  qed
next
  case (4 f d first acc s)
  then obtain c t where ct: "skip_space s = c # t" by (auto split: list.splits)
  note more = skip_space_more [OF ct, of q]
  show ?case
  proof (cases "c = CHR ''}''")
    case True
    with 4 ct more show ?thesis by simp
  next
    case False
    with "4.prems" ct obtain k p v w where step: "v2_name first (c # t) = Some (k, p)" "\<not> has_key acc k"
      "v2_value f d p = Some (v, w)" "v2_members f d False (acc @ [(k, v)]) w = (m, Some r)"
      by (auto split: option.splits prod.splits if_splits)
    have "w \<noteq> []"
    proof
      assume "w = []"
      with step(4) show False by (cases f) auto
    qed
    then have "v2_value f d (p @ q) = Some (v, w @ q)" using "4.IH"(1) [OF ct False step(1) refl step(2,3)] by simp
    moreover have "v2_members f d False (acc @ [(k, v)]) (w @ q) = (m, Some (r @ q))"
      using "4.IH"(2) [OF ct False step(1) refl step(2,3) refl step(4)] .
    moreover have "v2_name first (c # t @ q) = Some (k, p @ q)" using v2_name_more [OF step(1), of q] by simp
    ultimately show ?thesis using False more step(2) by simp
  qed
next
  case (6 f d first vs s)
  then obtain c t where ct: "skip_space s = c # t" by (auto split: list.splits)
  note more = skip_space_more [OF ct, of q]
  show ?case
  proof (cases "c = CHR '']''")
    case True
    with 6 ct more show ?thesis by simp
  next
    case False
    with "6.prems" ct obtain v w where sep: "\<not> (\<not> first \<and> c \<noteq> CHR '','')"
      and step: "v2_value f d (if first then c # t else t) = Some (v, w)" "v2_elements f d False (vs @ [v]) w = Some (ws, r)"
      by (auto split: option.splits prod.splits if_splits)
    have "w \<noteq> []"
    proof
      assume "w = []"
      with step(2) show False by (cases f) auto
    qed
    then have "v2_value f d ((if first then c # t else t) @ q) = Some (v, w @ q)"
      using "6.IH"(1) [OF ct False sep step(1)] by simp
    moreover have "v2_elements f d False (vs @ [v]) (w @ q) = Some (ws, r @ q)"
      using "6.IH"(2) [OF ct False sep step(1) refl step(2)] .
    ultimately show ?thesis using False more sep by (cases first) simp_all
  qed
qed simp_all

section \<open>Beginnings of a printed object\<close>

lemma v2_members_beginning:
  assumes "textual (JObj m)" and "json_depth (JObj m) \<le> v2_max_depth"
    and "v2_print (JObj m) = CHR ''{'' # p @ q" and "q \<noteq> []" and "2 * length p < f"
  shows "snd (v2_members f 1 True [] p) = None"
proof (rule ccontr)
  assume "snd (v2_members f 1 True [] p) \<noteq> None"
  then obtain n r where read: "v2_members f 1 True [] p = (n, Some r)" by (cases "v2_members f 1 True [] p") auto
  define g where "g = v2_fuel (v2_print (JObj m))"
  have "2 * length p < g" using arg_cong [OF assms(3), of length] by (simp add: g_def v2_fuel_def del: v2_print.simps)
  from v2_fuel_irrelevant(2) [OF assms(5) this, of 1 True "[]"]
  have "v2_members g 1 True [] p = (n, Some r)" using read by simp
  from v2_more(2) [OF this, of q] have "v2_members g 1 True [] (p @ q) = (n, Some (r @ q))" .
  moreover have "v2_value (Suc g) 0 (v2_print (JObj m) @ []) = Some (JObj m, [])"
    by (rule v2_readsD [OF v2_reads assms(1)]) (use assms(2) in \<open>simp_all add: v2_fits_def g_def v2_fuel_def\<close>)
  ultimately have "r @ q = []"
    using assms(3) by (auto simp: json_space_def v2_max_depth_def split: prod.splits option.splits simp del: v2_print.simps)
  with assms(4) show False by simp
qed

text \<open>A proper beginning of a record line, after white space or not, is no record and is not indexed.\<close>

lemma beginning_unread:
  assumes "marshalRecord r = Inr l" and "l = p @ q" and "q \<noteq> []" and "skip_space w = []"
  shows "unmarshalRecord (w @ p) = None" and "snd (peek (w @ p)) = False"
proof -
  obtain m where m: "record_json r = JObj m" "textual (JObj m)" "json_depth (JObj m) \<le> v2_max_depth" "l = v2_print (JObj m)"
    using assms(1) textual_record [of r] depth_record [of r]
    by (auto simp: marshalRecord_def record_json_def v2_max_depth_def simp del: textual.simps json_depth.simps v2_print.simps split: if_splits)
  have blank: "skip_space (w @ p) = skip_space p" using assms(4) by (simp add: skip_space_def dropWhile_append)
  have "unmarshalRecord (w @ p) = None \<and> snd (peek (w @ p)) = False"
  proof (cases p)
    case Nil
    with blank show ?thesis by (simp add: unmarshalRecord_def v2_parse_def v2_fuel_def peek_def)
  next
    case (Cons c t)
    with m(4) assms(2) have c: "c = CHR ''{''" by simp
    with Cons blank have open_brace: "skip_space (w @ p) = CHR ''{'' # t" by (simp add: json_space_def)
    have none: "2 * length t < f \<Longrightarrow> snd (v2_members f 1 True [] t) = None" for f
      by (rule v2_members_beginning [OF m(2,3) _ assms(3)]) (use m(4) assms(2) Cons c in simp_all)
    have "snd (v2_members (v2_fuel (w @ p)) 1 True [] t) = None"
      by (rule none) (simp add: v2_fuel_def Cons)
    then have "snd (peek (w @ p)) = False"
      using open_brace by (auto simp: peek_def split: prod.splits option.splits)
    moreover have "v2_value (v2_fuel (w @ p)) 0 (w @ p) = None"
    proof -
      have "snd (v2_members (Suc (2 * length (w @ p))) 1 True [] t) = None" by (rule none) (simp add: Cons)
      then show ?thesis using open_brace by (auto simp: v2_fuel_def split: prod.splits option.splits)
    qed
    ultimately show ?thesis by (simp add: unmarshalRecord_def v2_parse_def)
  qed
  then show "unmarshalRecord (w @ p) = None" "snd (peek (w @ p)) = False" by simp_all
qed

end
