(* ===== verification/JsonlText.thy ===== *)
theory JsonlText
  imports JsonlFacts TornText
begin

text \<open>
  Files of the JSONL store as text: what a purge makes of a file line by line, and what becomes
  of a file whose lines end in a carriage return and a newline.
\<close>

section \<open>The lines of a file\<close>

text \<open>
  The bytes between newlines, whether or not the last line has its newline. The scanner drops a
  carriage return at the end of each.
\<close>

definition raw_lines :: "bytes \<Rightarrow> bytes list \<Rightarrow> bool" where
  "raw_lines content raws \<longleftrightarrow> (\<forall>l \<in> set raws. newline \<notin> set l) \<and>
     file_bytes raws = (if content = [] \<or> last content = newline then content else content @ [newline])"

lemma raw_lines_split:
  assumes "newline \<notin> set l" and "raw_lines s raws"
  shows "raw_lines (l @ newline # s) (l # raws)"
  using assms by (auto simp: raw_lines_def)

lemma scan_raw:
  assumes "scan_lines s = (ls, None)"
  shows "\<exists>raws. raw_lines s raws \<and> ls = map drop_cr raws"
  using assms
proof (induction s arbitrary: ls rule: scan_lines.induct)
  case (1 s)
  show ?case
  proof (cases "s = []")
    case True
    with "1.prems" show ?thesis by (simp add: raw_lines_def)
  next
    case False
    define raw where "raw = takeWhile (\<lambda>c. c \<noteq> newline) s"
    have clean: "newline \<notin> set raw" by (auto simp: raw_def dest: set_takeWhileD)
    from "1.prems" False have short: "\<not> max_line \<le> length raw"
      by (subst (asm) scan_lines.simps) (auto simp: raw_def Let_def split: if_splits)
    with "1.prems" False obtain ks where ks: "scan_lines (drop (Suc (length raw)) s) = (ks, None)" "ls = drop_cr raw # ks"
      by (subst (asm) scan_lines.simps) (auto simp: raw_def Let_def split: prod.splits)
    from "1.IH" [OF False raw_def short ks(1)] obtain raws where
      raws: "raw_lines (drop (Suc (length raw)) s) raws" "ks = map drop_cr raws" by blast
    have "s = raw @ dropWhile (\<lambda>c. c \<noteq> newline) s" by (simp add: raw_def)
    show ?thesis
    proof (cases "dropWhile (\<lambda>c. c \<noteq> newline) s")
      case Nil
      with \<open>s = raw @ _\<close> have s: "s = raw" by simp
      with raws(1) have "raws = []" by (cases raws) (auto simp: raw_lines_def)
      moreover have "last s \<noteq> newline" using last_in_set [OF False] clean s by auto
      ultimately show ?thesis using s False clean ks(2) raws(2)
        by (intro exI [of _ "[raw]"]) (simp add: raw_lines_def)
    next
      case (Cons c t)
      then have "c = newline" using hd_dropWhile [of "\<lambda>c. c \<noteq> newline" s] by simp
      with Cons \<open>s = raw @ _\<close> have s: "s = raw @ newline # t" by simp
      then have "drop (Suc (length raw)) s = t" by simp
      with raws ks(2) raw_lines_split [OF clean, of t raws] s show ?thesis by (intro exI [of _ "raw # raws"]) simp
    qed
  qed
qed

lemma drop_cr_plain: "l = [] \<or> last l \<noteq> carriage_return \<Longrightarrow> drop_cr l = l"
  by (auto simp: drop_cr_def)

section \<open>What a purge makes of a file\<close>

lemma jsonl_Purge_rewrites:
  assumes "jsonl_Purge io cid sd = (None, sd')"
  obtains content entry target data raws where "snd sd = Some content"
    "map_of (Store_index (fst sd)) cid = Some entry" "readAt no_faults (Some content) entry = Inr target"
    "Record_CapsuleID target = cid" "marshalRecord (purge_record target) = Inr data" "raw_lines content raws"
    "\<exists>l \<in> set raws. fst (peek (drop_cr l)) = cid"
    "snd sd' = Some (file_bytes (map (\<lambda>l. if fst (peek (drop_cr l)) = cid then data else drop_cr l) raws))"
    "(\<forall>l \<in> set raws. l = [] \<or> last l \<noteq> carriage_return) \<longrightarrow>
      snd sd' = Some (file_bytes (map (\<lambda>l. if fst (peek l) = cid then data else l) raws))"
proof -
  obtain s disk where sd: "sd = (s, disk)" by (cases sd)
  from assms [unfolded sd] obtain entry target where t: "map_of (Store_index s) cid = Some entry"
    "readAt io disk entry = Inr target" "Record_CapsuleID target = cid"
    "rewrite io cid (purge_record target) (s, disk) = (None, sd')" by (rule jsonl_Purge_None)
  from t(4) obtain content ls out idx where r: "disk = Some content" "scan_lines content = (ls, None)"
    "rewrite_lines cid (purge_record target) [] [] False ls = Inr (out, idx, True)" "sd' = (s\<lparr>Store_index := idx\<rparr>, Some out)"
    by (rule rewrite_None)
  obtain data where data: "marshalRecord (purge_record target) = Inr data"
    using rewrite_lines_data [OF r(3)] by blast
  obtain raws where raws: "raw_lines content raws" "ls = map drop_cr raws" using scan_raw [OF r(2)] by blast
  from rewrite_lines_out [OF r(3), of data] data have
    "out = file_bytes (map (\<lambda>l. if fst (peek l) = cid then data else l) ls)" "\<exists>l \<in> set ls. fst (peek l) = cid"
    by auto
  moreover have "(\<forall>l \<in> set raws. l = [] \<or> last l \<noteq> carriage_return) \<longrightarrow>
      file_bytes (map (\<lambda>l. if fst (peek (drop_cr l)) = cid then data else drop_cr l) raws) =
      file_bytes (map (\<lambda>l. if fst (peek l) = cid then data else l) raws)"
    by (intro impI arg_cong [of _ _ file_bytes] map_cong refl) (simp add: drop_cr_plain)
  ultimately show thesis
    using t data r raws sd readAt_faultless [OF t(2)] by (intro that) (simp_all add: comp_def)
qed

section \<open>Lines that end in a carriage return\<close>

definition crlf_file :: "Record list \<Rightarrow> bytes" where
  "crlf_file ps = concat (map (\<lambda>p. record_line p @ [carriage_return, newline]) ps)"

lemma scan_crlf:
  assumes "\<forall>p \<in> set ps. admitted A trusted p"
  shows "scan_lines (crlf_file ps) = (map record_line ps, None)"
  using assms
proof (induction ps)
  case (Cons p ps)
  let ?l = "record_line p @ [carriage_return]"
  have "clean_line (record_line p)" using record_lines.good_clean Cons.prems by auto
  moreover have "carriage_return \<noteq> newline" by (simp add: carriage_return_def newline_def)
  moreover have "length ?l < max_line"
    using Cons.prems admitted_line_length [of A trusted p] by (simp add: admitted_def record_line_def)
  ultimately have "takeWhile (\<lambda>c. c \<noteq> newline) (?l @ newline # crlf_file ps) = ?l" "drop_cr ?l = record_line p"
    by (auto simp: clean_line_def drop_cr_def intro: takeWhile_append2 [THEN trans])
  with \<open>length ?l < max_line\<close> Cons show ?case
    by (simp add: crlf_file_def) (subst scan_lines.simps, simp add: Let_def)
qed (simp add: crlf_file_def)

text \<open>
  The index counts the bytes of a token and one for the newline, but not the carriage return the
  scanner has dropped: the second entry points one byte before its line.
\<close>

lemma crlf_misread:
  assumes p: "admitted A trusted p" and q: "admitted A trusted q" and ids: "Record_CapsuleID p \<noteq> Record_CapsuleID q"
    and ns: "open_ok namespace trusted"
  obtains s where "jsonl_New no_faults path namespace trusted (Some (crlf_file [p, q])) = Inr s"
    "jsonl_holds (s, Some (crlf_file [p, q])) (Record_CapsuleID p) = Some (stored p)"
    "jsonl_Get A no_faults (Record_CapsuleID q) (s, Some (crlf_file [p, q])) =
       Inl (Wrapf ''%w: parse failed: %v'' [] (Err ErrCorrupt))"
proof -
  let ?disk = "Some (crlf_file [p, q])" and ?n = "length (record_line p)" and ?m = "length (record_line q)"
  define s where "s = \<lparr>Store_path = path, Store_namespace = namespace, Store_trusted = trusted,
    Store_index = [(Record_CapsuleID p, \<lparr>Entry_offset = 0, Entry_length = ?n\<rparr>),
      (Record_CapsuleID q, \<lparr>Entry_offset = Suc ?n, Entry_length = ?m\<rparr>)]\<rparr>"
  have keys: "Record_CapsuleID p \<noteq> ''''" "Record_CapsuleID q \<noteq> ''''"
    using record_lines.keyed p q by blast+
  have "jsonl_New no_faults path namespace trusted ?disk = Inr s"
    unfolding jsonl_New_Some [OF ns] scan_crlf [of "[p, q]" A trusted, simplified, OF conjI, OF p q]
    using record_lines.peeked [OF p] record_lines.peeked [OF q] keys ids by (simp add: s_def)
  moreover have "jsonl_holds (s, ?disk) (Record_CapsuleID p) = Some (stored p)"
    using unmarshal_line [OF p]
    by (simp add: jsonl_holds_def s_def readAt_def os_open_def no_faults_def crlf_file_def)
  moreover have "jsonl_Get A no_faults (Record_CapsuleID q) (s, ?disk) = Inl (Wrapf ''%w: parse failed: %v'' [] (Err ErrCorrupt))"
  proof -
    have line: "record_line q \<noteq> []" by (simp add: record_line_def record_json_def)
    then have "record_line q = butlast (record_line q) @ [last (record_line q)]" by simp
    from beginning_unread(1) [OF marshal_line [OF q] this, of "[newline]"]
    have "unmarshalRecord (newline # butlast (record_line q)) = None"
      by (simp add: skip_space_def json_space_def newline_def)
    moreover have "take ?m (drop (Suc ?n) (crlf_file [p, q])) = newline # butlast (record_line q)"
      using line by (cases "record_line q") (simp_all add: crlf_file_def butlast_conv_take take_Cons')
    ultimately have "readAt no_faults ?disk \<lparr>Entry_offset = Suc ?n, Entry_length = ?m\<rparr> =
        Inl (Wrapf ''%w: parse failed: %v'' [] (Err ErrCorrupt))"
      by (simp add: readAt_def os_open_def no_faults_def) (simp add: crlf_file_def)
    then show ?thesis using admitted_key [OF q] ids by (simp add: jsonl_Get_def s_def)
  qed
  ultimately show thesis by (rule that)
qed

end
