(* ===== verification/JsonlCrash.thy ===== *)
theory JsonlCrash
  imports JsonlThreads JsonlText
begin

text \<open>
  The death of a process that uses the JSONL store (\<open>artifact/jsonl/store.go\<close>): what the file can
  be at that moment, in the middle of critical sections and in the middle of the write of a line,
  and what a new process finds in it.
\<close>

section \<open>Between two steps\<close>

text \<open>
  Between two steps the file has what the steps so far have given to the system. It is the
  file that the effects so far have left, or the one that the call of the mutex holder leaves.
\<close>

lemma disk_of_effects:
  assumes "lin_inv A trusted sd c"
  obtains "snd (Shared c) = snd sd"
  | t job io x ans td where "Phase c t = Holding job io x" "atomic A io job sd = (ans, td)" "snd (Shared c) = snd td"
proof (cases "Mutex c")
  case None
  with assms that(1) show thesis by (simp add: lin_inv_def)
next
  case (Some t)
  then have "holding (Phase c t)" using assms by (simp add: lin_inv_def)
  then obtain job io x where p: "Phase c t = Holding job io x" by (cases "Phase c t") simp_all
  moreover have "phase_ok A sd (Shared c) (Phase c t)" using assms by (simp add: lin_inv_def)
  ultimately obtain x0 where x0: "enter A (Store_trusted (fst sd)) job = Inr x0"
    "reached A io (x0, sd) (x, Shared c)" by auto
  have disk: "snd (Shared c) = snd sd \<or> late x" using reached_disk [OF x0(2)] by simp
  obtain y td out where td: "complete A io (x, Shared c) = (y, td)" "outcome y = Some out" by (rule complete_end)
  from disk show thesis
  proof
    assume "late x"
    then have "snd td = snd (Shared c)" using late_complete [of x A io "fst (Shared c)" "snd (Shared c)"] td(1) by simp
    moreover have "atomic A io job sd = (settle A (Store_trusted (fst sd)) job out, td)"
      using complete_atomic [OF x0(1) _ td(2)] reached_complete [OF x0(2)] td(1) by simp
    ultimately show thesis using that(2) [OF p] by simp
  qed (rule that(1))
qed

text \<open>Effects and calls under way come from calls.\<close>

fun phase_call :: "phase \<Rightarrow> (jsonl_call \<times> jsonl_io) option" where
  "phase_call (Entering job io) = Some (job, io)"
| "phase_call (Waiting job io x) = Some (job, io)"
| "phase_call (Holding job io x) = Some (job, io)"
| "phase_call _ = None"

lemma effects_Lin: "(job, io, ans) \<in> set (effects tr) \<longleftrightarrow> (\<exists>t. Lin t job io ans \<in> set tr)"
  by (induction tr rule: effects.induct) auto

lemma step_call:
  assumes "thread_step A c l c'"
  shows "phase_call (Phase c' t) = Some (job, io) \<Longrightarrow> phase_call (Phase c t) = Some (job, io) \<or> l = Call t job io"
    and "l = Lin t job io ans \<Longrightarrow> phase_call (Phase c t) = Some (job, io)"
  using assms by (cases rule: thread_step.cases; auto split: if_splits)+

lemma run_calls:
  assumes "thread_run A (quiet sd) tr c"
  shows "(\<forall>t job io. phase_call (Phase c t) = Some (job, io) \<longrightarrow> Call t job io \<in> set tr) \<and>
    (\<forall>t job io ans. Lin t job io ans \<in> set tr \<longrightarrow> Call t job io \<in> set tr)"
  using assms
proof (induction "quiet sd" tr c rule: thread_run.induct)
  case nothing
  show ?case by (simp add: quiet_def)
next
  case (snoc tr d l e)
  from snoc(2) step_call [OF snoc(3)] show ?case unfolding set_append by fastforce
qed

definition clean_calls :: "label list \<Rightarrow> bool" where
  "clean_calls tr \<longleftrightarrow> (\<forall>t job io. Call t job io \<in> set tr \<longrightarrow> write_clean io)"

lemma clean_calls_effects: "thread_run A (quiet sd) tr c \<Longrightarrow> clean_calls tr \<Longrightarrow> clean_effects (effects tr)"
  using run_calls by (fastforce simp: clean_calls_def clean_effects_def effects_Lin)

text \<open>What the file holds at any moment is the outcome of a history with every effect so far.\<close>

lemma disk_run:
  assumes "thread_run A (quiet sd0) tr c" "jsonl_inv A trusted sd0" "clean_calls tr"
    and "replay A (effects tr) sd0 = Some sd" "lin_inv A (Store_trusted (fst sd0)) sd c"
  obtains td where "store_run (jsonl_Put A) jsonl_Purge write_clean sd td" "jsonl_inv A trusted td"
    "snd (Shared c) = snd td"
proof -
  have sd: "jsonl_inv A trusted sd"
    using replay_run [OF assms(2) clean_calls_effects [OF assms(1,3)] assms(4)] by simp
  from assms(5) show thesis
  proof (cases rule: disk_of_effects)
    case 1
    with sd show thesis by (intro that [OF store_run.run_refl]) simp_all
  next
    case (2 t job io x ans td)
    then have "Call t job io \<in> set tr" using run_calls [OF assms(1)] by simp
    then have "write_clean io" using assms(3) by (auto simp: clean_calls_def)
    then have run: "store_run (jsonl_Put A) jsonl_Purge write_clean sd td" by (rule atomic_step [OF sd _ 2(2)])
    with jsonl.run_holds [OF run sd] 2(3) show thesis by (intro that) simp_all
  qed
qed

text \<open>A file in good order is opened as a store in good order with the same contents.\<close>

lemma reopen_inv:
  assumes "jsonl_inv A trusted (s, disk)" "open_ok namespace trusted"
  obtains s' where "jsonl_New no_faults path namespace trusted disk = Inr s'" "jsonl_inv A trusted (s', disk)"
    "jsonl_holds (s', disk) = jsonl_holds (s, disk)"
proof -
  obtain ps where ps: "jsonl_layout A trusted ps (s, disk)" using assms(1) by (auto simp: jsonl_inv_def)
  let ?s = "\<lparr>Store_path = path, Store_namespace = namespace, Store_trusted = trusted, Store_index = Store_index s\<rparr>"
  have "jsonl_New no_faults path namespace trusted disk = Inr ?s"
    using ps jsonl_New_Some [OF assms(2)] record_lines.scan_good [of ps A trusted] by (simp add: jsonl_layout_def)
  moreover have "jsonl_holds (?s, disk) = jsonl_holds (s, disk)" by (auto simp: jsonl_holds_def fun_eq_iff split: option.split)
  moreover have "jsonl_inv A trusted (?s, disk)" using ps by (auto simp: jsonl_inv_def jsonl_layout_def)
  ultimately show thesis by (intro that [of ?s])
qed

section \<open>Within a step\<close>

text \<open>
  The step that appends a line is one \<open>Write\<close>, which the system may carry out piece by piece. The
  process can die with any beginning of the line in the file, up to where the write would fail.
  A rename and the creation of an empty file leave nothing in between; a copy under way is
  another file.
\<close>

inductive process_dies :: "system \<Rightarrow> disk \<Rightarrow> bool" for c where
  between: "process_dies c (snd (Shared c))"
| writing: "Phase c t = Holding job io (PutWrite r data offset) \<Longrightarrow>
    k \<le> (case Io_write io of None \<Rightarrow> Suc (length data) | Some (n, err) \<Rightarrow> n) \<Longrightarrow>
    process_dies c (write_at offset (take k (data @ [newline])) (snd (Shared c)))"

text \<open>Whoever is about to write has found the identifier free, and the end of the file.\<close>

definition write_ready :: "lock_section \<times> Store \<times> disk \<Rightarrow> lock_section \<times> Store \<times> disk \<Rightarrow> bool" where
  "write_ready c d \<longleftrightarrow>
     (case fst d of
        PutLookup r hash \<Rightarrow> d = c
      | PutSeek r \<Rightarrow> (\<exists>hash. fst c = PutLookup r hash) \<and> snd d = snd c \<and>
          map_of (Store_index (fst (snd c))) (Record_CapsuleID r) = None
      | PutWrite r data offset \<Rightarrow> (\<exists>hash. fst c = PutLookup r hash) \<and> snd d = snd c \<and>
          map_of (Store_index (fst (snd c))) (Record_CapsuleID r) = None \<and> marshalRecord r = Inr data \<and>
          (\<exists>content. snd (snd c) = Some content \<and> offset = length content)
      | _ \<Rightarrow> True)"

lemma write_ready_step: "write_ready c d \<Longrightarrow> write_ready c (section_step A io d)"
proof -
  assume ready: "write_ready c d"
  obtain x s disk where d: "d = (x, s, disk)" by (rule prod_cases3)
  show "write_ready c (section_step A io d)"
    using ready unfolding d
    by (cases x; cases c)
      (auto simp: write_ready_def put_lookup_def put_seek_def put_write_def get_lookup_def purge_lookup_def purge_read_def
        copy_file_def rename_copy_def os_open_def split: option.splits sum.splits prod.splits)
qed

lemma reached_ready: "reached A io c d \<Longrightarrow> write_ready c c \<Longrightarrow> write_ready c d"
  by (induction rule: reached_induct) (simp_all add: write_ready_step)

lemma put_writing:
  assumes "lin_inv A trusted sd c" "Phase c t = Holding job io (PutWrite r data offset)"
  obtains q hash content where "job = CallPut q" "admit A trusted q = Inr (r, hash)" "Shared c = sd"
    "snd sd = Some content" "offset = length content" "marshalRecord r = Inr data"
    "map_of (Store_index (fst sd)) (Record_CapsuleID r) = None"
proof -
  have "phase_ok A sd (Shared c) (Holding job io (PutWrite r data offset))"
    using assms unfolding lin_inv_def by metis
  then obtain x0 where x0: "enter A trusted job = Inr x0" "reached A io (x0, sd) (PutWrite r data offset, Shared c)"
    using assms(1) by (auto simp: lin_inv_def)
  have "write_ready (x0, sd) (x0, sd)"
    using x0(1) by (auto simp: write_ready_def enter_def split: jsonl_call.splits sum.splits if_splits)
  from reached_ready [OF x0(2) this] obtain hash content where
    *: "x0 = PutLookup r hash" "Shared c = sd" "map_of (Store_index (fst sd)) (Record_CapsuleID r) = None"
      "marshalRecord r = Inr data" "snd sd = Some content" "offset = length content"
    by (auto simp: write_ready_def)
  with x0(1) obtain q where "job = CallPut q" "admit A trusted q = Inr (r, hash)"
    by (auto simp: enter_def admit_def split: jsonl_call.splits sum.splits if_splits)
  with * show thesis by (intro that)
qed

section \<open>A file that ends in a part of a line\<close>

lemma scan_partial:
  assumes "\<And>l. l \<in> set ls \<Longrightarrow> clean_line l" and "clean_line w" and "w \<noteq> []"
  shows "scan_lines (file_bytes ls @ w) = (ls @ [w], None)"
  using assms(1)
proof (induction ls)
  case Nil
  have whole: "takeWhile (\<lambda>c. c \<noteq> newline) w = w" using assms(2) by (auto simp: clean_line_def takeWhile_eq_all_conv)
  have "drop_cr w = w" using assms(2) by (auto simp: clean_line_def drop_cr_def)
  then show ?case
    using assms(2,3) by (simp add: clean_line_def) (subst scan_lines.simps, simp add: Let_def whole del: takeWhile_eq_all_conv)
qed (simp add: scan_line)

text \<open>What stands after the lines of a store does not change what its index leads to.\<close>

lemma read_beyond:
  assumes "jsonl_layout A trusted ps (s, Some content)" and "Store_index t = Store_index s"
  shows "jsonl_holds (t, Some (content @ w)) = jsonl_holds (s, Some content)"
proof
  fix cid
  show "jsonl_holds (t, Some (content @ w)) cid = jsonl_holds (s, Some content) cid"
  proof (cases "map_of (Store_index s) cid")
    case None
    with assms(2) show ?thesis by (simp add: jsonl_holds_def)
  next
    case (Some entry)
    then obtain p where "readAt no_faults (Some content) entry = Inr (stored p)" "jsonl_holds (s, Some content) cid = Some (stored p)"
      using layout_read [OF assms(1), of cid entry] by auto
    moreover from this(1) have "readAt no_faults (Some (content @ w)) entry = Inr (stored p)"
      by (auto simp: readAt_def os_open_def no_faults_def split: if_splits option.splits)
    ultimately show ?thesis using Some assms(2) by (simp add: jsonl_holds_def)
  qed
qed

text \<open>A beginning of the line of a new record: the file is opened, with the record if its line is whole.\<close>

lemma reopen_partial:
  assumes layout: "jsonl_layout A trusted ps (s, Some content)" and p: "admitted A trusted p"
    and new: "Record_CapsuleID p \<notin> Record_CapsuleID ` set ps"
    and line: "record_line p = w @ missing" "w \<noteq> []" and ns: "open_ok namespace trusted"
  obtains t where "jsonl_New no_faults path namespace trusted (Some (content @ w)) = Inr t"
    "jsonl_holds (t, Some (content @ w)) =
       (if missing = [] then (jsonl_holds (s, Some content))(Record_CapsuleID p \<mapsto> stored p) else jsonl_holds (s, Some content))"
proof -
  have content: "content = file_bytes (map record_line ps)" and good: "\<forall>q \<in> set ps. admitted A trusted q"
    and idx: "Store_index s = index_lines 0 [] (map record_line ps)"
    using layout by (simp_all add: jsonl_layout_def)
  have printable: "32 \<le> byte b" if "b \<in> set w" for b
    using record_lines.printable [OF p, of b] that line(1) by simp
  have "clean_line w"
  proof -
    have "byte newline = 10" "byte carriage_return = 13" by (simp_all add: newline_def carriage_return_def)
    then have "newline \<notin> set w" "carriage_return \<notin> set w" using printable [of newline] printable [of carriage_return] by auto
    moreover have "length w < max_line" using record_lines.short [OF p] line(1) by simp
    ultimately show ?thesis unfolding clean_line_def by (metis last_in_set)
  qed
  then have scan: "scan_lines (content @ w) = (map record_line ps @ [w], None)"
    unfolding content using line(2) good record_lines.good_clean by (intro scan_partial) auto
  let ?e = "\<lparr>Entry_offset = length content, Entry_length = length w\<rparr>"
  define t where "t = \<lparr>Store_path = path, Store_namespace = namespace, Store_trusted = trusted,
    Store_index = index_lines 0 [] (map record_line ps @ [w])\<rparr>"
  have opened: "jsonl_New no_faults path namespace trusted (Some (content @ w)) = Inr t"
    unfolding jsonl_New_Some [OF ns] scan by (simp add: t_def)
  show thesis
  proof (cases "missing = []")
    case False
    obtain cid where "peek w = (cid, False)"
      using beginning_unread(2) [OF marshal_line [OF p] line(1) False, of "[]"] by (cases "peek w") simp
    then have "Store_index t = Store_index s" by (simp add: t_def idx index_lines_append)
    from read_beyond [OF layout this, of w] opened False show thesis by (intro that) simp_all
  next
    case True
    then have w: "w = record_line p" using line(1) by simp
    have index: "Store_index t = AList.update (Record_CapsuleID p) ?e (Store_index s)"
      using record_lines.peeked [OF p] record_lines.keyed [OF p] by (simp add: t_def idx index_lines_append w content)
    have "jsonl_holds (t, Some (content @ w)) cid = ((jsonl_holds (s, Some content))(Record_CapsuleID p \<mapsto> stored p)) cid" for cid
    proof (cases "cid = Record_CapsuleID p")
      case True
      then show ?thesis using unmarshal_line [OF p]
        by (simp add: jsonl_holds_def index readAt_def os_open_def no_faults_def w)
    next
      case False
      then show ?thesis
        using fun_cong [OF read_beyond [OF layout refl, of w], of cid]
        by (cases "map_of (Store_index s) cid") (simp_all add: jsonl_holds_def index)
    qed
    with opened True show thesis by (intro that) auto
  qed
qed

text \<open>A history is kept in any store that holds more.\<close>

lemma history_extends:
  assumes kept: "history_kept A trusted V es W" and more: "\<And>cid r. W cid = Some r \<Longrightarrow> X cid = Some r"
  shows "history_kept A trusted V es X"
proof -
  have "X cid \<in> {Some r, Some (purge_record r)}" if "V cid = Some r" for cid r
    using kept that more unfolding history_kept_def by fastforce
  moreover have "\<exists>p hash old. admit A trusted r = Inr (p, hash) \<and> X (Record_CapsuleID r) = Some old \<and> StorageChecksum old = Inr hash"
    if "(CallPut r, io, Done None) \<in> set es" for r io
    using kept that more unfolding history_kept_def by meson
  moreover have "\<exists>r. X cid = Some (purge_record r)" if "(CallPurge cid, io, Done None) \<in> set es" for cid io
    using kept that more unfolding history_kept_def by meson
  ultimately show ?thesis unfolding history_kept_def by blast
qed

section \<open>What a new process finds\<close>

text \<open>
  The file is in good order, or it ends in a part of the line of one record whose \<open>Put\<close> has not
  taken effect: what was held before is held, and that record only if its line is whole.
\<close>

definition good_or_torn :: "aac \<Rightarrow> bytes list \<Rightarrow> label list \<Rightarrow> Store \<Rightarrow> disk \<Rightarrow> bool" where
  "good_or_torn A trusted tr s disk \<longleftrightarrow>
     jsonl_inv A trusted (s, disk) \<or>
     (\<exists>content w missing s0 p hash t r io. disk = Some (content @ w) \<and> w \<noteq> [] \<and>
        Call t (CallPut r) io \<in> set tr \<and> admit A trusted r = Inr (p, hash) \<and> record_line p = w @ missing \<and>
        jsonl_inv A trusted (s0, Some content) \<and> jsonl_holds (s0, Some content) (Record_CapsuleID p) = None \<and>
        jsonl_holds (s, disk) =
          (if missing = [] then (jsonl_holds (s0, Some content))(Record_CapsuleID p \<mapsto> stored p)
           else jsonl_holds (s0, Some content)))"

lemma death_while_writing:
  assumes run: "thread_run A (quiet sd0) tr c" and inv: "jsonl_inv A trusted sd0" and clean: "clean_calls tr"
    and replay: "replay A (effects tr) sd0 = Some sd" and lin: "lin_inv A (Store_trusted (fst sd0)) sd c"
    and ns: "open_ok namespace trusted"
    and phase: "Phase c t = Holding job io (PutWrite r data offset)"
    and k: "k \<le> (case Io_write io of None \<Rightarrow> Suc (length data) | Some (n, err) \<Rightarrow> n)"
    and disk: "disk = write_at offset (take k (data @ [newline])) (snd (Shared c))"
  shows "\<exists>s. jsonl_New no_faults path namespace trusted disk = Inr s \<and> good_or_torn A trusted tr s disk \<and>
    history_kept A trusted (jsonl_holds sd0) (effects tr) (jsonl_holds (s, disk))"
proof -
  have trusted: "Store_trusted (fst sd0) = trusted" using inv by (auto simp: jsonl_inv_def jsonl_layout_def)
  obtain q hash content where q: "job = CallPut q" "admit A trusted q = Inr (r, hash)" "Shared c = sd"
    "snd sd = Some content" "offset = length content" "marshalRecord r = Inr data"
    "map_of (Store_index (fst sd)) (Record_CapsuleID r) = None"
    using put_writing [OF lin [unfolded trusted] phase] by metis
  note p = admit_InrD [OF q(2)]
  have sd: "sd = (fst sd, Some content)" using q(4) by (metis prod.collapse)
  have data: "data = record_line r" using marshal_line [OF p(1)] q(6) by simp
  have good: "jsonl_inv A trusted sd" using replay_run [OF inv clean_calls_effects [OF run clean] replay] by simp
  then obtain ps where ps: "jsonl_layout A trusted ps (fst sd, Some content)" using sd by (auto simp: jsonl_inv_def)
  have new: "Record_CapsuleID r \<notin> Record_CapsuleID ` set ps" using layout_index [OF ps, of "Record_CapsuleID r"] q(7) by simp
  have none: "jsonl_holds (fst sd, Some content) (Record_CapsuleID r) = None" by (rule layout_holds_None [OF ps new])
  have kept: "history_kept A trusted (jsonl_holds sd0) (effects tr) (jsonl_holds (fst sd, Some content))"
    using history_keeps [OF inv clean_calls_effects [OF run clean] replay store_run.run_refl] sd by simp
  have "Call t (CallPut q) io \<in> set tr" using run_calls [OF run] phase q(1) by simp
  let ?w = "take k (data @ [newline])"
  have written: "disk = Some (content @ ?w)" using disk q(3-5) by (simp add: write_at_end)
  consider "k = 0" | "0 < k" "k \<le> length data" | "k > length data" by linarith
  then show ?thesis
  proof cases
    case 1
    then have same: "disk = Some content" using written by simp
    have "jsonl_inv A trusted (fst sd, disk)" using good sd same by simp
    from reopen_inv [OF this ns] kept same show ?thesis unfolding good_or_torn_def by metis
  next
    case 2
    then have w: "?w = take k data" "take k data \<noteq> []" "record_line r = take k data @ drop k data"
      using data by auto
    obtain s where s: "jsonl_New no_faults path namespace trusted disk = Inr s"
      "jsonl_holds (s, disk) =
        (if drop k data = [] then (jsonl_holds (fst sd, Some content))(Record_CapsuleID r \<mapsto> stored r)
         else jsonl_holds (fst sd, Some content))"
      unfolding written w(1) by (rule reopen_partial [OF ps p(1) new w(3,2) ns, of path]) blast
    have "good_or_torn A trusted tr s disk"
      unfolding good_or_torn_def using written w s(2) q(2) none good sd \<open>Call t (CallPut q) io \<in> set tr\<close> by metis
    moreover have "history_kept A trusted (jsonl_holds sd0) (effects tr) (jsonl_holds (s, disk))"
      by (rule history_extends [OF kept]) (use s(2) none in \<open>auto split: if_splits\<close>)
    ultimately show ?thesis using s(1) by blast
  next
    case 3
    then have whole: "disk = Some (file_bytes (map record_line ps) @ record_line r @ [newline])"
      using written data ps by (simp add: jsonl_layout_def)
    obtain s where layout: "jsonl_layout A trusted (ps @ [r]) (s, disk)"
      using layout_append [OF ps p(1) new] whole by blast
    then have "jsonl_inv A trusted (s, disk)" by (auto simp: jsonl_inv_def)
    from reopen_inv [OF this ns, of path] obtain s' where s': "jsonl_New no_faults path namespace trusted disk = Inr s'"
      "jsonl_inv A trusted (s', disk)" "jsonl_holds (s', disk) = jsonl_holds (s, disk)" by blast
    have "jsonl_holds (s, disk) cid = Some v" if "jsonl_holds (fst sd, Some content) cid = Some v" for cid v
    proof -
      have "cid \<in> Record_CapsuleID ` set ps" using layout_holds_None [OF ps, of cid] that by fastforce
      then obtain p where "p \<in> set ps" "cid = Record_CapsuleID p" by blast
      with layout_holds_Some [OF ps, of p] layout_holds_Some [OF layout, of p] that show ?thesis by simp
    qed
    with history_extends [OF kept] s' show ?thesis unfolding good_or_torn_def by metis
  qed
qed

lemma death_recovers:
  assumes run: "thread_run A (quiet sd0) tr c" and inv: "jsonl_inv A trusted sd0" and clean: "clean_calls tr"
    and ns: "open_ok namespace trusted" and dies: "process_dies c disk"
  shows "\<exists>s. jsonl_New no_faults path namespace trusted disk = Inr s \<and> good_or_torn A trusted tr s disk \<and>
    history_kept A trusted (jsonl_holds sd0) (effects tr) (jsonl_holds (s, disk))"
proof -
  obtain sd where sd: "replay A (effects tr) sd0 = Some sd" "lin_inv A (Store_trusted (fst sd0)) sd c"
    using run_linearizes [OF run] by blast
  from dies show ?thesis
  proof cases
    case between
    obtain td where td: "store_run (jsonl_Put A) jsonl_Purge write_clean sd td" "jsonl_inv A trusted td" "disk = snd td"
      using disk_run [OF run inv clean sd] between by metis
    then have "jsonl_inv A trusted (fst td, disk)" "jsonl_holds td = jsonl_holds (fst td, disk)" by simp_all
    with reopen_inv [OF this(1) ns, of path] history_keeps [OF inv clean_calls_effects [OF run clean] sd(1) td(1)]
    show ?thesis unfolding good_or_torn_def by metis
  next
    case (writing t job io r data offset k)
    from death_while_writing [OF run inv clean sd ns this(2,3,1)] show ?thesis .
  qed
qed

end
