(* ===== verification/Spec2Isabelle.thy ===== *)
theory Spec2Isabelle
  imports StoreSamples PayloadSchema JsonlCrash
begin

text \<open>
  The Go library capsule-emit: building, signing and storing Agent Action Capsules.

  WHAT THE PROGRAM DOES. The package \<open>emit\<close> (the root of \<open>src\<close>) turns a caller's description of
  an action into a Capsule: \<open>Build\<close> validates the input, renders it to a JSON object, admits
  extension members, computes the Capsule identifier over the payload, runs the imported
  Class 1 verifier on it and encodes it canonically. \<open>Received\<close>, \<open>Carry\<close> and \<open>BuildComposition\<close>
  bind foreign bytes or other Capsules and call \<open>Build\<close>; \<open>Sign\<close> makes a COSE envelope over the
  identifier; \<open>Seal\<close> digests the caller's values, builds and signs. The package \<open>artifact\<close> files
  a Capsule, its envelope and the business originals it commits to as a record; three stores
  (\<open>jsonl\<close>, \<open>sqlite\<close>, \<open>mysql\<close>) keep records, immutable but for the purge of their originals.

  THEORIES AND SOURCES.
  Shared: \<open>Prelude\<close> (Go errors as a datatype, results as sums, map iteration orders, association
  lists as Go maps), \<open>GoText\<close> (UTF-8, the regular expressions), \<open>JsonLex\<close> (scalars of
  \<open>encoding/json\<close>), \<open>Constants\<close> (\<open>constants.go\<close>), \<open>EmitModel\<close> (\<open>model.go\<close>).
  Building: \<open>Json\<close> and \<open>JsonFacts\<close> (\<open>decodeStrictJSON\<close> of \<open>build.go\<close> over the token stream of the
  library), \<open>Validate\<close> (\<open>validateInput\<close>), \<open>Extension\<close> (\<open>extension.go\<close>, \<open>validatePayloadText\<close>),
  \<open>Timestamp\<close> (\<open>formatTimestamp\<close>), \<open>VerifyCapsule\<close> (\<open>verify.go\<close>, \<open>digest.go\<close>), \<open>Build\<close> and
  \<open>BuildFacts\<close> (\<open>Build\<close> and the functions that render a struct to a map), \<open>PayloadSchema\<close> (which
  field of the input belongs under which member of the payload, stated apart from that code).
  Binding and signing: \<open>Sha256\<close> (SHA-256 and hexadecimal text), \<open>Construct\<close> (\<open>construction.go\<close>),
  \<open>Sign\<close> (\<open>sign.go\<close>).
  Records: \<open>Base64\<close>, \<open>JsonV2\<close> (what is used of \<open>encoding/json/v2\<close>), \<open>RecordJson\<close>, \<open>Artifact\<close> and
  \<open>ArtifactFacts\<close> (\<open>artifact/record.go\<close>).
  Stores: \<open>StoreSpec\<close> (the abstract store), \<open>Jsonl\<close> and \<open>JsonlFacts\<close> (\<open>artifact/jsonl/store.go\<close>),
  \<open>SqlStore\<close> and \<open>SqlFacts\<close> (\<open>artifact/sqlite\<close>), \<open>MysqlStore\<close> and \<open>MysqlFacts\<close> (\<open>artifact/mysql\<close>).
  The bytes of a JSONL file: \<open>TornText\<close> (no beginning of a line is read as a record), \<open>JsonlText\<close>
  (what the scanner of \<open>bufio\<close> makes of line ends, and what a purge makes of any file).
  Across packages: \<open>StoreClients\<close> (what holds of all three stores), \<open>JsonlThreads\<close> (the JSONL
  store under concurrent calls), \<open>JsonlCrash\<close> (the death of its process), \<open>SealedRecord\<close> (a seal
  filed as a record). \<open>Samples\<close> and \<open>StoreSamples\<close> hold the concrete inputs of the evaluated examples.

  CORRESPONDENCE. A struct is a record with the fields of the source, prefixed by the struct's
  name; a nil pointer or slice is \<open>None\<close> where the code tells it from an empty one; a string
  or byte slice is a list of 8-bit characters; a Go map is an association list with distinct
  keys. A function keeps its name (the operations of the stores carry the prefix \<open>jsonl\<close>,
  \<open>sql\<close> or \<open>mysql\<close>), an error is the left value of a sum or the first component of the result,
  and a test is made in the order of the code. A Go map is iterated in an unspecified order:
  each loop over one takes the order as the argument \<open>rng\<close>. The state of the JSONL store is
  its \<open>Store\<close> value and the bytes of its file, that of a SQL store the two tables of the schema.
  What can fail is an argument too: \<open>jsonl_io\<close> says which system call fails and how many bytes
  of a write reach the file, \<open>sql_env\<close> which database call fails and whether a commit that
  reports an error took effect, \<open>retry_env\<close> what each attempt of a retried transaction meets.

  IMPORTED CODE is a parameter: \<open>A\<close> of type \<open>aac\<close> for the Agent Action Capsule module, \<open>C\<close> of type
  \<open>cose\<close> for the COSE library, \<open>Driver_blob\<close> and the error numbers of a dialect for a database
  driver. What the code relies on in them are named predicates: \<open>hex_ids\<close>, \<open>jcs_lossless\<close>,
  \<open>jcs_faithful\<close>, \<open>verify_by_value\<close>, \<open>verify_reports_id\<close> (in \<open>VerifyCapsule\<close>), \<open>envelope_accepts\<close> (in
  \<open>SealedRecord\<close>), \<open>sql_env_ok\<close> (in \<open>SqlFacts\<close>). \<open>Samples\<close> has instances for which all of them hold.

  WHAT THE LEMMAS SHOW. Building: what is validated, that the result has exactly the members the
  input determines, is well-formed, verifies again, and does not depend on iteration orders.
  Decoding: sound, complete for printed values, total. Records: which are accepted, how they
  print and read back, and that the storage checksum commits to everything but originals and
  survives their purge. Stores: the locale \<open>store_contract\<close> states the refinement of the abstract
  store under faults, \<open>live_store\<close> that nothing else decides without faults; histories,
  tombstones and reads are proved in them once, and \<open>jsonl\<close>, \<open>sql\<close> and \<open>mysql\<close> interpret them on
  the models of the three packages. The locale \<open>line_codec\<close> has what the index and the scan of
  a JSONL file need of the line format; \<open>record_lines\<close> interprets it on marshalled records.
  \<open>faithful_store\<close> extends \<open>live_store\<close> by the laws of an encoding that keeps what the checks look
  at; the three stores interpret it, and so answer a client alike.

  CONCURRENCY. \<open>JsonlThreads\<close> takes the calls of the JSONL store apart: \<open>enter\<close> is what a call does
  before \<open>Lock\<close>, \<open>section_step\<close> one access to the index or to the file under the mutex, \<open>settle\<close>
  what follows the release; \<open>thread_step\<close> interleaves the goroutines, with a label \<open>Lin\<close> where a call
  takes effect. The mutex is released as the code does it: \<open>Init\<close>, \<open>Put\<close> and \<open>Purge\<close> have deferred
  \<open>Unlock\<close> to their return, whichever it is, and \<open>Get\<close> calls it on each of its two paths; a path that
  returned without it would leave the mutex taken. The invariant \<open>lin_inv\<close> says that whoever holds the mutex, run to the end of its
  section, does what the atomic operation does to the state the earlier effects have made. The
  functions \<open>jsonl_Put\<close>, \<open>jsonl_Get\<close> and \<open>jsonl_Purge\<close> of the other theories are these atomic
  operations. The process may die between two steps, where the file is one that an operation has
  left or would leave (\<open>late\<close>, \<open>disk_of_effects\<close>), and within the \<open>Write\<close> that appends a line, where
  the file has any beginning of it (\<open>process_dies\<close>). To the other goroutines a \<open>Write\<close> is one step:
  they read the file under the mutex only.

  FUEL. \<open>decode_fuel s = 2 * length s + 2\<close>: each call of the decoder's loops spends one unit and
  consumes a token at least every second call (\<open>decode_enough_fuel\<close>). \<open>v2_fuel s\<close> is of the same
  form, and \<open>v2_fuel_irrelevant\<close> shows that more changes nothing. \<open>retry_loop\<close> counts the four
  retries the code allows, so it needs no fuel of its own. \<open>complete\<close> runs a critical section for
  five steps, which \<open>rank_bound\<close> shows to be enough. All other recursion is structural or has a
  measure.

  NOT MODELLED. The test drivers (\<open>testdata\<close>, \<open>artifact/internal/testutil\<close>) and \<open>doc.go\<close>, which
  hold no logic of the library. Inside the models: the text of an inner error printed with
  \<open>%v\<close>; waiting times between retries; transactions of the databases that overlap (their
  isolation is the engines', which are not part of the program, so transactions are serial);
  a machine that stops before the system has written out a file (the code calls no \<open>Sync\<close>);
  permission bits and the temporary file of a rewrite, which every error removes; the time
  stamps of rows, of which only \<open>purged_at IS NULL\<close> matters; the order \<open>sort.Slice\<close> gives to
  equal names, which verified records do not have.
\<close>

section \<open>Building a Capsule\<close>

text \<open>
  C1. What \<open>Build\<close> returns verifies: the canonical JSON, decoded and checked again by
  \<open>VerifyCapsule\<close>, passes Class 1 under the very identifier \<open>Build\<close> returned, provided the
  payload is not nested deeper than the decoder reads. The hypotheses on \<open>A\<close> are the
  documented behaviour of the imported module.
\<close>

theorem built_capsule_verifies:
  assumes "range_ok rng" and "hex_ids A" and "jcs_lossless A" and "verify_by_value A"
    and "verify_reports_id A" and "Build A rng i = Inr b"
    and "json_depth (JObj (Built_Value b)) \<le> maxJSONDepth"
  shows "verifies A (Built_JSON b) (Built_CapsuleID b)"
  by (rule Build_verifies_within_depth [OF assms])

lemma built_capsule_verifies_witness:
  "verifies sample_aac (Built_JSON (sample_built sample_settlement)) (Built_CapsuleID (sample_built sample_settlement))"
  by (rule built_capsule_verifies [OF range_ok_in_order sample_hex_ids sample_jcs_lossless
        sample_verify_by_value sample_verify_reports_id sample_settlement_build sample_built_depth])

text \<open>
  C10. \<open>Build\<close> is deterministic although it ranges over Go maps in validation and in both
  walks over the payload: if it succeeds with one iteration order, it succeeds with every
  other and returns the same Capsule.
\<close>

theorem build_map_order_independent:
  assumes "range_ok rng" and "range_ok rng'"
  shows "Build A rng i = Inr b \<longleftrightarrow> Build A rng' i = Inr b"
  using Build_order assms by blast

lemma build_map_order_independent_witness:
  "Build sample_aac reversed (with_settlement sample_settlement) = Inr (sample_built sample_settlement)"
  using build_map_order_independent [OF range_ok_in_order range_ok_reversed] sample_settlement_build by blast

text \<open>
  C11. The payload of a built Capsule, member by member. Every member of the base profile holds
  what \<open>base_schema\<close> says for the input, nested objects and references included (which field of
  the input is under which name, and which are left out when they are empty or not given);
  \<open>capsule_id\<close> is the identifier computed over all other members; every extension member is the
  decoded, non-null value the caller gave under that name; and there is no other member.
\<close>

theorem build_payload_members:
  assumes "range_ok rng" and "Build A rng i = Inr b"
  shows "(\<forall>(k, P) \<in> set (base_schema i). P (map_of (Built_Value b) k)) \<and>
    ComputeCapsuleID A (filter (\<lambda>kv. fst kv \<noteq> ''capsule_id'') (Built_Value b)) = Inr (Built_CapsuleID b) \<and>
    map_of (Built_Value b) ''capsule_id'' = Some (JStr (Built_CapsuleID b)) \<and>
    (\<forall>ext \<in> set (Input_Extensions i). \<exists>v. decodeStrictJSON (Extension_Value ext) = Inr v \<and>
        v \<noteq> JNull \<and> map_of (Built_Value b) (Extension_Name ext) = Some v) \<and>
    set (keys (Built_Value b)) \<subseteq>
      insert ''capsule_id'' (set (map fst (base_schema i))) \<union> Extension_Name ` set (Input_Extensions i)"
proof (intro conjI)
  show "\<forall>(k, P) \<in> set (base_schema i). P (map_of (Built_Value b) k)" using Build_schema [OF assms] by blast
  show "\<forall>ext \<in> set (Input_Extensions i). \<exists>v. decodeStrictJSON (Extension_Value ext) = Inr v \<and>
        v \<noteq> JNull \<and> map_of (Built_Value b) (Extension_Name ext) = Some v"
    using Build_members(3) [OF assms] by blast
qed (rule Build_capsule_id [OF assms] Build_members(2) [OF assms] Build_keys [OF assms])+

lemma build_payload_members_witness:
  "map_of (Built_Value (sample_built sample_settlement)) ''settlement'' = Some sample_settlement \<and>
   text_is (Input_Operator sample_input) (map_of (Built_Value (sample_built sample_settlement)) ''operator'')"
proof -
  note members = build_payload_members [OF range_ok_in_order sample_settlement_build]
  have "\<exists>v. decodeStrictJSON (print_json sample_settlement) = Inr v \<and>
      map_of (Built_Value (sample_built sample_settlement)) ''settlement'' = Some v"
    using members by (auto simp: with_settlement_def)
  moreover have "(''operator'', text_is (Input_Operator sample_input)) \<in> set (base_schema (with_settlement sample_settlement))"
    by (simp add: base_schema_def with_settlement_def)
  ultimately show ?thesis
    using members decode_print_json sample_settlement_ok by fastforce
qed

text \<open>
  C32. A built payload is well-formed JSON: in every object the keys are distinct, all text is
  UTF-8 and every number is a JSON number text other than negative zero. Nothing a caller
  puts into a string field, a reference or an extension can break this.
\<close>

theorem built_payload_well_formed:
  assumes "range_ok rng" and "hex_ids A" and "Build A rng i = Inr b"
  shows "json_ok (JObj (Built_Value b))"
  by (rule Build_json_ok [OF assms])

lemma built_payload_well_formed_witness:
  "json_ok (JObj (Built_Value (sample_built sample_settlement)))"
  by (rule built_payload_well_formed [OF range_ok_in_order sample_hex_ids sample_settlement_build])

text \<open>
  C31. The derived assurance is honest. A built Capsule states \<open>effect_mode = confirmed\<close> exactly
  when its input has an effect of status confirmed, and then its \<open>effect\<close> member carries a
  response digest and an effect attestation; it states \<open>not_applicable\<close> exactly when nothing
  was dispatched; and \<open>ledger_mode = chained\<close> exactly when the payload names a parent.
\<close>

theorem build_assurance_honest:
  assumes "range_ok rng" and "Build A rng i = Inr b"
  shows "\<exists>effect ledger.
    map_of (Built_Value b) ''assurance'' = Some (JObj [(''effect_mode'', JStr effect),
      (''attestation_mode'', JStr AttestationModeSelfAttested), (''ledger_mode'', JStr ledger)]) \<and>
    (effect = EffectModeConfirmed \<longrightarrow>
       (\<exists>e d a. map_of (Built_Value b) ''effect'' = Some (JObj e) \<and>
          map_of e ''response_digest'' = Some (JStr d) \<and> hexDigestPattern d \<and>
          map_of e ''effect_attestation'' = Some (JStr a) \<and> a \<noteq> '''')) \<and>
    (effect = EffectModeNotApplicable \<longleftrightarrow>
       (\<forall>e. Input_Effect i = Some e \<longrightarrow> Effect_Status e = EffectPlanned)) \<and>
    (ledger = LedgerModeChained \<longleftrightarrow> map_of (Built_Value b) ''chain'' \<noteq> None)"
proof -
  note member = Build_base_member [OF assms]
  have base: "k \<in> {''assurance'', ''effect'', ''chain''} \<Longrightarrow> k \<in> set baseMembers - {''capsule_id'', ''references''}" for k
    by (auto simp: baseMembers_def)
  have "pred_option effect_ok (Input_Effect i)"
    using assms(2) validateInput_None_iff [OF assms(1)] by (auto elim!: Build_InrE simp: input_ok_def)
  moreover have "map_of (Built_Value b) ''effect'' = map_option (\<lambda>e. JObj (effectMap e)) (Input_Effect i)"
    using member [OF base] by (simp add: base_payload_optional)
  ultimately have confirmed: "effect_mode (Input_Effect i) = EffectModeConfirmed \<longrightarrow>
      (\<exists>e d a. map_of (Built_Value b) ''effect'' = Some (JObj e) \<and>
          map_of e ''response_digest'' = Some (JStr d) \<and> hexDigestPattern d \<and>
          map_of e ''effect_attestation'' = Some (JStr a) \<and> a \<noteq> '''')"
    using confirmed_effect_evidence by fastforce
  have assurance: "map_of (Built_Value b) ''assurance'' = Some (JObj (assuranceMap (Input_Effect i) (Input_Chain i)))"
    using member [OF base] by (simp add: base_payload_profile)
  have "map_of (Built_Value b) ''chain'' = map_option (\<lambda>c. JObj (chainMap c)) (Input_Chain i)"
    using member [OF base] by (simp add: base_payload_optional)
  then have ledger: "(if Input_Chain i \<noteq> None then LedgerModeChained else LedgerModeStandalone) = LedgerModeChained \<longleftrightarrow>
      map_of (Built_Value b) ''chain'' \<noteq> None"
    by (simp add: go_consts)
  show ?thesis
    using assurance confirmed effect_mode_not_applicable ledger unfolding assuranceMap_def by blast
qed

lemma build_assurance_honest_witness:
  "map_of (Built_Value (sample_built sample_settlement)) ''chain'' = None"
  using build_assurance_honest [OF range_ok_in_order sample_settlement_build]
  by (auto simp: sample_built_def sample_payload_def sample_profile_def Let_def base_payload_optional
      with_settlement_def sample_input_def)

section \<open>Validation\<close>

text \<open>
  C23. \<open>validateInput\<close> accepts exactly the inputs described by \<open>input_ok\<close>, in whatever order
  the Go maps in it are iterated: identities that are not blank, a set timestamp, a known
  action type with a disposition where one is needed, valid parts, no authored digests
  beside a carried or composed binding, and a chain to a well-formed parent.
\<close>

theorem validateInput_accepts:
  assumes "range_ok rng"
  shows "validateInput rng i = None \<longleftrightarrow> input_ok i"
  by (rule validateInput_None_iff [OF assms])

lemma validateInput_accepts_witness: "validateInput reversed sample_input = None"
  using validateInput_accepts [OF range_ok_reversed] sample_input_ok by blast

text \<open>
  Which evidence an effect may carry is a table over its status: a planned effect carries
  none, a dispatched one must be attested and has no response yet, a confirmed one must
  carry the response digest and an attestation, a failed or reverted one must be attested.
  \<open>validateEffect\<close> implements this table, with any iteration order of its digest map.
\<close>

theorem validateEffect_implements_table:
  assumes "range_ok rng"
  shows "validateEffect rng e = None \<longleftrightarrow> effect_ok e"
  by (rule validateEffect_None_iff [OF assms])

lemma validateEffect_implements_table_witness:
  "validateEffect reversed \<lparr>Effect_Type = ''send_payment'', Effect_Status = EffectPlanned,
     Effect_IrreversibilityClass = IrreversibilityTwoWay, Effect_EffectAttestation = '''',
     Effect_RequestDigest = '''', Effect_ResponseDigest = '''', Effect_ExternalRef = ''''\<rparr> = None"
  using validateEffect_implements_table [OF range_ok_reversed]
  by (simp add: effect_ok_def blank_Cons between_def go_consts evidence_table_def digest_field_ok_def)

text \<open>
  A provenance mode is accepted in two forms only: contemporaneous with no companion at
  all, or backfilled with a complete plain source reference, the three companion texts and
  a known time rung or none.
\<close>

theorem validateProvenanceMode_two_forms:
  "validateProvenanceMode (Some m) = None \<longleftrightarrow> contemporaneous_ok m \<or> backfilled_ok m"
  by (rule validateProvenanceMode_None_iff)

text \<open>
  An extension is admitted exactly when its name is well-formed, is no base member, has
  not been given before, and its bytes decode strictly to a value other than null without
  floats and unsafe integers; the order in which nested objects are walked does not matter.
\<close>

theorem extensionValue_admits:
  assumes "range_ok rng"
  shows "extensionValue A rng ext payload = Inr v \<longleftrightarrow> extension_ok A payload ext v"
  by (rule extensionValue_Inr_iff [OF assms])

lemma extensionValue_admits_witness:
  "extensionValue sample_aac reversed
     \<lparr>Extension_Name = ''settlement'', Extension_Value = print_json sample_settlement\<rparr> [] = Inr sample_settlement"
  using extensionValue_admits [OF range_ok_reversed] sample_settlement_ok
  by (simp add: extension_ok_def extensionNamePattern_def between_def baseMembers_def decode_print_json)

section \<open>Strict JSON\<close>

text \<open>
  C34. Strict decoding is total: with the fuel it starts from, the decoder always returns a
  value or an error, on every byte string.
\<close>

theorem strict_decoding_terminates:
  "decodeJSONValue (decode_fuel s) (new_decoder s) 1 \<noteq> None"
  by (rule decode_fuel_enough)

text \<open>
  C33. What strict decoding returns is well-formed (no duplicate key in any object, UTF-8
  text, no negative zero) and nested at most 1000 deep, and its input was UTF-8.
\<close>

theorem strict_decoding_sound:
  assumes "decodeStrictJSON s = Inr v"
  shows "utf8_valid s \<and> json_ok v \<and> json_depth v \<le> maxJSONDepth"
  by (rule decodeStrictJSON_sound [OF assms])

lemma strict_decoding_sound_witness: "json_ok (JObj [(''leaf_index'', JNum ''7'')])"
  using strict_decoding_sound [OF sample_decode] by blast

text \<open>
  C17. Conversely every well-formed value within the depth limit is decoded from its printed
  text, so decoding rejects nothing that it should accept.
\<close>

theorem strict_decoding_round_trip:
  assumes "json_ok v" and "json_depth v \<le> maxJSONDepth"
  shows "decodeStrictJSON (print_json v) = Inr v"
  by (rule decode_print_json [OF assms])

lemma strict_decoding_round_trip_witness:
  "decodeStrictJSON (print_json sample_settlement) = Inr sample_settlement"
  by (rule strict_decoding_round_trip [OF sample_settlement_ok(1,2)])

text \<open>
  C39. The depth limit is checked on an extension's bytes, not on the payload that holds it.
  Whenever \<open>Build\<close> succeeds on an input with an extension that is as deep as the decoder reads
  (1000 levels), the Capsule is deeper, and no byte string at all decodes to it, in whatever
  order of members. If canonical bytes are the text of no other value, its own bytes verify
  under no identifier, and \<open>Sign\<close> refuses it. (\<open>Build\<close> does succeed on such an input: the witness.)
\<close>

theorem build_deep_extension_undecodable:
  assumes "range_ok rng" and "hex_ids A" and "Build A rng i = Inr b" and "ext \<in> set (Input_Extensions i)"
    and "decodeStrictJSON (Extension_Value ext) = Inr v" and "json_depth v = maxJSONDepth"
  shows "json_depth (JObj (Built_Value b)) > maxJSONDepth \<and>
    (\<forall>data w. DecodePayload data = Inr w \<longrightarrow> \<not> json_eq (JObj (Built_Value b)) (JObj w)) \<and>
    (jcs_faithful A \<longrightarrow>
       (\<forall>cid. \<not> verifies A (Built_JSON b) cid) \<and>
       (\<forall>C rnd identity. \<not> is_ok (Sign A C rnd b identity)))"
proof -
  have deep: "json_depth (JObj (Built_Value b)) > maxJSONDepth"
    by (rule Build_deep_extension [OF assms(1,3-6)])
  have "JCS A (JObj (Built_Value b)) = Inr (Built_JSON b)" using assms(3) by (auto elim: Build_InrE)
  with deep have unverified: "jcs_faithful A \<Longrightarrow> \<not> verifies A (Built_JSON b) cid" for cid
    using too_deep_unverifiable Build_json_ok [OF assms(1-3)] by blast
  then have "jcs_faithful A \<Longrightarrow> \<not> is_ok (Sign A C rnd b identity)" for C rnd identity
    by (cases "Sign A C rnd b identity") (auto elim: Sign_InrE)
  with deep unverified too_deep_undecodable show ?thesis by blast
qed

theorem build_deep_extension_undecodable_witness:
  "Build sample_aac in_order (with_settlement (nest 999)) = Inr (sample_built (nest 999)) \<and>
   json_depth (JObj (Built_Value (sample_built (nest 999)))) > maxJSONDepth \<and>
   \<not> verifies sample_aac (Built_JSON (sample_built (nest 999))) (Built_CapsuleID (sample_built (nest 999)))"
proof -
  have built: "Build sample_aac in_order (with_settlement (nest 999)) = Inr (sample_built (nest 999))"
    by (rule sample_build) (simp_all add: nest_ok maxJSONDepth_def)
  have "decodeStrictJSON (print_json (nest 999)) = Inr (nest 999)"
    by (rule decode_print_json) (simp_all add: nest_ok maxJSONDepth_def)
  then show ?thesis
    using built sample_jcs_faithful
      build_deep_extension_undecodable [OF range_ok_in_order sample_hex_ids built, of "\<lparr>Extension_Name = ''settlement'', Extension_Value = print_json (nest 999)\<rparr>" "nest 999"]
    by (simp add: with_settlement_def nest_ok maxJSONDepth_def)
qed

section \<open>Timestamps\<close>

text \<open>
  C40. Two instants of the years 1 to 9999 have the same wire text exactly when they agree
  to the microsecond, and the text has 20 or 27 characters.
\<close>

theorem formatTimestamp_injective:
  assumes "year_9999 t" and "year_9999 t'"
  shows "(formatTimestamp t = formatTimestamp t' \<longleftrightarrow> t div 1000 = t' div 1000) \<and>
    length (formatTimestamp t) = (if (t - t mod 1000) mod 1000000000 = 0 then 20 else 27)"
  using formatTimestamp_inject [OF assms] formatTimestamp_length [OF assms(1)] by blast

lemma formatTimestamp_injective_witness:
  "formatTimestamp 63902880000123456789 = formatTimestamp 63902880000123456000"
  using formatTimestamp_injective [of 63902880000123456789 63902880000123456000] by (simp add: year_9999_def)

section \<open>Carried artifacts and compositions\<close>

text \<open>
  \<open>BuildComposition\<close> accepts a list of members exactly when it is not empty, every
  member is in a known slot and verifies under its own well-formed identifier, no slot and
  no Capsule occurs twice; the Capsule it then builds is the one \<open>Build\<close> makes from the composed binding.
\<close>

theorem composition_accepts:
  "BuildComposition A rng input members = Inr b \<longleftrightarrow>
     composition_ok A members \<and>
     Build A rng (input\<lparr>Input_binding := Some (composed_binding members)\<rparr>) = Inr b"
  by (rule BuildComposition_Inr_iff)

text \<open>
  C21. The order in which the members are given is irrelevant: a permutation of the arguments
  gives the same Capsule, or fails too.
\<close>

theorem composition_order_irrelevant:
  assumes "mset ms = mset ns"
  shows "BuildComposition A rng input ms = Inr b \<longleftrightarrow> BuildComposition A rng input ns = Inr b"
  using composed_binding_perm [OF assms] composition_ok_perm [OF assms]
  by (auto simp: BuildComposition_Inr_iff)

lemma composition_order_irrelevant_witness:
  "\<forall>b. BuildComposition sample_aac in_order sample_input sample_members = Inr b \<longleftrightarrow>
       BuildComposition sample_aac in_order sample_input (rev sample_members) = Inr b"
  using composition_order_irrelevant [of sample_members "rev sample_members"] by simp

text \<open>
  The composed members appear in the canonical slot order who, can, did, audit, one entry
  for each slot given, and each entry cites the identifier of the member in that slot.
\<close>

theorem composition_canonical_members:
  assumes "composition_ok A members"
  shows "map digestReference_Slot (ComposedMembers (composed_binding members)) =
      filter (\<lambda>slot. slot \<in> SlotMember_slot ` set members) compositionSlots \<and>
    set (ComposedMembers (composed_binding members)) =
      (\<lambda>s. \<lparr>digestReference_Type = capsuleReferenceType, digestReference_DigestAlg = digestAlgorithmSHA256,
         digestReference_Digest = member_id s, digestReference_Slot = SlotMember_slot s\<rparr>) ` set members"
  using composed_members [OF assms] by blast

lemma composition_canonical_members_witness:
  "map digestReference_Slot (ComposedMembers (composed_binding sample_members)) = [slotWho, slotAudit]"
  using composition_canonical_members [OF sample_composition_ok]
  by (simp add: sample_members_def Audit_def Who_def newSlotMember_def compositionSlots_def go_consts)

text \<open>
  C30. A Capsule that carries a foreign artifact commits to its bytes: the payload's
  \<open>carried_input_digest\<close> and the digest of \<open>carried_artifact\<close> are both the lowercase
  hexadecimal SHA-256 of the artifact exactly as received, under the declared type.
\<close>

theorem received_commits_artifact:
  assumes "range_ok rng" and "Received A rng input artifact artifactType = Inr b"
  shows "artifact \<noteq> [] \<and>
    compute_member (Built_Value b) ''carried_input_digest'' =
      Some (JStr (hex_EncodeToString (sha256_Sum256 artifact))) \<and>
    compute_member (Built_Value b) ''carried_artifact'' = Some (JObj
      [(''type'', JStr artifactType), (''digest_alg'', JStr ''SHA-256''),
       (''digest'', JStr (hex_EncodeToString (sha256_Sum256 artifact)))])"
proof -
  let ?i = "input\<lparr>Input_binding := Some (carried_binding artifact artifactType)\<rparr>"
  have b: "Build A rng ?i = Inr b" and "artifact \<noteq> []"
    using assms(2) by (auto simp: Received_def split: if_splits)
  then show ?thesis
    by (simp add: Build_compute_member [OF assms(1) b] computeAttestationMap_carried rawDigest_def)
qed

lemma received_commits_artifact_witness:
  "compute_member (Built_Value (plain_built carried_input)) ''carried_input_digest'' =
     Some (JStr (hex_EncodeToString (sha256_Sum256 ''artifact'')))"
  using received_commits_artifact [OF range_ok_in_order sample_received] by blast

section \<open>Signing and sealing\<close>

text \<open>
  C12. \<open>Sign\<close> signs what it verified: an envelope is returned only for a Capsule whose bytes
  verify under its identifier, the signed payload is the 32 bytes the identifier spells in
  hexadecimal, the protected header carries the identity's own public key, and the finished
  message was checked against that key before it was encoded.
\<close>

theorem sign_binds_verified_capsule:
  assumes "Sign A C rnd built identity = Inr envelope"
  shows "verifies A (Built_JSON built) (Built_CapsuleID built) \<and>
    (\<exists>signer payload message verifier. identity_signer identity = Some signer \<and>
       hex_EncodeToString payload = Built_CapsuleID built \<and> length payload = 32 \<and>
       cose_Sign C rnd (unsigned_message (identity_publicKey identity) payload) signer = Inr message \<and>
       cose_NewVerifier C AlgorithmEdDSA (identity_publicKey identity) = Inr verifier \<and>
       cose_Verify C message verifier = None \<and> cose_MarshalCBOR C message = Inr envelope)"
proof -
  obtain signer payload message verifier where *:
    "identity_signer identity = Some signer" "hexDigestPattern (Built_CapsuleID built)"
    "verifies A (Built_JSON built) (Built_CapsuleID built)"
    "hex_DecodeString (Built_CapsuleID built) = Some payload"
    "cose_Sign C rnd (unsigned_message (identity_publicKey identity) payload) signer = Inr message"
    "cose_NewVerifier C AlgorithmEdDSA (identity_publicKey identity) = Inr verifier"
    "cose_Verify C message verifier = None" "cose_MarshalCBOR C message = Inr envelope"
    using assms by (rule Sign_InrE)
  with hex_capsule_id [OF *(2)] show ?thesis by auto
qed

lemma sign_binds_verified_capsule_witness:
  "verifies sample_aac (Built_JSON (sample_capsule (sample_hex 5))) (Built_CapsuleID (sample_capsule (sample_hex 5)))"
  using sample_sign sign_binds_verified_capsule [of sample_aac sample_cose "[]" "sample_capsule (sample_hex 5)" sample_identity]
  by (cases "Sign sample_aac sample_cose [] (sample_capsule (sample_hex 5)) sample_identity") auto

text \<open>
  C18. A sealed result is self-consistent: its payload verifies under its Capsule identifier,
  its envelope is what \<open>Sign\<close> made for exactly that Capsule with the caller's identity, and
  neither model nor compute metadata came in through the embedded input.
\<close>

theorem seal_result_consistent:
  assumes "Seal A C rnd rng input = Inr r"
  shows "verifies A (Result_Payload r) (Result_CapsuleID r) \<and>
    (\<exists>built. Built_JSON built = Result_Payload r \<and> Built_CapsuleID built = Result_CapsuleID r \<and>
       Sign A C rnd built (Seal_Identity input) = Inr (Result_Envelope r)) \<and>
    Input_Model (Seal_Capsule input) = None \<and> Input_Compute (Seal_Capsule input) = None"
proof -
  obtain built where *: "Sign A C rnd built (Seal_Identity input) = Inr (Result_Envelope r)"
    "Result_CapsuleID r = Built_CapsuleID built" "Result_Payload r = Built_JSON built"
    "Input_Model (Seal_Capsule input) = None" "Input_Compute (Seal_Capsule input) = None"
    using assms by (rule Seal_InrE)
  from *(1) have "verifies A (Built_JSON built) (Built_CapsuleID built)" by (rule Sign_InrE)
  with * show ?thesis by auto
qed

lemma seal_result_consistent_witness:
  "\<exists>r. Seal sample_aac sample_cose [] in_order sample_seal = Inr r \<and>
     verifies sample_aac (Result_Payload r) (Result_CapsuleID r)"
  using sample_seal_ok seal_result_consistent by blast

text \<open>
  C22. A seal commits to the caller's values: without members, the built payload's
  \<open>agent_input_digest\<close> is \<open>DigestJSON\<close> of the payload value and \<open>agent_output_digest\<close> that
  of the agent output, each present exactly when the value is (a nil map, pointer or slice
  counts as absent).
\<close>

theorem seal_commits_values:
  assumes "range_ok rng" and "hex_ids A" and "seal_build A rng input = Inr b"
    and "Seal_Members input = None" and "Input_Compute (Seal_Capsule input) = None"
  shows "(if isAbsentJSONValue (Seal_Payload input)
      then compute_member (Built_Value b) ''agent_input_digest'' = None
      else \<exists>d. DigestJSON A (Seal_Payload input) = Inr d \<and>
        compute_member (Built_Value b) ''agent_input_digest'' = Some (JStr d)) \<and>
    (if isAbsentJSONValue (Seal_AgentOutput input)
      then compute_member (Built_Value b) ''agent_output_digest'' = None
      else \<exists>d. DigestJSON A (Seal_AgentOutput input) = Inr d \<and>
        compute_member (Built_Value b) ''agent_output_digest'' = Some (JStr d))"
  using seal_digest_members [OF assms] by blast


lemma seal_commits_values_witness:
  "compute_member (Built_Value (plain_built sealed_input)) ''agent_output_digest'' = None"
  using seal_commits_values [OF range_ok_in_order sample_hex_ids sample_seal_build]
  by (simp add: sample_seal_def plain_input_def sample_input_def)

section \<open>Artifact records\<close>

text \<open>
  C3. \<open>Verify\<close> accepts a record exactly when the Capsule verifies under the record's
  identifier, the envelope verifies for it under a trusted key, the names of the artifacts
  are well-formed and distinct, and every artifact is in one of three shapes: present with
  content that has the recorded checksum and, when bound, the digest the Capsule commits to;
  purged with a checksum only; never retained with neither. It then reports, artifact by
  artifact, the state, whether there is a binding, and whether an original was rehashed.
\<close>

theorem verify_accepts:
  "Verify A r trusted = Inr res \<longleftrightarrow>
     record_ok A trusted r \<and> res = map (\<lambda>a. (Artifact_Name a, check_of a)) (Record_Artifacts r)"
  by (rule Verify_Inr_iff)

text \<open>
  C19. Purging is compatible with everything a record is checked for: from an admitted record
  it leaves one that still verifies, is within the limits, has the same storage checksum and
  no original left; and the checksum does not depend on the order of the inventory either.
\<close>

theorem purge_keeps_record:
  assumes "admitted A trusted r"
  shows "record_ok A trusted (purge_record r) \<and> within_limits (purge_record r) \<and>
    StorageChecksum (purge_record r) = StorageChecksum r \<and>
    (\<forall>a \<in> set (Record_Artifacts (purge_record r)). Artifact_Content a = None) \<and>
    (\<forall>as. mset as = mset (Record_Artifacts r) \<longrightarrow>
       StorageChecksum (r\<lparr>Record_Artifacts := as\<rparr>) = StorageChecksum r)"
proof -
  have purged: "admitted A trusted (purge_record r)" using assms by (rule admitted_purge)
  then have "inventory_ok A (Record_Capsule (purge_record r)) (Record_Artifacts (purge_record r))"
    unfolding admitted_def record_ok_def by blast
  then obtain m where m: "\<forall>a \<in> set (Record_Artifacts (purge_record r)). artifact_ok A m a"
    unfolding inventory_ok_def by blast
  have "Artifact_Content a = None" if "a \<in> set (Record_Artifacts (purge_record r))" for a
    using bspec [OF m that] purged_states [OF that] unfolding artifact_ok_def by metis
  moreover have "StorageChecksum (r\<lparr>Record_Artifacts := as\<rparr>) = StorageChecksum r"
    if "mset as = mset (Record_Artifacts r)" for as
  proof -
    have "inventory (Record_Artifacts r) = inventory as"
      by (rule inventory_perm [OF admitted_distinct [OF assms]]) (rule that [symmetric])
    then show ?thesis by (intro checksum_cong) simp_all
  qed
  ultimately show ?thesis using purged checksum_purge unfolding admitted_def by blast
qed

lemma purge_keeps_record_witness:
  "record_ok sample_aac [trusted_key] (purge_record (note_prepared ''hi''))"
  using purge_keeps_record [OF note_admitted] by simp

text \<open>
  C16. What a storage checksum commits to. Two records with one storage checksum have stored
  texts, the marshalled records with their inventories, which SHA-256 maps to that one checksum.
  Unless these two texts collide, the records have the same identifier, Capsule and envelope,
  and the same artifacts by name, binding, content checksum and state (a purged original counts
  as present), in whatever order.
\<close>

theorem checksum_commits_record:
  assumes "StorageChecksum r = Inr h" and "StorageChecksum q = Inr h"
  shows "\<exists>s t. marshalRecord (r\<lparr>Record_Artifacts := inventory (Record_Artifacts r)\<rparr>) = Inr s \<and>
    marshalRecord (q\<lparr>Record_Artifacts := inventory (Record_Artifacts q)\<rparr>) = Inr t \<and>
    rawDigest s = h \<and> rawDigest t = h \<and>
    (s = t \<longrightarrow> Record_CapsuleID r = Record_CapsuleID q \<and> Record_Capsule r = Record_Capsule q \<and>
      Record_ProducerEnvelope r = Record_ProducerEnvelope q \<and>
      mset (map (\<lambda>a. (Artifact_Name a, Artifact_Binding a, Artifact_ContentSHA256 a,
          if Artifact_State a = Purged then Present else Artifact_State a)) (Record_Artifacts r)) =
      mset (map (\<lambda>a. (Artifact_Name a, Artifact_Binding a, Artifact_ContentSHA256 a,
          if Artifact_State a = Purged then Present else Artifact_State a)) (Record_Artifacts q)))"
proof -
  obtain s t where s: "marshalRecord (r\<lparr>Record_Artifacts := inventory (Record_Artifacts r)\<rparr>) = Inr s" "rawDigest s = h"
    and t: "marshalRecord (q\<lparr>Record_Artifacts := inventory (Record_Artifacts q)\<rparr>) = Inr t" "rawDigest t = h"
    using checksum_text [OF assms(1)] checksum_text [OF assms(2)] by metis
  have "r\<lparr>Record_Artifacts := as\<rparr> = q\<lparr>Record_Artifacts := bs\<rparr> \<Longrightarrow>
      Record_CapsuleID r = Record_CapsuleID q \<and> Record_Capsule r = Record_Capsule q \<and>
      Record_ProducerEnvelope r = Record_ProducerEnvelope q \<and> as = bs" for as bs
    by (cases r; cases q) simp
  with checksum_text_inject [OF s(1)] t(1) inventory_tuples s t show ?thesis by blast
qed

lemma checksum_commits_record_witness:
  "\<exists>h s t. StorageChecksum (note_prepared ''hi'') = Inr h \<and>
     marshalRecord ((purge_record (note_prepared ''hi''))
       \<lparr>Record_Artifacts := inventory (Record_Artifacts (purge_record (note_prepared ''hi'')))\<rparr>) = Inr s \<and>
     marshalRecord ((note_prepared ''hi'')\<lparr>Record_Artifacts := inventory (Record_Artifacts (note_prepared ''hi''))\<rparr>) = Inr t \<and>
     rawDigest s = h \<and> rawDigest t = h"
proof -
  obtain h where "StorageChecksum (note_prepared ''hi'') = Inr h"
    using checksum_defined [OF note_record_ok [of "''hi''"]] by blast
  then show ?thesis
    using checksum_commits_record [of "purge_record (note_prepared ''hi'')" h "note_prepared ''hi''"]
    by (metis checksum_purge)
qed

text \<open>
  C29. \<open>Prepare\<close> accepts exactly the records within the limits (64 artifacts, an envelope of
  65535 bytes, 8 MiB in all) without a tombstone and without a wrong checksum; it changes
  nothing but the checksums of present artifacts, which it fills in; and preparing again
  changes nothing.
\<close>

theorem prepare_accepts:
  "(Prepare r = Inr p \<longleftrightarrow>
      length (Record_Artifacts r) \<le> 64 \<and> length (Record_ProducerEnvelope r) \<le> 65535 \<and>
      record_length r \<le> 8 * 1024 * 1024 \<and> (\<forall>a \<in> set (Record_Artifacts r). preparable a) \<and>
      p = r\<lparr>Record_Artifacts := map fill_checksum (Record_Artifacts r)\<rparr>) \<and>
   (Prepare r = Inr p \<longrightarrow> Prepare p = Inr p)"
  using Prepare_idempotent
  by (auto simp: Prepare_Inr_iff within_limits_def max_artifacts_def max_envelope_def max_record_def)

lemma prepare_accepts_witness: "Prepare (note_prepared ''hi'') = Inr (note_prepared ''hi'')"
proof -
  have "Prepare (note_record ''hi'') = Inr (note_prepared ''hi'')" by (rule note_prepare) simp
  with prepare_accepts show ?thesis by blast
qed

text \<open>
  C20. A marshalled record reads back as itself, but for empty content, which the tag
  \<open>omitempty\<close> drops; so two records with one text differ in that at most. The identifier peeked from the
  text is the record's.
\<close>

theorem record_round_trip:
  assumes "marshalRecord r = Inr s"
  shows "unmarshalRecord s = Some (stored r) \<and> peek s = (Record_CapsuleID r, True) \<and>
    (\<forall>q. marshalRecord q = Inr s \<longrightarrow> stored q = stored r)"
  using unmarshal_marshal [OF assms] peek_marshal [OF assms] marshal_inject [OF _ assms] by blast

lemma record_round_trip_witness:
  "unmarshalRecord (record_line (note_prepared ''hi'')) = Some (stored (note_prepared ''hi''))"
  using record_round_trip [OF marshal_line [OF note_admitted]] by simp

text \<open>
  The text of an admitted record is one line: it has no control character, so no line
  break, and with its newline it is shorter than the 16 MiB the scanner's buffer holds. No
  record that is admitted can make a file unreadable.
\<close>

theorem record_is_one_line:
  assumes "admitted A trusted r" and "marshalRecord r = Inr s"
  shows "(\<forall>c \<in> set s. 32 \<le> byte c) \<and> length s + 1 < 16 * 1024 * 1024 \<and>
    scan_lines (s @ [newline]) = ([s], None)"
proof -
  have s: "s = record_line r" using assms marshal_line by (metis sum.inject(2))
  have "length s + 1 < max_line"
    using assms(1) admitted_line_length by (auto simp: s admitted_def record_line_def)
  moreover have "scan_lines (s @ [newline]) = ([s], None)"
    using scan_line [OF record_lines.good_clean [OF assms(1)], of "[]"] by (simp add: s)
  ultimately show ?thesis
    using record_lines.printable [OF assms(1)] by (simp add: s max_line_def)
qed

lemma record_is_one_line_witness:
  "scan_lines (record_line (note_prepared ''hi'') @ [newline]) = ([record_line (note_prepared ''hi'')], None)"
  using record_is_one_line [OF note_admitted marshal_line [OF note_admitted]] by simp

text \<open>The record of the cross-language test, and its line.\<close>

definition golden_record :: Record where
  "golden_record =
     \<lparr>Record_CapsuleID = replicate 64 CHR ''a'', Record_Capsule = ''{}'',
      Record_ProducerEnvelope = [CHR 0x00, CHR 0x01, CHR 0x02, CHR 0xFF],
      Record_Artifacts =
        [\<lparr>Artifact_Name = ''payload'', Artifact_Binding = PayloadDigest, Artifact_Content = Some [CHR ''{'', CHR ''}'', CHR 0x0A],
          Artifact_State = Present,
          Artifact_ContentSHA256 = ''ca3d163bab055381827226140568f3bef7eaac187cebd76878e0b63e9e442356''\<rparr>,
         \<lparr>Artifact_Name = ''agent_output'', Artifact_Binding = AgentOutputDigest, Artifact_Content = None,
          Artifact_State = NeverRetained, Artifact_ContentSHA256 = ''''\<rparr>]\<rparr>"

definition golden_line :: string where
  "golden_line =
     ''{\"capsule_id\":\"'' @ replicate 64 CHR ''a'' @ ''\",\"capsule\":\"e30=\",\"producer_envelope\":\"AAEC/w==\",'' @
     ''\"artifacts\":[{\"name\":\"payload\",\"binding\":\"model_attestation.compute_attestation.agent_input_digest\",'' @
     ''\"content\":\"e30K\",\"state\":\"present\",'' @
     ''\"content_sha256\":\"ca3d163bab055381827226140568f3bef7eaac187cebd76878e0b63e9e442356\"},'' @
     ''{\"name\":\"agent_output\",\"binding\":\"model_attestation.compute_attestation.agent_output_digest\",'' @
     ''\"state\":\"never_retained\"}]}''"

text \<open>
  The frozen wire line of the cross-language test, byte for byte: key order, snake case
  names, standard base64, and no member for an empty binding, content or checksum.
\<close>

theorem wire_line_frozen:
  "marshalRecord golden_record = Inr golden_line \<and> unmarshalRecord golden_line = Some golden_record"
proof -
  have utf8: "record_utf8 golden_record"
    by (simp add: golden_record_def record_utf8_def artifact_utf8_def go_consts utf8_valid_all_ascii)
  have "v2_print (record_json golden_record) = golden_line"
    by (simp add: golden_record_def golden_line_def record_json_def artifact_json_def text_member_def
        v2_quote_def v2_escape_def print_char_def b64_char_def b64_pad_def go_consts char_of_def bit_0)
  with utf8 have marshal: "marshalRecord golden_record = Inr golden_line" by (simp add: marshalRecord_def)
  moreover have "stored golden_record = golden_record"
    by (simp add: golden_record_def stored_def stored_artifact_def stored_content_def)
  ultimately show ?thesis using unmarshal_marshal [OF marshal] by simp
qed

section \<open>The JSONL store\<close>

text \<open>
  C4. The JSONL store implements the abstract store. From a file the store wrote, every
  operation keeps the layout (one line for each admitted record, the index pointing to them)
  and either answers and changes the contents as the specification says, or reports an error
  of the file system and changes neither file nor index. The one assumption on faults is
  that a failing write of a line has written nothing.
\<close>

theorem jsonl_refines_store:
  assumes "jsonl_inv A trusted sd"
  shows "(\<forall>io r err sd'. write_clean io \<and> jsonl_Put A io r sd = (err, sd') \<longrightarrow> jsonl_inv A trusted sd' \<and>
      ((err, jsonl_holds sd') = spec_put A trusted stored r (jsonl_holds sd) \<or>
       err \<noteq> None \<and> io \<noteq> no_faults \<and> sd' = sd)) \<and>
    (\<forall>io cid. jsonl_Get A io cid sd = spec_get A trusted cid (jsonl_holds sd) \<or>
       io \<noteq> no_faults \<and> (\<exists>err. jsonl_Get A io cid sd = Inl err)) \<and>
    (\<forall>io cid err sd'. jsonl_Purge io cid sd = (err, sd') \<longrightarrow> jsonl_inv A trusted sd' \<and>
      ((err, jsonl_holds sd') = spec_purge cid (jsonl_holds sd) \<or>
       err \<noteq> None \<and> io \<noteq> no_faults \<and> sd' = sd))"
  using jsonl_put_outcome [OF assms] jsonl_get_outcome [OF assms] jsonl_purge_outcome [OF assms] by blast

lemma jsonl_refines_store_witness:
  "jsonl_Get sample_aac no_faults (sample_hex 5) (fresh_store, Some []) = Inl (Err ErrNotFound)"
proof -
  have "jsonl_Get sample_aac no_faults (sample_hex 5) (fresh_store, Some []) =
      spec_get sample_aac [trusted_key] (sample_hex 5) (jsonl_holds (fresh_store, Some []))"
    using jsonl_refines_store [OF fresh_inv] by blast
  then show ?thesis using fresh_holds sample_hex_pattern by (simp add: spec_get_def)
qed

text \<open>
  C15. Histories. Over any sequence of \<open>Put\<close> and \<open>Purge\<close>, accepted or refused, under any file
  system faults that leave no partial line, a record that is held stays held as it is, or
  with its originals purged; nothing is replaced, nothing comes back. An identifier whose
  record has a tombstone takes no further \<open>Put\<close>.
\<close>

theorem jsonl_records_immutable:
  assumes "jsonl_inv A trusted sd" and "store_run (jsonl_Put A) jsonl_Purge write_clean sd sd'"
  shows "jsonl_inv A trusted sd' \<and>
    (\<forall>cid r. jsonl_holds sd cid = Some r \<longrightarrow> jsonl_holds sd' cid \<in> {Some r, Some (purge_record r)}) \<and>
    (\<forall>io q err sd2 old. write_clean io \<and> jsonl_Put A io q sd' = (err, sd2) \<and>
       jsonl_holds sd' (Record_CapsuleID q) = Some old \<and> any_purged old \<longrightarrow>
       err \<noteq> None \<and> jsonl_holds sd2 = jsonl_holds sd')"
proof -
  have run: "jsonl_inv A trusted sd' \<and>
      (\<forall>cid r. jsonl_holds sd cid = Some r \<longrightarrow> jsonl_holds sd' cid \<in> {Some r, Some (purge_record r)})"
    by (rule jsonl.run_holds [OF assms(2,1)])
  then have "jsonl_inv A trusted sd'" by blast
  with run jsonl.put_after_purge [of A trusted sd'] show ?thesis by blast
qed

text \<open>
  A record put under a fresh identifier is read back exactly (but for empty content, see
  \<open>stored\<close>), from this store and after any number of repeated puts, which are accepted.
\<close>

theorem jsonl_put_get:
  assumes "jsonl_inv A trusted sd" and "jsonl_holds sd (Record_CapsuleID r) = None"
    and "admit A trusted r = Inr (p, hash)" and "record_ok A trusted (stored p)"
  shows "\<exists>sd'. jsonl_Put A no_faults r sd = (None, sd') \<and>
    jsonl_Get A no_faults (Record_CapsuleID r) sd' = Inr (stored p) \<and>
    fst (jsonl_Put A no_faults r sd') = None"
proof -
  obtain err sd' where put: "jsonl_Put A no_faults r sd = (err, sd')" by (rule prod.exhaust)
  have out: "(err, jsonl_holds sd') = spec_put A trusted stored r (jsonl_holds sd)"
    by (rule jsonl.put_exact [OF assms(1) refl put])
  note p = admit_InrD [OF assms(3)]
  from out have err: "err = None" and held: "jsonl_holds sd' (Record_CapsuleID r) = Some (stored p)"
    using assms(2,3) p(4) by (simp_all add: spec_put_def)
  have inv: "jsonl_inv A trusted sd'"
    using jsonl.put_inv [OF assms(1) jsonl.faultless_clean [OF refl] put] .
  obtain err2 sd2 where again: "jsonl_Put A no_faults r sd' = (err2, sd2)" by (rule prod.exhaust)
  have "(err2, jsonl_holds sd2) = spec_put A trusted stored r (jsonl_holds sd')"
    by (rule jsonl.put_exact [OF inv refl again])
  moreover have "\<not> any_purged (stored p)"
    using p(2) by (simp add: any_purged_def list_ex_iff stored_artifact_def)
  ultimately have "err2 = None"
    using held assms(3,4) p(3,4) readmit_None_iff [of A trusted hash "stored p"] by (simp add: spec_put_def)
  with put err again jsonl.put_then_get [OF assms(1) refl refl put [unfolded err] assms(2-4)] show ?thesis by simp
qed

lemma jsonl_put_get_witness:
  "\<exists>sd. jsonl_Put sample_aac no_faults (note_record ''hi'') (fresh_store, Some []) = (None, sd) \<and>
     jsonl_Get sample_aac no_faults (sample_hex 5) sd = Inr (note_prepared ''hi'')"
proof -
  obtain hash where admit: "admit sample_aac [trusted_key] (note_record ''hi'') = Inr (note_prepared ''hi'', hash)"
    by (rule note_admit [of "''hi''"]) simp_all
  have "record_ok sample_aac [trusted_key] (stored (note_prepared ''hi''))"
    using note_record_ok by (simp add: note_stored)
  from jsonl_put_get [OF fresh_inv fresh_holds admit this] show ?thesis by (auto simp: note_stored)
qed

lemma jsonl_records_immutable_witness:
  "\<exists>sd sd'. jsonl_holds sd (sample_hex 5) = Some (note_prepared ''hi'') \<and>
     store_run (jsonl_Put sample_aac) jsonl_Purge write_clean sd sd' \<and>
     jsonl_holds sd' (sample_hex 5) \<in> {Some (note_prepared ''hi''), Some (purge_record (note_prepared ''hi''))}"
proof -
  obtain sd where sd: "jsonl_inv sample_aac [trusted_key] sd"
    "jsonl_holds sd (sample_hex 5) = Some (note_prepared ''hi'')"
    using note_put by metis
  obtain err sd' where purge: "jsonl_Purge no_faults (sample_hex 5) sd = (err, sd')" by (rule prod.exhaust)
  have run: "store_run (jsonl_Put sample_aac) jsonl_Purge write_clean sd sd'"
    by (rule single_step [OF step_purge [where purge = jsonl_Purge and clean = write_clean, OF jsonl.faultless_clean [OF refl] purge]])
  with jsonl_records_immutable [OF sd(1) run] sd(2) show ?thesis by blast
qed

text \<open>
  C24. \<open>Purge\<close> is atomic, on any file whatever it holds: with an error, wherever it occurs, file
  and index are as before; otherwise no fault has played a part, and the file has the lines it
  had, except that each line whose identifier is the target's (there is one) is now the line of
  the record that the index entry led to, with its originals erased. The other lines, those no
  record can be read from included, are copied but for a carriage return at their end, which
  the scanner drops; where no line ends in one, they are copied byte for byte.
\<close>

theorem jsonl_purge_atomic:
  assumes "jsonl_Purge io cid sd = (err, sd')"
  shows "case err of
      Some e \<Rightarrow> sd' = sd
    | None \<Rightarrow> jsonl_Purge no_faults cid sd = (None, sd') \<and>
        (\<exists>content entry target data raws. snd sd = Some content \<and>
           map_of (Store_index (fst sd)) cid = Some entry \<and> readAt no_faults (Some content) entry = Inr target \<and>
           Record_CapsuleID target = cid \<and> marshalRecord (purge_record target) = Inr data \<and>
           (\<forall>l \<in> set raws. newline \<notin> set l) \<and>
           file_bytes raws = (if content = [] \<or> last content = newline then content else content @ [newline]) \<and>
           (\<exists>l \<in> set raws. fst (peek (drop_cr l)) = cid) \<and>
           snd sd' = Some (file_bytes (map (\<lambda>l. if fst (peek (drop_cr l)) = cid then data else drop_cr l) raws)) \<and>
           ((\<forall>l \<in> set raws. l = [] \<or> last l \<noteq> carriage_return) \<longrightarrow>
              snd sd' = Some (file_bytes (map (\<lambda>l. if fst (peek l) = cid then data else l) raws))))"
proof (cases err)
  case (Some e)
  then show ?thesis using jsonl_Purge_error assms by simp
next
  case None
  then have ok: "jsonl_Purge io cid sd = (None, sd')" using assms by simp
  obtain content entry target data raws where "snd sd = Some content"
    "map_of (Store_index (fst sd)) cid = Some entry" "readAt no_faults (Some content) entry = Inr target"
    "Record_CapsuleID target = cid" "marshalRecord (purge_record target) = Inr data" "raw_lines content raws"
    "\<exists>l \<in> set raws. fst (peek (drop_cr l)) = cid"
    "snd sd' = Some (file_bytes (map (\<lambda>l. if fst (peek (drop_cr l)) = cid then data else drop_cr l) raws))"
    "(\<forall>l \<in> set raws. l = [] \<or> last l \<noteq> carriage_return) \<longrightarrow>
      snd sd' = Some (file_bytes (map (\<lambda>l. if fst (peek l) = cid then data else l) raws))"
    by (rule jsonl_Purge_rewrites [OF ok])
  with jsonl_Purge_faultless [OF ok] show ?thesis unfolding None option.case raw_lines_def by blast
qed

lemma jsonl_purge_atomic_witness:
  "\<exists>sd sd' content entry target. jsonl_Purge no_faults (sample_hex 5) sd = (None, sd') \<and> snd sd = Some content \<and>
     map_of (Store_index (fst sd)) (sample_hex 5) = Some entry \<and>
     readAt no_faults (Some content) entry = Inr target \<and> Record_CapsuleID target = sample_hex 5"
proof -
  obtain sd where sd: "jsonl_inv sample_aac [trusted_key] sd"
    "jsonl_holds sd (sample_hex 5) = Some (note_prepared ''hi'')"
    using note_put by metis
  obtain err sd' where purge: "jsonl_Purge no_faults (sample_hex 5) sd = (err, sd')" by (rule prod.exhaust)
  have "(err, jsonl_holds sd') = spec_purge (sample_hex 5) (jsonl_holds sd)"
    by (rule jsonl.purge_exact [OF sd(1) refl purge])
  with sd(2) sample_hex_pattern have "err = None" by (simp add: spec_purge_def)
  with purge have ok: "jsonl_Purge no_faults (sample_hex 5) sd = (None, sd')" by simp
  have "\<exists>content entry target. snd sd = Some content \<and> map_of (Store_index (fst sd)) (sample_hex 5) = Some entry \<and>
      readAt no_faults (Some content) entry = Inr target \<and> Record_CapsuleID target = sample_hex 5"
    using jsonl_purge_atomic [OF ok] unfolding option.case by blast
  with ok show ?thesis by blast
qed

text \<open>
  C37. Carriage returns shift the index. A file whose lines end in a carriage return and a
  newline (one that an editor or a transfer has converted) is opened without an error and every
  record in it is indexed, but the index counts the bytes of a line as the scanner returns it,
  without the carriage return. The first record is read; the second one is reported as corrupt,
  although its line is intact.
\<close>

theorem jsonl_crlf_misread:
  assumes "admitted A trusted p" and "admitted A trusted q" and "Record_CapsuleID p \<noteq> Record_CapsuleID q"
    and "open_ok namespace trusted"
  shows "\<exists>s. jsonl_New no_faults path namespace trusted
        (Some (record_line p @ [carriage_return, newline] @ record_line q @ [carriage_return, newline])) = Inr s \<and>
    jsonl_holds (s, Some (record_line p @ [carriage_return, newline] @ record_line q @ [carriage_return, newline]))
      (Record_CapsuleID p) = Some (stored p) \<and>
    jsonl_Get A no_faults (Record_CapsuleID q)
        (s, Some (record_line p @ [carriage_return, newline] @ record_line q @ [carriage_return, newline])) =
      Inl (Wrapf ''%w: parse failed: %v'' [] (Err ErrCorrupt))"
proof -
  have "crlf_file [p, q] = record_line p @ [carriage_return, newline] @ record_line q @ [carriage_return, newline]"
    by (simp add: crlf_file_def)
  then show ?thesis using crlf_misread [OF assms] by metis
qed

lemma jsonl_crlf_misread_witness:
  "\<exists>s disk. jsonl_New no_faults ''artifacts.jsonl'' ''ns'' [trusted_key] disk = Inr s \<and>
     jsonl_holds (s, disk) (sample_hex 5) = Some (note_prepared ''hi'') \<and>
     jsonl_Get sample_aac no_faults (sample_hex 6) (s, disk) = Inl (Wrapf ''%w: parse failed: %v'' [] (Err ErrCorrupt))"
proof -
  have p: "admitted sample_aac [trusted_key] (note_prepared ''hi'')" by (rule note_admitted) simp
  have "Record_CapsuleID (note_prepared ''hi'') \<noteq> Record_CapsuleID bare_record"
    using sample_hex_neq by (simp add: bare_record_def)
  from jsonl_crlf_misread [OF p bare_admitted this open_sample, of "''artifacts.jsonl''"] show ?thesis
    by (auto simp: note_stored bare_record_def)
qed

text \<open>
  The index is a function of the file: a process that opens the file of a store finds
  the store as the last process left it.
\<close>

theorem jsonl_reopen:
  assumes "jsonl_inv A trusted (s, disk)" and "open_ok (Store_namespace s) trusted"
  shows "jsonl_New no_faults (Store_path s) (Store_namespace s) trusted disk = Inr s"
  using assms(1) reopen_layout [OF _ assms(2)] by (auto simp: jsonl_inv_def)

lemma jsonl_reopen_witness:
  "jsonl_New no_faults ''artifacts.jsonl'' ''ns'' [trusted_key] (Some []) = Inr fresh_store"
  using jsonl_reopen [OF fresh_inv] open_sample by (simp add: fresh_store_def)

text \<open>
  C35. A torn line loses the record after it. The single \<open>Write\<close> of a line and its newline does
  not keep a partial line out of the file: if a first \<open>Put\<close> on a new store writes one byte
  and fails, the retry is accepted and the record is held, but when the file is opened again
  the record is not found.
\<close>

theorem jsonl_torn_put_lost:
  assumes "open_ok namespace trusted" and "admit A trusted r = Inr (p, hash)"
  shows "\<exists>s sd sd' s'. jsonl_New no_faults path namespace trusted None = Inr s \<and>
    jsonl_Put A (no_faults\<lparr>Io_write := Some (1, err)\<rparr>) r (s, snd (jsonl_Init no_faults None)) = (Some err, sd) \<and>
    jsonl_Put A no_faults r sd = (None, sd') \<and>
    jsonl_holds sd' (Record_CapsuleID r) = Some (stored p) \<and>
    jsonl_New no_faults path namespace trusted (snd sd') = Inr s' \<and>
    jsonl_Get A no_faults (Record_CapsuleID r) (s', snd sd') = Inl (Err ErrNotFound)"
proof -
  obtain s where s: "jsonl_New no_faults path namespace trusted None = Inr s"
    "jsonl_Init no_faults None = (None, Some [])" "jsonl_layout A trusted [] (s, Some [])"
    by (rule created_layout [OF assms(1)])
  have s_fields: "Store_path s = path" "Store_namespace s = namespace"
    using s(1) assms(1) by (auto simp: open_ok_def jsonl_New_def os_open_def Let_def list_ex_iff)
  then have "open_ok (Store_namespace s) trusted" using assms(1) by simp
  from torn_put_lost [OF s(3) this assms(2) refl, of err] obtain sd sd' s'' where
    "jsonl_Put A (no_faults\<lparr>Io_write := Some (1, err)\<rparr>) r (s, Some []) = (Some err, sd)"
    "jsonl_Put A no_faults r sd = (None, sd')" "jsonl_holds sd' (Record_CapsuleID r) = Some (stored p)"
    "jsonl_New no_faults (Store_path s) (Store_namespace s) trusted (snd sd') = Inr s''"
    "jsonl_Get A no_faults (Record_CapsuleID r) (s'', snd sd') = Inl (Err ErrNotFound)"
    by metis
  with s s_fields show ?thesis by (intro exI [of _ s] exI [of _ sd] exI [of _ sd'] exI [of _ s'']) simp
qed

lemma jsonl_torn_put_lost_witness:
  "\<exists>s sd. jsonl_New no_faults ''artifacts.jsonl'' ''ns'' [trusted_key] None = Inr s \<and>
     jsonl_Put sample_aac (no_faults\<lparr>Io_write := Some (1, External ''disk full'')\<rparr>) (note_record ''hi'') (s, Some []) =
       (Some (External ''disk full''), sd)"
proof -
  obtain hash where admit: "admit sample_aac [trusted_key] (note_record ''hi'') = Inr (note_prepared ''hi'', hash)"
    by (rule note_admit [of "''hi''"]) simp_all
  show ?thesis
    using jsonl_torn_put_lost [OF open_sample admit, of "''artifacts.jsonl''" "External ''disk full''"]
    by (auto simp: jsonl_Init_def no_faults_def)
qed

text \<open>
  C38. Empty content does not survive. \<open>Put\<close> accepts a record with a present, unbound original
  of no bytes, the line drops the content, and no \<open>Get\<close> returns the record again.
\<close>

theorem jsonl_empty_content_unreadable:
  assumes "jsonl_inv A trusted sd" and "jsonl_holds sd (Record_CapsuleID r) = None"
    and "admit A trusted r = Inr (p, hash)"
    and "a \<in> set (Record_Artifacts p)" and "Artifact_State a = Present" and "Artifact_Content a = Some ''''"
  shows "\<exists>sd'. jsonl_Put A no_faults r sd = (None, sd') \<and>
    (\<forall>io q. jsonl_Get A io (Record_CapsuleID r) sd' \<noteq> Inr q)"
proof -
  obtain err sd' where put: "jsonl_Put A no_faults r sd = (err, sd')" by (rule prod.exhaust)
  have out: "(err, jsonl_holds sd') = spec_put A trusted stored r (jsonl_holds sd)"
    by (rule jsonl.put_exact [OF assms(1) refl put])
  then have err: "err = None" and held: "jsonl_holds sd' (Record_CapsuleID r) = Some (stored p)"
    using assms(2,3) admit_InrD(4) [OF assms(3)] by (simp_all add: spec_put_def)
  have inv: "jsonl_inv A trusted sd'"
    using jsonl.put_inv [OF assms(1) jsonl.faultless_clean [OF refl] put] .
  have "\<not> record_ok A trusted (stored p)"
  proof
    assume "record_ok A trusted (stored p)"
    then obtain m where "artifact_ok A m (stored_artifact a)"
      using assms(4) by (auto simp: record_ok_def inventory_ok_def)
    with assms(5,6) show False by (simp add: artifact_ok_def stored_artifact_def stored_content_def)
  qed
  with jsonl.get_sound [OF inv] held have "jsonl_Get A io (Record_CapsuleID r) sd' \<noteq> Inr q" for io q by fastforce
  with put err show ?thesis by blast
qed

lemma jsonl_empty_content_unreadable_witness:
  "\<exists>sd. jsonl_Put sample_aac no_faults (note_record '''') (fresh_store, Some []) = (None, sd) \<and>
     (\<forall>io q. jsonl_Get sample_aac io (sample_hex 5) sd \<noteq> Inr q)"
proof -
  obtain hash where admit: "admit sample_aac [trusted_key] (note_record '''') = Inr (note_prepared '''', hash)"
    by (rule note_admit [of "''''"]) simp_all
  have "fill_checksum (note_artifact '''') \<in> set (Record_Artifacts (note_prepared ''''))"
    by (simp add: note_prepared_def note_record_def)
  from jsonl_empty_content_unreadable [OF fresh_inv fresh_holds admit this] show ?thesis
    by (simp add: note_artifact_def)
qed

text \<open>
  C36. A damaged line. When a file has a line that yields an identifier but cannot be read as a
  record, opening the file skips it and \<open>Get\<close> of that identifier answers that there is no such
  Capsule; a purge of another record then puts the line into the index, and the same
  \<open>Get\<close> answers that the store is corrupt.
\<close>

theorem jsonl_damaged_line_indexed:
  assumes "admitted A trusted p" and "clean_line l" and "peek l = (cid, False)" and "unmarshalRecord l = None"
    and "hexDigestPattern cid" and "cid \<noteq> Record_CapsuleID p" and "open_ok namespace trusted"
  shows "\<exists>s sd. jsonl_New no_faults path namespace trusted (Some (file_bytes [record_line p, l])) = Inr s \<and>
    jsonl_Get A no_faults cid (s, Some (file_bytes [record_line p, l])) = Inl (Err ErrNotFound) \<and>
    jsonl_Purge no_faults (Record_CapsuleID p) (s, Some (file_bytes [record_line p, l])) = (None, sd) \<and>
    jsonl_Get A no_faults cid sd = Inl (Wrapf ''%w: parse failed: %v'' [] (Err ErrCorrupt))"
  by (rule jsonl_damaged_line [OF assms]) blast

lemma jsonl_damaged_line_indexed_witness:
  "\<exists>s sd. jsonl_New no_faults ''artifacts.jsonl'' ''ns'' [trusted_key]
       (Some (file_bytes [record_line (note_prepared ''hi''), damaged_line])) = Inr s \<and>
     jsonl_Purge no_faults (sample_hex 5) (s, Some (file_bytes [record_line (note_prepared ''hi''), damaged_line])) = (None, sd) \<and>
     jsonl_Get sample_aac no_faults (sample_hex 6) sd = Inl (Wrapf ''%w: parse failed: %v'' [] (Err ErrCorrupt))"
proof -
  have "admitted sample_aac [trusted_key] (note_prepared ''hi'')" by (rule note_admitted) simp
  from jsonl_damaged_line_indexed [OF this damaged_line_sample sample_hex_pattern _ open_sample, of "''artifacts.jsonl''"]
  show ?thesis using sample_hex_neq by (simp; blast)
qed

section \<open>The JSONL store under concurrent calls\<close>

text \<open>
  C7. The JSONL store is linearizable. However the steps of its goroutines interleave, each
  call takes effect at one moment between its invocation and its return (\<open>Lin\<close>; every
  goroutine's labels are a call, its effect, its return, and the answer returned is that of the
  effect), and the effects in their order are a run of the atomic operations \<open>jsonl_Init\<close>,
  \<open>jsonl_Put\<close>, \<open>jsonl_Get\<close> and \<open>jsonl_Purge\<close> from the initial state, with the same answers under
  the same faults. While nobody holds the mutex the index and the file are what that run left,
  and no two goroutines are ever in their critical sections together.
\<close>

theorem jsonl_linearizable:
  assumes "thread_run A (quiet sd) tr c"
  shows "(\<forall>t. progress_of t tr \<noteq> Wrong) \<and>
    (\<exists>sd'. replay A (effects tr) sd = Some sd' \<and> (Mutex c = None \<longrightarrow> Shared c = sd')) \<and>
    (\<forall>t u. holding (Phase c t) \<and> holding (Phase c u) \<longrightarrow> t = u)"
proof -
  obtain sd' where run: "replay A (effects tr) sd = Some sd'" "lin_inv A (Store_trusted (fst sd)) sd' c"
    "\<forall>t. progress_of t tr = phase_progress A (Store_trusted (fst sd)) (Phase c t)"
    using run_linearizes [OF assms] by blast
  moreover have "phase_progress A (Store_trusted (fst sd)) p \<noteq> Wrong" for p by (cases p) simp_all
  moreover have "t = u" if "holding (Phase c t)" "holding (Phase c u)" for t u
    using run(2) that by (simp add: lin_inv_def)
  ultimately show ?thesis by (auto simp: lin_inv_def)
qed

theorem jsonl_linearizable_witness:
  "\<exists>tr c sd'. thread_run sample_aac (quiet (fresh_store, Some [])) tr c \<and>
     Lin 1 get_note no_faults (Found (Inr (note_prepared ''hi''))) \<in> set tr \<and>
     replay sample_aac (effects tr) (fresh_store, Some []) = Some sd' \<and> Shared c = sd'"
proof (rule race)
  fix c
  assume run: "thread_run sample_aac (quiet (fresh_store, Some [])) race_trace c" and free: "Mutex c = None"
  have "\<exists>sd'. replay sample_aac (effects race_trace) (fresh_store, Some []) = Some sd' \<and> Shared c = sd'"
    using jsonl_linearizable [OF run] free by blast
  moreover have "Lin 1 get_note no_faults (Found (Inr (note_prepared ''hi''))) \<in> set race_trace"
    by (simp add: race_trace_def)
  ultimately show ?thesis using run by blast
qed

text \<open>
  C28. Calls of the JSONL store can always return, because every path through a critical section
  releases the mutex: the paths of \<open>Init\<close>, \<open>Put\<close> and \<open>Purge\<close> by the deferred \<open>Unlock\<close>, the two paths
  of \<open>Get\<close> by the explicit calls on them. In every state that goroutines can reach, whoever has
  the mutex is inside its section, so that nobody has left with it; and wherever the others
  are, a goroutine can be back from its call after at most 15 steps (six in which another holder
  of the mutex leaves its section, nine of its own), without a step of anyone else and
  without another call. The goroutines do not deadlock.
\<close>

theorem jsonl_calls_return:
  assumes "thread_run A (quiet sd) tr c"
  shows "(\<forall>u. Mutex c = Some u \<longleftrightarrow> holding (Phase c u)) \<and>
    (\<exists>us d. thread_run A c us d \<and> length us \<le> 15 \<and> Phase d t = Idle \<and>
       (\<forall>l \<in> set us. (actor l = t \<or> Mutex c = Some (actor l)) \<and> \<not> invocation l))"
proof -
  obtain sd' where inv: "lin_inv A (Store_trusted (fst sd)) sd' c" using run_linearizes [OF assms] by blast
  then have "\<forall>u. Mutex c = Some u \<longleftrightarrow> holding (Phase c u)" by (simp add: lin_inv_def)
  moreover from reachable_returns [OF inv refl, of t] have "\<exists>us d. thread_run A c us d \<and> length us \<le> 15 \<and> Phase d t = Idle \<and>
      (\<forall>l \<in> set us. (actor l = t \<or> Mutex c = Some (actor l)) \<and> \<not> invocation l)"
    by (simp add: returns_within_def)
  ultimately show ?thesis by blast
qed

theorem jsonl_calls_return_witness:
  "\<exists>us d. thread_run sample_aac (pair None (fresh_store, Some []) (Entering put_note no_faults) (Entering get_note no_faults)) us d \<and>
     length us \<le> 15 \<and> Phase d 1 = Idle"
proof -
  have "thread_run sample_aac (quiet (fresh_store, Some [])) [Call 0 put_note no_faults, Call 1 get_note no_faults]
      (pair None (fresh_store, Some []) (Entering put_note no_faults) (Entering get_note no_faults))"
    unfolding quiet_pair by (intro pair_runs(1) pair_runs(7) thread_run.nothing)
  from jsonl_calls_return [OF this, of 1] show ?thesis by blast
qed

text \<open>
  C13. Acknowledged writes survive concurrency. If goroutines start on a store in good order and
  no failing write leaves bytes behind, then at every moment at which the mutex is free the
  store is in good order, and its history is kept (\<open>history_kept\<close>): every record held at the
  start is held, as it was or purged; for every \<open>Put\<close> that has taken effect and was accepted the
  store holds a record of that identifier with the checksum of the record submitted; and a record
  whose \<open>Purge\<close> was accepted stays purged, whatever the others have done since.
\<close>

theorem jsonl_concurrent_puts_kept:
  assumes "thread_run A (quiet sd) tr c" and "jsonl_inv A trusted sd" and "clean_effects (effects tr)"
    and "Mutex c = None"
  shows "jsonl_inv A trusted (Shared c) \<and>
    history_kept A trusted (jsonl_holds sd) (effects tr) (jsonl_holds (Shared c))"
proof -
  obtain sd' where run: "replay A (effects tr) sd = Some sd'" "lin_inv A (Store_trusted (fst sd)) sd' c"
    using run_linearizes [OF assms(1)] by blast
  then have "Shared c = sd'" using assms(4) by (simp add: lin_inv_def)
  with replay_run [OF assms(2,3) run(1)] history_keeps [OF assms(2,3) run(1) store_run.run_refl] show ?thesis by simp
qed

theorem jsonl_concurrent_puts_kept_witness:
  "\<exists>tr c hash old. thread_run sample_aac (quiet (fresh_store, Some [])) tr c \<and>
     admit sample_aac [trusted_key] (note_record ''hi'') = Inr (note_prepared ''hi'', hash) \<and>
     jsonl_holds (Shared c) (sample_hex 5) = Some old \<and> StorageChecksum old = Inr hash"
proof (rule race)
  fix c
  assume run: "thread_run sample_aac (quiet (fresh_store, Some [])) race_trace c" and free: "Mutex c = None"
  have "clean_effects (effects race_trace)" by (simp add: race_trace_def clean_effects_def write_clean_def no_faults_def)
  then have "\<exists>p hash old. admit sample_aac [trusted_key] (note_record ''hi'') = Inr (p, hash) \<and>
      jsonl_holds (Shared c) (sample_hex 5) = Some old \<and> StorageChecksum old = Inr hash"
    using jsonl_concurrent_puts_kept [OF run fresh_inv _ free] by (simp add: race_trace_def history_kept_def)
  moreover have "\<exists>hash. admit sample_aac [trusted_key] (note_record ''hi'') = Inr (note_prepared ''hi'', hash)"
    by (rule note_admit [of "''hi''"]) auto
  ultimately obtain hash old where "admit sample_aac [trusted_key] (note_record ''hi'') = Inr (note_prepared ''hi'', hash)"
    "jsonl_holds (Shared c) (sample_hex 5) = Some old" "StorageChecksum old = Inr hash" by auto
  with run show ?thesis by blast
qed

text \<open>
  C14. What a dying process leaves. The process may die at any point of any interleaving: in the
  middle of critical sections, and in the middle of the \<open>Write\<close> that appends a line, with any
  beginning of the line in the file (\<open>process_dies\<close>). If no \<open>Write\<close> that reported an error has
  left bytes before, the file is then opened without an error, and no acknowledged work is
  lost: every record held at the start is held, as it was or purged; for every \<open>Put\<close> that has
  taken effect and was accepted the store holds a record with the checksum submitted; what an
  accepted \<open>Purge\<close> has erased stays erased. The file itself is in good order, or, since the store
  promises no atomicity of an append, it ends in a part of the line of a record whose \<open>Put\<close> was
  under way; that record is held only if nothing but the newline is missing, and all others
  are as they were. (C35 shows what becomes of a line appended to such a file.)
\<close>

theorem jsonl_crash_recovery:
  assumes "thread_run A (quiet sd) tr c" and "jsonl_inv A trusted sd" and "clean_calls tr"
    and "open_ok namespace trusted" and "process_dies c disk"
  shows "\<exists>s. jsonl_New no_faults path namespace trusted disk = Inr s \<and> good_or_torn A trusted tr s disk \<and>
    history_kept A trusted (jsonl_holds sd) (effects tr) (jsonl_holds (s, disk))"
  by (rule death_recovers [OF assms])

theorem jsonl_crash_recovery_witness:
  "\<exists>tr c disk s. thread_run sample_aac (quiet (fresh_store, Some [])) tr c \<and> process_dies c disk \<and>
     disk = Some (take 10 note_line) \<and> jsonl_New no_faults ''other.jsonl'' ''ns'' [trusted_key] disk = Inr s \<and>
     good_or_torn sample_aac [trusted_key] tr s disk"
proof -
  let ?tr = "[Call 0 put_note no_faults, Tau 0, Tau 0, Tau 0, Tau 0]"
  let ?c = "pair (Some 0) (fresh_store, Some []) (Holding put_note no_faults (PutWrite (note_prepared ''hi'') note_line 0)) Idle"
  have "10 \<le> length note_line" by (simp add: note_line_def record_line_def record_json_def v2_quote_def)
  then have "take 10 (note_line @ [newline]) = take 10 note_line" by simp
  then have dies: "process_dies ?c (Some (take 10 note_line))"
    using process_dies.writing [of ?c 0 put_note no_faults "note_prepared ''hi''" note_line 0 10] \<open>10 \<le> length note_line\<close>
    by (simp add: write_at_def no_faults_def)
  have "clean_calls ?tr" by (auto simp: clean_calls_def write_clean_def no_faults_def)
  from jsonl_crash_recovery [OF about_to_write fresh_inv this open_sample dies] dies about_to_write show ?thesis by blast
qed

section \<open>The SQL stores\<close>

text \<open>
  C5. The SQLite store implements the abstract store. Under the invariant of the tables, and in
  any dialect, every transaction keeps the invariant and either answers and changes the
  contents as the specification says, or fails by a fault of the database and leaves the
  tables as they were. The one assumption on faults is that a commit that reports an error
  has not taken effect.
\<close>

theorem sql_refines_store:
  assumes "sql_inv A D st db"
  shows "(\<forall>env r err db'. \<not> Commit_applied env \<and> sql_Put A D st env r db = (err, db') \<longrightarrow> sql_inv A D st db' \<and>
      ((err, sql_holds D st db') = spec_put A (Sql_trusted st) (sql_keep D) r (sql_holds D st db) \<or>
       err \<noteq> None \<and> env \<noteq> no_sql_faults \<and> db' = db)) \<and>
    (\<forall>env cid. sql_Get A D st env cid db = spec_get A (Sql_trusted st) cid (sql_holds D st db) \<or>
       env \<noteq> no_sql_faults \<and> (\<exists>err. sql_Get A D st env cid db = Inl err)) \<and>
    (\<forall>env cid err db'. \<not> Commit_applied env \<and> sql_Purge D st env cid db = (err, db') \<longrightarrow> sql_inv A D st db' \<and>
      ((err, sql_holds D st db') = spec_purge cid (sql_holds D st db) \<or>
       err \<noteq> None \<and> env \<noteq> no_sql_faults \<and> db' = db))"
proof (intro conjI allI impI)
  fix env r err db' assume a: "\<not> Commit_applied env \<and> sql_Put A D st env r db = (err, db')"
  then have "follows A D st env db (spec_put A (Sql_trusted st) (sql_keep D) r (sql_holds D st db)) (err, db')"
    using sql_put_outcome [OF assms, of env r] by simp
  then show "sql_inv A D st db'"
    "(err, sql_holds D st db') = spec_put A (Sql_trusted st) (sql_keep D) r (sql_holds D st db) \<or>
       err \<noteq> None \<and> env \<noteq> no_sql_faults \<and> db' = db"
    by (simp_all add: follows_def)
next
  fix env cid err db' assume a: "\<not> Commit_applied env \<and> sql_Purge D st env cid db = (err, db')"
  then have "follows A D st env db (spec_purge cid (sql_holds D st db)) (err, db')"
    using sql_purge_outcome [OF assms, of env cid] by simp
  then show "sql_inv A D st db'"
    "(err, sql_holds D st db') = spec_purge cid (sql_holds D st db) \<or>
       err \<noteq> None \<and> env \<noteq> no_sql_faults \<and> db' = db"
    by (simp_all add: follows_def)
qed (rule sql_get_outcome [OF assms])

lemma sql_refines_store_witness:
  "sql_Get sample_aac sample_dialect sample_sql no_sql_faults (sample_hex 5) empty_tables = Inl (Err ErrNotFound)"
proof -
  have "sql_Get sample_aac sample_dialect sample_sql no_sql_faults (sample_hex 5) empty_tables =
      spec_get sample_aac (Sql_trusted sample_sql) (sample_hex 5) (sql_holds sample_dialect sample_sql empty_tables)"
    using sql_refines_store [OF empty_inv(1)] by blast
  then show ?thesis using sample_hex_pattern by (simp add: spec_get_def empty_holds)
qed

text \<open>
  Histories of the SQL stores. Over any sequence of transactions a held record stays as
  it is or with its originals purged, no \<open>Put\<close> is accepted where there are tombstones, and
  whatever \<open>Get\<close> returns is held and passes \<open>Verify\<close> under the trusted keys.
\<close>

theorem sql_records_immutable:
  assumes "sql_inv A D st db"
    and "store_run (sql_Put A D st) (sql_Purge D st) (\<lambda>env. \<not> Commit_applied env) db db'"
  shows "sql_inv A D st db' \<and>
    (\<forall>cid r. sql_holds D st db cid = Some r \<longrightarrow> sql_holds D st db' cid \<in> {Some r, Some (purge_record r)}) \<and>
    (\<forall>env q err db2 old. \<not> Commit_applied env \<and> sql_Put A D st env q db' = (err, db2) \<and>
       sql_holds D st db' (Record_CapsuleID q) = Some old \<and> any_purged old \<longrightarrow>
       err \<noteq> None \<and> sql_holds D st db2 = sql_holds D st db') \<and>
    (\<forall>env cid r. sql_Get A D st env cid db' = Inr r \<longrightarrow>
       sql_holds D st db' cid = Some r \<and> record_ok A (Sql_trusted st) r)"
proof -
  have run: "sql_inv A D st db' \<and>
      (\<forall>cid r. sql_holds D st db cid = Some r \<longrightarrow> sql_holds D st db' cid \<in> {Some r, Some (purge_record r)})"
    by (rule sql.run_holds [OF assms(2,1)])
  then have inv: "sql_inv A D st db'" by blast
  show ?thesis
    using run sql.put_after_purge [OF inv] sql.get_sound [OF inv] by blast
qed

lemma sql_records_immutable_witness:
  "\<exists>db db'. sql_holds sample_dialect sample_sql db (sample_hex 5) = Some (sql_keep sample_dialect (note_prepared ''hi'')) \<and>
     store_run (sql_Put sample_aac sample_dialect sample_sql) (sql_Purge sample_dialect sample_sql)
       (\<lambda>env. \<not> Commit_applied env) db db' \<and>
     sql_holds sample_dialect sample_sql db' (sample_hex 5) \<in>
       {Some (sql_keep sample_dialect (note_prepared ''hi'')),
        Some (purge_record (sql_keep sample_dialect (note_prepared ''hi'')))}"
proof -
  obtain db where db: "sql_inv sample_aac sample_dialect sample_sql db"
    "sql_holds sample_dialect sample_sql db (sample_hex 5) = Some (sql_keep sample_dialect (note_prepared ''hi''))"
    using note_sql_put by metis
  obtain err db' where purge: "sql_Purge sample_dialect sample_sql no_sql_faults (sample_hex 5) db = (err, db')"
    by (rule prod.exhaust)
  have run: "store_run (sql_Put sample_aac sample_dialect sample_sql) (sql_Purge sample_dialect sample_sql)
      (\<lambda>env. \<not> Commit_applied env) db db'"
    by (rule single_step [OF step_purge [where purge = "sql_Purge sample_dialect sample_sql"
          and clean = "\<lambda>env. \<not> Commit_applied env", OF sql.faultless_clean [OF refl] purge]])
  with sql_records_immutable [OF db(1) run] db(2) show ?thesis by blast
qed

text \<open>
  C25. Erasure needs no integrity. On any tables, damaged or not, a purge of a SQL store that
  reports success has turned every row of the capsule in this namespace that was present into a
  tombstone without content, and has changed no other row, nor any Capsule, envelope or
  checksum; where the rows of the capsule pass the checks of the schema no original of it is left. Without
  faults the purge of a filed capsule does succeed when its present rows have checksums of 64
  characters, whatever the other rows are.
\<close>

theorem sql_purge_erases:
  "(sql_Purge D st env cid db = (None, db') \<longrightarrow>
     (\<exists>arts arts'. Db_artifacts db = Some arts \<and> Db_artifacts db' = Some arts' \<and>
       Db_capsules db' = Db_capsules db \<and> erased (Sql_namespace st, cid) arts arts' \<and>
       ((\<forall>row \<in> set arts. of_capsule (Sql_namespace st, cid) row \<longrightarrow> row_check (snd row)) \<longrightarrow>
         (\<forall>row \<in> set arts'. of_capsule (Sql_namespace st, cid) row \<longrightarrow> Row_content (snd row) = None)))) \<and>
   (mysql_Purge blob m env cid db = (None, db') \<longrightarrow>
     (\<exists>arts arts'. Db_artifacts db = Some arts \<and> Db_artifacts db' = Some arts' \<and>
       Db_capsules db' = Db_capsules db \<and> erased (Mysql_namespace m, cid) arts arts' \<and>
       ((\<forall>row \<in> set arts. of_capsule (Mysql_namespace m, cid) row \<longrightarrow> row_check (snd row)) \<longrightarrow>
         (\<forall>row \<in> set arts'. of_capsule (Mysql_namespace m, cid) row \<longrightarrow> Row_content (snd row) = None)))) \<and>
   (hexDigestPattern cid \<and> Db_capsules db = Some caps \<and> map_of caps (Sql_namespace st, cid) \<noteq> None \<and>
    Db_artifacts db = Some rows \<and>
    (\<forall>row \<in> set rows. of_capsule (Sql_namespace st, cid) row \<and> Row_state (snd row) = ''present'' \<longrightarrow>
       length (Row_content_sha (snd row)) = 64) \<longrightarrow>
     (\<exists>after. sql_Purge D st no_sql_faults cid db = (None, after)))"
proof (intro conjI impI)
  assume "sql_Purge D st env cid db = (None, db')"
  from sql_Purge_effect [OF this] erased_content show "\<exists>arts arts'. Db_artifacts db = Some arts \<and> Db_artifacts db' = Some arts' \<and>
      Db_capsules db' = Db_capsules db \<and> erased (Sql_namespace st, cid) arts arts' \<and>
      ((\<forall>row \<in> set arts. of_capsule (Sql_namespace st, cid) row \<longrightarrow> row_check (snd row)) \<longrightarrow>
        (\<forall>row \<in> set arts'. of_capsule (Sql_namespace st, cid) row \<longrightarrow> Row_content (snd row) = None))"
    by metis
next
  assume "mysql_Purge blob m env cid db = (None, db')"
  from mysql_Purge_effect [OF this] erased_content show "\<exists>arts arts'. Db_artifacts db = Some arts \<and> Db_artifacts db' = Some arts' \<and>
      Db_capsules db' = Db_capsules db \<and> erased (Mysql_namespace m, cid) arts arts' \<and>
      ((\<forall>row \<in> set arts. of_capsule (Mysql_namespace m, cid) row \<longrightarrow> row_check (snd row)) \<longrightarrow>
        (\<forall>row \<in> set arts'. of_capsule (Mysql_namespace m, cid) row \<longrightarrow> Row_content (snd row) = None))"
    by metis
qed (use sql_Purge_succeeds in blast)

lemma sql_purge_erases_witness:
  "\<exists>db db' arts. sql_Purge sample_dialect sample_sql no_sql_faults (sample_hex 5) db = (None, db') \<and>
     Db_artifacts db' = Some arts \<and>
     (\<forall>row \<in> set arts. of_capsule (''ns'', sample_hex 5) row \<longrightarrow> Row_content (snd row) = None)"
proof -
  obtain db where db: "sql_inv sample_aac sample_dialect sample_sql db"
    "sql_holds sample_dialect sample_sql db (sample_hex 5) = Some (sql_keep sample_dialect (note_prepared ''hi''))"
    using note_sql_put by metis
  obtain err db' where purge: "sql_Purge sample_dialect sample_sql no_sql_faults (sample_hex 5) db = (err, db')"
    by (rule prod.exhaust)
  have "err = None" using sql.purge_erases [OF db(1) refl purge sample_hex_pattern db(2)] by blast
  moreover have "Db_artifacts db = Some arts \<Longrightarrow> row \<in> set arts \<Longrightarrow> row_check (snd row)" for arts row
    using sql_inv_row_check [OF db(1)] by blast
  ultimately show ?thesis
    using purge sql_purge_erases [of sample_dialect sample_sql no_sql_faults "sample_hex 5" db db']
    by (fastforce simp: sample_sql_def)
qed

text \<open>
  C26. Namespaces are separate. Whatever a store of one namespace does, in any number of
  transactions and under any faults, uncertain commits included, on tables in any state: a
  store of another namespace on the same tables reads what it read before. Both SQL
  packages keep to this.
\<close>

theorem namespaces_isolated:
  assumes "ns' \<noteq> ns"
  shows "(\<forall>(st :: sql_store) (st' :: sql_store) db db'. Sql_namespace st = ns \<and> Sql_namespace st' = ns' \<and>
      store_run (sql_Put A D st) (sql_Purge D st) (\<lambda>_. True) db db' \<longrightarrow>
      (\<forall>env cid. sql_Get A D st' env cid db' = sql_Get A D st' env cid db)) \<and>
    (\<forall>(s :: mysql_store) (s' :: mysql_store) db db'. Mysql_namespace s = ns \<and> Mysql_namespace s' = ns' \<and>
      store_run (mysql_Put A blob s) (\<lambda>R. mysql_Purge blob s (Attempt_env R 0)) (\<lambda>_. True) db db' \<longrightarrow>
      (\<forall>env cid. mysql_Get A blob s' env cid db' = mysql_Get A blob s' env cid db))"
proof (intro conjI allI impI; elim conjE)
  fix st st' :: sql_store and db db' env cid
  assume "Sql_namespace st = ns" "Sql_namespace st' = ns'"
    "store_run (sql_Put A D st) (sql_Purge D st) (\<lambda>_. True) db db'"
  then show "sql_Get A D st' env cid db' = sql_Get A D st' env cid db"
    using foreign_Get [OF foreign_run] assms by blast
next
  fix s s' :: mysql_store and db db' env cid
  assume "Mysql_namespace s = ns" "Mysql_namespace s' = ns'"
    "store_run (mysql_Put A blob s) (\<lambda>R. mysql_Purge blob s (Attempt_env R 0)) (\<lambda>_. True) db db'"
  then show "mysql_Get A blob s' env cid db' = mysql_Get A blob s' env cid db"
    using foreign_Get [OF foreign_mysql_run, of A blob s _ _ _ "as_sql s'"] assms by (simp add: mysql_Get_eq)
qed

lemma namespaces_isolated_witness:
  "\<exists>db. sql_Put sample_aac sample_dialect sample_sql no_sql_faults (note_record ''hi'') empty_tables = (None, db) \<and>
     sql_Get sample_aac sample_dialect (sample_sql\<lparr>Sql_namespace := ''other''\<rparr>) no_sql_faults (sample_hex 5) db =
       Inl (Err ErrNotFound)"
proof -
  obtain db where put: "sql_Put sample_aac sample_dialect sample_sql no_sql_faults (note_record ''hi'') empty_tables = (None, db)"
    using note_sql_put by metis
  have run: "store_run (sql_Put sample_aac sample_dialect sample_sql) (sql_Purge sample_dialect sample_sql) (\<lambda>_. True) empty_tables db"
    by (rule single_step [OF step_put [where put = "sql_Put sample_aac sample_dialect sample_sql", OF TrueI put]])
  have "(''other'' :: string) \<noteq> ''ns''" by simp
  note isolated = namespaces_isolated [OF this, THEN conjunct1, rule_format, OF conjI [OF _ conjI [OF _ run]]]
  have "sql_Get sample_aac sample_dialect (sample_sql\<lparr>Sql_namespace := ''other''\<rparr>) no_sql_faults (sample_hex 5) db =
      sql_Get sample_aac sample_dialect (sample_sql\<lparr>Sql_namespace := ''other''\<rparr>) no_sql_faults (sample_hex 5) empty_tables"
    by (rule isolated) (simp_all add: sample_sql_def)
  moreover have "sql_Get sample_aac sample_dialect (sample_sql\<lparr>Sql_namespace := ''other''\<rparr>) no_sql_faults (sample_hex 5) empty_tables =
      Inl (Err ErrNotFound)"
    using sample_hex_pattern [of 5]
    by (simp add: sql_Get_def sql_read_def read_rows_def call_def no_sql_faults_def empty_tables_def
        rollback_joined_def tx_Rollback_def)
  ultimately show ?thesis using put by simp
qed

text \<open>
  C6. The MySQL store implements the abstract store as well, with its retries and its locking
  reads: whatever the attempts of a \<open>Put\<close> ran into, it keeps the invariant and answers as the
  specification says, or with an error that has changed nothing; a read, plain or locking and
  in the store's own transaction or a caller's, answers as the specification says or fails; and
  \<open>Purge\<close> purges, or fails and changes nothing.
\<close>

theorem mysql_refines_store:
  assumes "mysql_inv A blob s db"
  shows "(\<forall>R r err db'. (\<forall>n. \<not> Commit_applied (Attempt_env R n)) \<and> mysql_Put A blob s R r db = (err, db') \<longrightarrow>
      mysql_inv A blob s db' \<and>
      ((err, mysql_holds blob s db') =
         spec_put A (Mysql_trusted s) (sql_keep (mysql_dialect blob)) r (mysql_holds blob s db) \<or>
       err \<noteq> None \<and> mysql_holds blob s db' = mysql_holds blob s db)) \<and>
    (\<forall>env cid. mysql_Get A blob s env cid db = spec_get A (Mysql_trusted s) cid (mysql_holds blob s db) \<or>
       env \<noteq> no_sql_faults \<and> (\<exists>err. mysql_Get A blob s env cid db = Inl err)) \<and>
    (\<forall>env cid lock. mysql_GetTx A blob s env cid lock (Some db) =
         spec_get A (Mysql_trusted s) cid (mysql_holds blob s db) \<or>
       (\<exists>err. mysql_GetTx A blob s env cid lock (Some db) = Inl err)) \<and>
    (\<forall>env cid err db'. \<not> Commit_applied env \<and> mysql_Purge blob s env cid db = (err, db') \<longrightarrow>
      mysql_inv A blob s db' \<and>
      ((err, mysql_holds blob s db') = spec_purge cid (mysql_holds blob s db) \<or>
       err \<noteq> None \<and> mysql_holds blob s db' = mysql_holds blob s db))"
proof (intro conjI [OF _ conjI [OF _ conjI]] allI impI)
  fix R r err db'
  assume "(\<forall>n. \<not> Commit_applied (Attempt_env R n)) \<and> mysql_Put A blob s R r db = (err, db')"
  then show "mysql_inv A blob s db' \<and>
      ((err, mysql_holds blob s db') =
         spec_put A (Mysql_trusted s) (sql_keep (mysql_dialect blob)) r (mysql_holds blob s db) \<or>
       err \<noteq> None \<and> mysql_holds blob s db' = mysql_holds blob s db)"
    using mysql.put_refines [OF assms] by blast
next
  fix env cid
  show "mysql_Get A blob s env cid db = spec_get A (Mysql_trusted s) cid (mysql_holds blob s db) \<or>
       env \<noteq> no_sql_faults \<and> (\<exists>err. mysql_Get A blob s env cid db = Inl err)"
    using sql_get_outcome [OF assms] by (simp add: mysql_Get_eq)
  show "mysql_GetTx A blob s env cid lock (Some db) = spec_get A (Mysql_trusted s) cid (mysql_holds blob s db) \<or>
       (\<exists>err. mysql_GetTx A blob s env cid lock (Some db) = Inl err)" for lock
    using sql_read_outcome [of A "mysql_dialect blob" "as_sql s" "locking lock env" cid db] sql_read_exact [OF assms, of cid]
    by (auto simp: mysql_GetTx_def mysql_read_eq)
next
  fix env cid err db'
  assume purge: "\<not> Commit_applied env \<and> mysql_Purge blob s env cid db = (err, db')"
  then show "mysql_inv A blob s db' \<and>
      ((err, mysql_holds blob s db') = spec_purge cid (mysql_holds blob s db) \<or>
       err \<noteq> None \<and> mysql_holds blob s db' = mysql_holds blob s db)"
    using sql.purge_refines [OF assms, of "locking True env" cid err db'] by (simp add: mysql_Purge_eq)
qed

lemma mysql_refines_store_witness:
  "mysql_Get sample_aac Some sample_mysql no_sql_faults (sample_hex 5) empty_tables = Inl (Err ErrNotFound)"
proof -
  have "mysql_inv sample_aac Some sample_mysql empty_tables" using empty_inv(2) by simp
  from mysql_refines_store [OF this] have "mysql_Get sample_aac Some sample_mysql no_sql_faults (sample_hex 5) empty_tables =
      spec_get sample_aac (Mysql_trusted sample_mysql) (sample_hex 5) (mysql_holds Some sample_mysql empty_tables)"
    by blast
  then show ?thesis using sample_hex_pattern by (simp add: spec_get_def empty_holds)
qed

text \<open>
  C27. MySQL's retries are bounded and settle. While no context is cancelled, \<open>Put\<close> answers
  what the first attempt answers that does not lose a deadlock, or the fifth one; so when an
  attempt up to the fifth meets no fault after attempts that lost a deadlock only, the
  answer and the contents are those of the specification.
\<close>

theorem mysql_put_retries:
  assumes "mysql_inv A blob s db" and "\<forall>n. Ctx_err R n = None \<and> Ctx_done R n = None" and "k \<le> 4"
    and "\<forall>n < k. \<exists>e. putOnce A blob s (Attempt_env R n) r db = (Some e, db) \<and> deadlock (Some e)"
  shows "(\<forall>err db'. putOnce A blob s (Attempt_env R k) r db = (err, db') \<and> (deadlock err \<longrightarrow> k = 4) \<longrightarrow>
      mysql_Put A blob s R r db = (err, db')) \<and>
    (Attempt_env R k = no_sql_faults \<longrightarrow>
      (\<exists>err db'. mysql_Put A blob s R r db = (err, db') \<and>
         (err, mysql_holds blob s db') =
           spec_put A (Mysql_trusted s) (sql_keep (mysql_dialect blob)) r (mysql_holds blob s db)))"
proof (intro conjI allI impI)
  fix err db'
  assume "putOnce A blob s (Attempt_env R k) r db = (err, db') \<and> (deadlock err \<longrightarrow> k = 4)"
  then show "mysql_Put A blob s R r db = (err, db')"
    unfolding mysql_Put_def retryDeadlock_def using assms(2-4) by (intro retry_loop_answer [where k = k]) simp_all
qed (rule mysql_put_settles [OF assms])

definition one_deadlock :: retry_env where
  "one_deadlock = \<lparr>Ctx_err = (\<lambda>_. None), Ctx_done = (\<lambda>_. None),
     Attempt_env = (\<lambda>n. if n = 0
       then \<lparr>Call_fault = (\<lambda>c. if c = BeginTx then Some (DriverError 1213 ''Deadlock'') else None), Commit_applied = False\<rparr>
       else no_sql_faults)\<rparr>"

lemma mysql_put_retries_witness:
  "\<exists>db. mysql_Put sample_aac Some sample_mysql one_deadlock (note_record ''hi'') empty_tables = (None, db) \<and>
     mysql_holds Some sample_mysql db (sample_hex 5) \<noteq> None"
proof -
  have inv: "mysql_inv sample_aac Some sample_mysql empty_tables" using empty_inv(2) by simp
  have "\<forall>n. Ctx_err one_deadlock n = None \<and> Ctx_done one_deadlock n = None" "(1 :: nat) \<le> 4"
    "\<forall>n < 1. \<exists>e. putOnce sample_aac Some sample_mysql (Attempt_env one_deadlock n) (note_record ''hi'') empty_tables =
       (Some e, empty_tables) \<and> deadlock (Some e)"
    "Attempt_env one_deadlock 1 = no_sql_faults"
    by (simp_all add: one_deadlock_def putOnce_def deadlock_def)
  with mysql_put_retries [OF inv this(1-3)] obtain err db where
    put: "mysql_Put sample_aac Some sample_mysql one_deadlock (note_record ''hi'') empty_tables = (err, db)"
    and spec: "(err, mysql_holds Some sample_mysql db) = spec_put sample_aac (Mysql_trusted sample_mysql)
      (sql_keep (mysql_dialect Some)) (note_record ''hi'') (mysql_holds Some sample_mysql empty_tables)"
    by blast
  obtain hash where admit: "admit sample_aac [trusted_key] (note_record ''hi'') = Inr (note_prepared ''hi'', hash)"
    by (rule note_admit [of "''hi''"]) simp_all
  have "err = None \<and> mysql_holds Some sample_mysql db (sample_hex 5) \<noteq> None"
    using spec admit by (simp add: spec_put_def empty_holds)
  with put show ?thesis by blast
qed

section \<open>Whichever store\<close>

text \<open>
  C9. No store accepts or returns an unverified record. Whatever the file or the tables hold,
  and whatever fails during the call, a record that \<open>Get\<close> returns carries the identifier that
  was asked for and passes \<open>Verify\<close> under the trusted keys of the store, it is what the index
  entry or the rows lead to, and in SQL its storage checksum is the one filed with it; and a
  \<open>Put\<close> that reports success was given a record that \<open>Prepare\<close>, \<open>Verify\<close> and the checksum admit.
\<close>

theorem stores_fail_closed:
  "(jsonl_Get A io cid (s, disk) = Inr r \<longrightarrow>
      genuine A (Store_trusted s) cid r \<and>
      (\<exists>entry. map_of (Store_index s) cid = Some entry \<and> readAt no_faults disk entry = Inr r)) \<and>
   (sql_Get A D st env cid db = Inr r \<longrightarrow>
      genuine A (Sql_trusted st) cid r \<and>
      (\<exists>sha. read_rows D st no_sql_faults cid db = Inr (r, sha) \<and> StorageChecksum r = Inr sha)) \<and>
   (mysql_Get A blob m env cid db = Inr r \<longrightarrow>
      genuine A (Mysql_trusted m) cid r \<and>
      (\<exists>sha. mysql_rows blob m no_sql_faults cid False db = Inr (r, sha) \<and> StorageChecksum r = Inr sha)) \<and>
   (jsonl_Put A io q (s, disk) = (None, sd) \<longrightarrow> (\<exists>p hash. admit A (Store_trusted s) q = Inr (p, hash))) \<and>
   (sql_Put A D st env q db = (None, db') \<longrightarrow> (\<exists>p hash. admit A (Sql_trusted st) q = Inr (p, hash))) \<and>
   (mysql_Put A blob m R q db = (None, db') \<longrightarrow> (\<exists>p hash. admit A (Mysql_trusted m) q = Inr (p, hash)))"
  using jsonl_Get_closed [of A io cid s disk r] sql_Get_closed [of A D st env cid db r]
    mysql_Get_closed [of A blob m env cid db r] jsonl_Put_closed [of A io q s disk sd]
    sql_Put_closed [of A D st env q db db'] mysql_Put_closed [of A blob m R q db db']
  by blast

theorem stores_fail_closed_witness:
  "\<exists>sd db r q.
     jsonl_Put sample_aac no_faults (note_record ''hi'') (fresh_store, Some []) = (None, sd) \<and>
     jsonl_Get sample_aac no_faults (sample_hex 5) sd = Inr r \<and>
     genuine sample_aac (Store_trusted (fst sd)) (sample_hex 5) r \<and>
     sql_Put sample_aac sample_dialect sample_sql no_sql_faults (note_record ''hi'') empty_tables = (None, db) \<and>
     sql_Get sample_aac sample_dialect sample_sql no_sql_faults (sample_hex 5) db = Inr q \<and>
     genuine sample_aac [trusted_key] (sample_hex 5) q \<and>
     (\<exists>p hash. admit sample_aac [trusted_key] (note_record ''hi'') = Inr (p, hash))"
proof -
  obtain sd r where sd: "jsonl_Put sample_aac no_faults (note_record ''hi'') (fresh_store, Some []) = (None, sd)"
    "jsonl_Get sample_aac no_faults (sample_hex 5) sd = Inr r"
    by (rule note_put_get)
  obtain db q where db: "sql_Put sample_aac sample_dialect sample_sql no_sql_faults (note_record ''hi'') empty_tables = (None, db)"
    "sql_Get sample_aac sample_dialect sample_sql no_sql_faults (sample_hex 5) db = Inr q"
    by (rule note_sql_put_get)
  obtain s disk where parts: "sd = (s, disk)" by (cases sd)
  have "genuine sample_aac (Store_trusted s) (sample_hex 5) r" "genuine sample_aac [trusted_key] (sample_hex 5) q"
    using stores_fail_closed [of sample_aac no_faults "sample_hex 5" s disk r] sd(2)
      stores_fail_closed [of sample_aac _ "sample_hex 5" _ _ q sample_dialect sample_sql no_sql_faults db] db(2)
    by (simp_all add: parts sample_sql_def)
  moreover have "\<exists>p hash. admit sample_aac [trusted_key] (note_record ''hi'') = Inr (p, hash)"
    using stores_fail_closed [of sample_aac no_faults _ fresh_store "Some []" _ _ _ _ _ _ _ "note_record ''hi''" sd] sd(1)
    by (simp add: fresh_store_def)
  ultimately show ?thesis using sd db parts by fastforce
qed

text \<open>
  C8. The stores are interchangeable. Started empty under the same trusted keys, and while
  nothing fails, the three stores give a client the same answers to any sequence of \<open>Put\<close>,
  \<open>Get\<close> and \<open>Purge\<close>, error for error; the SQL stores return an inventory in the order of its
  names where the JSONL store returns it in the order submitted. The one exception are records
  with empty originals, which are not \<open>whole\<close>.
\<close>

theorem stores_interchangeable:
  assumes "jsonl_inv A trusted sd" and "\<forall>cid. jsonl_holds sd cid = None"
    and "sql_inv A (sqlite_dialect (blob_of e)) st db"
    and "\<forall>cid. sql_holds (sqlite_dialect (blob_of e)) st db cid = None" and "Sql_trusted st = trusted"
    and "mysql_inv A (blob_of e') m mdb" and "\<forall>cid. mysql_holds (blob_of e') m mdb cid = None"
    and "Mysql_trusted m = trusted" and "no_retry_faults R"
    and "\<forall>x \<in> set xs. whole_op x"
  shows "answers (sqlite_client A e st) db xs = map (view by_name) (answers (jsonl_client A) sd xs) \<and>
    answers (mysql_client A e' R m) mdb xs = map (view by_name) (answers (jsonl_client A) sd xs)"
  using jsonl_client_answers [OF assms(1,2,10)] sqlite_client_answers [OF assms(3,4,10)]
    mysql_client_answers [OF assms(6,9,7,10)] view_answers [of by_name] assms(5,8)
  by simp

theorem stores_interchangeable_witness:
  "\<exists>R. answers (sqlite_client sample_aac None sample_sql) empty_tables
      [OpPut (note_record ''hi''), OpGet (sample_hex 5), OpPurge (sample_hex 5), OpGet (sample_hex 5)] =
    map (view by_name) (answers (jsonl_client sample_aac) (fresh_store, Some [])
      [OpPut (note_record ''hi''), OpGet (sample_hex 5), OpPurge (sample_hex 5), OpGet (sample_hex 5)]) \<and>
    answers (mysql_client sample_aac (Some '''') R sample_mysql) empty_tables
      [OpPut (note_record ''hi''), OpGet (sample_hex 5), OpPurge (sample_hex 5), OpGet (sample_hex 5)] =
    map (view by_name) (answers (jsonl_client sample_aac) (fresh_store, Some [])
      [OpPut (note_record ''hi''), OpGet (sample_hex 5), OpPurge (sample_hex 5), OpGet (sample_hex 5)])"
proof (rule exI, rule stores_interchangeable)
  show "no_retry_faults \<lparr>Ctx_err = \<lambda>_. None, Ctx_done = \<lambda>_. None, Attempt_env = \<lambda>_. no_sql_faults\<rparr>"
    by (simp add: no_retry_faults_def)
  show "jsonl_inv sample_aac [trusted_key] (fresh_store, Some [])" by (rule fresh_inv)
  show "sql_inv sample_aac (sqlite_dialect (blob_of None)) sample_sql empty_tables"
    "sql_inv sample_aac (mysql_dialect (blob_of (Some ''''))) (as_sql sample_mysql) empty_tables"
    by (simp_all add: empty_tables_inv)
  show "\<forall>x \<in> set [OpPut (note_record ''hi''), OpGet (sample_hex 5), OpPurge (sample_hex 5), OpGet (sample_hex 5)]. whole_op x"
    by (simp add: whole_def note_record_def response_artifact_def note_artifact_def secret_artifact_def)
qed (simp_all add: fresh_holds empty_holds, simp add: sample_sql_def)

section \<open>From seal to store\<close>

text \<open>
  C2. What is sealed can be kept and proved later. A sealed result, filed with the originals of
  the values it was sealed over and with attachments, is accepted by \<open>Put\<close> of the JSONL store
  under any trusted list that has the signer's key; \<open>Get\<close> returns exactly what was filed,
  with checksums filled in, and \<open>Verify\<close> reports every original that is bound to a digest
  of the Capsule as verified against it.
\<close>

theorem sealed_originals_survive:
  assumes "range_ok rng" and "hex_ids A" and "jcs_lossless A" and "envelope_accepts A C"
    and "seal_build A rng input = Inr b" and "json_depth (JObj (Built_Value b)) \<le> maxJSONDepth"
    and "Seal A C rnd rng input = Inr r" and "Seal_Members input = None"
    and "identity_publicKey (Seal_Identity input) \<in> set trusted"
    and "distinct (map Artifact_Name as)" and "\<forall>a \<in> set as. original_of input a"
    and "within_limits (sealed_record r as)"
    and "jsonl_inv A trusted sd" and "jsonl_holds sd (Result_CapsuleID r) = None"
  shows "\<exists>q sd'. jsonl_Put A no_faults (sealed_record r as) sd = (None, sd') \<and>
    jsonl_Get A no_faults (Result_CapsuleID r) sd' = Inr q \<and>
    q = sealed_record r (map fill_checksum as) \<and>
    Verify A q trusted = Inr (map (\<lambda>a. (Artifact_Name a,
      \<lparr>Check_State = Present, Check_Bound = (Artifact_Binding a \<noteq> ''''),
       Check_Verified = (Artifact_Binding a \<noteq> '''')\<rparr>)) as)"
proof -
  let ?q = "sealed_record r (map fill_checksum as)"
  obtain hash where admit: "admit A trusted (sealed_record r as) = Inr (?q, hash)"
    and ok: "record_ok A trusted ?q"
    using sealed_admit [OF assms(1-12)] by blast
  have id: "Record_CapsuleID (sealed_record r as) = Result_CapsuleID r" by (simp add: sealed_record_def)
  note keep = sealed_stored [OF assms(11)]
  obtain err sd' where put: "jsonl_Put A no_faults (sealed_record r as) sd = (err, sd')" by (rule prod.exhaust)
  have fresh: "jsonl_holds sd (Record_CapsuleID (sealed_record r as)) = None" by (simp add: id assms(14))
  have err: "err = None"
    using jsonl.put_exact [OF assms(13) refl put] admit fresh id by (simp add: spec_put_def sealed_record_def)
  have "jsonl_Get A no_faults (Result_CapsuleID r) sd' = Inr ?q"
    using jsonl.put_then_get [OF assms(13) refl refl put [unfolded err] fresh admit] ok by (simp add: keep id)
  with put err sealed_checks [OF assms(11) ok] show ?thesis by blast
qed

lemma sealed_originals_survive_witness:
  "\<exists>r sd. Seal sample_aac sample_cose [] in_order sample_seal = Inr r \<and>
     jsonl_Put sample_aac no_faults (sealed_record r [payload_original, note_artifact ''hi'']) (fresh_store, Some []) = (None, sd) \<and>
     is_ok (jsonl_Get sample_aac no_faults (Result_CapsuleID r) sd)"
proof -
  obtain r where r: "Seal sample_aac sample_cose [] in_order sample_seal = Inr r" using sample_seal_ok by blast
  have "Seal_Members sample_seal = None" by (simp add: sample_seal_def)
  moreover have "distinct (map Artifact_Name [payload_original, note_artifact ''hi''])"
    "\<forall>a \<in> set [payload_original, note_artifact ''hi'']. original_of sample_seal a"
    using payload_original_of by (simp_all add: payload_original_def note_artifact_def)
  moreover note sealed_limits [OF r]
  ultimately obtain sd where
    "jsonl_Put sample_aac no_faults (sealed_record r [payload_original, note_artifact ''hi'']) (fresh_store, Some []) = (None, sd)"
    "is_ok (jsonl_Get sample_aac no_faults (Result_CapsuleID r) sd)"
    using sealed_originals_survive [OF range_ok_in_order sample_hex_ids sample_jcs_lossless sample_envelope_accepts
        sample_seal_build sealed_depth r _ sealed_key _ _ _ fresh_inv fresh_holds,
        of "[payload_original, note_artifact ''hi'']"]
    by auto
  with r show ?thesis by blast
qed

end
